(* ===== verification/Weenix_Prelude.thy ===== *)
theory Weenix_Prelude
  imports Main "HOL-Library.Word" "HOL-Library.Monad_Syntax"
begin

text \<open>
  Shared vocabulary of the development: machine words, the addresses of kernel objects, the
  error numbers, the crash monad, and the generic lemmas the components use.

  The repository holds the kernel's \<open>.c\<close> files and none of its headers. A \<open>struct\<close> is the record
  of the fields the code uses; a numeric constant or a function whose text is not in the
  repository is a parameter of the definitions that use it. A \<open>list_t\<close> of the kernel's list
  library is the HOL list of its members from head to tail, an address is a number, and a
  pointer that the code compares with \<open>NULL\<close> is an \<open>option\<close>.
\<close>

unbundle bit_operations_syntax

subsection \<open>Machine words and addresses\<close>

type_synonym u32 = "32 word"

type_synonym tid = nat      \<comment> \<open>address of a \<open>kthread_t\<close>\<close>
type_synonym paddr = nat    \<comment> \<open>address of a \<open>proc_t\<close>\<close>
type_synonym maddr = nat    \<comment> \<open>address of a \<open>kmutex_t\<close>\<close>
type_synonym oaddr = nat    \<comment> \<open>address of an \<open>mmobj_t\<close>\<close>
type_synonym pfaddr = nat   \<comment> \<open>address of a \<open>pframe_t\<close>\<close>
type_synonym vmaddr = nat   \<comment> \<open>address of a \<open>vmarea_t\<close>\<close>
type_synonym vmapaddr = nat \<comment> \<open>address of a \<open>vmmap_t\<close>\<close>
type_synonym faddr = nat    \<comment> \<open>address of a \<open>file_t\<close>\<close>
type_synonym vaddr = nat    \<comment> \<open>address of a \<open>vnode_t\<close>\<close>

subsection \<open>Error numbers\<close>

text \<open>
  The kernel returns \<open>-errno\<close>. The numbers themselves are in a header, so a definition that
  returns one takes their valuation as an argument; the code relies on each being positive.
\<close>

datatype errno =
    EPERM | ENOENT | EINTR | ENXIO | EBADF | ECHILD | ENOMEM | EACCES | EFAULT | EEXIST
  | ENODEV | ENOTDIR | EISDIR | EINVAL | EMFILE | ERANGE | ENAMETOOLONG | ENOTEMPTY
  | ENOSYS | ENOTSUP

type_synonym errnos = "errno \<Rightarrow> int"

definition errnos_ok :: "errnos \<Rightarrow> bool" where
  "errnos_ok E \<longleftrightarrow> (\<forall>e. 0 < E e)"

lemma errnos_okD [simp]: "errnos_ok E \<Longrightarrow> 0 < E e"
  by (simp add: errnos_ok_def)

lemma errnos_ok_neg [simp]: "errnos_ok E \<Longrightarrow> - E e \<noteq> 0" "errnos_ok E \<Longrightarrow> - E e < 0"
  "errnos_ok E \<Longrightarrow> \<not> 0 \<le> - E e" "errnos_ok E \<Longrightarrow> E e \<noteq> 0"
  using errnos_okD [of E e] by linarith+

definition std_errnos :: errnos where
  "std_errnos e = (case e of
     EPERM \<Rightarrow> 1 | ENOENT \<Rightarrow> 2 | EINTR \<Rightarrow> 4 | ENXIO \<Rightarrow> 6 | EBADF \<Rightarrow> 9 | ECHILD \<Rightarrow> 10
   | ENOMEM \<Rightarrow> 12 | EACCES \<Rightarrow> 13 | EFAULT \<Rightarrow> 14 | EEXIST \<Rightarrow> 17 | ENODEV \<Rightarrow> 19 | ENOTDIR \<Rightarrow> 20
   | EISDIR \<Rightarrow> 21 | EINVAL \<Rightarrow> 22 | EMFILE \<Rightarrow> 24 | ERANGE \<Rightarrow> 34 | ENAMETOOLONG \<Rightarrow> 36
   | ENOTEMPTY \<Rightarrow> 39 | ENOSYS \<Rightarrow> 38 | ENOTSUP \<Rightarrow> 45)"

lemma std_errnos_ok [simp]: "errnos_ok std_errnos"
  by (simp add: errnos_ok_def std_errnos_def split: errno.split)

subsection \<open>Calls that do not come back\<close>

text \<open>
  A kernel call is a function to \<open>option\<close>: \<^const>\<open>None\<close> stands for a call that does not return
  to its caller (a failed \<open>KASSERT\<close>, \<open>panic\<close>, a \<open>NULL\<close> or wild pointer followed, or a wait that
  no event ends), \<open>Some\<close> for a return with the result and the new state.
\<close>

definition KASSERT :: "bool \<Rightarrow> unit option" where
  "KASSERT b = (if b then Some () else None)"

lemma bind_KASSERT [simp]:
  "Option.bind (KASSERT b) f = (if b then f () else None)"
  by (simp add: KASSERT_def)

lemma bind_Some_iff:
  "Option.bind m f = Some r \<longleftrightarrow> (\<exists>x. m = Some x \<and> f x = Some r)"
  by (cases m) auto

lemma bind_None_iff:
  "Option.bind m f = None \<longleftrightarrow> m = None \<or> (\<exists>x. m = Some x \<and> f x = None)"
  by (cases m) auto

lemma if_Some_None_iff [simp]:
  "(if b then m else None) = Some r \<longleftrightarrow> b \<and> m = Some r"
  "(if b then None else m) = Some r \<longleftrightarrow> \<not> b \<and> m = Some r"
  by auto

named_theorems crash_simps \<open>unfolding the crash monad\<close>
declare bind_Some_iff [crash_simps]

subsection \<open>Lists\<close>

lemma remove1_last:
  assumes "distinct xs" and "xs \<noteq> []"
  shows "remove1 (last xs) xs = butlast xs"
  using assms
proof (induction xs)
  case Nil
  then show ?case by simp
next
  case (Cons x xs)
  then show ?case by (cases xs) auto
qed

lemma set_butlast_distinct:
  assumes "distinct xs" and "xs \<noteq> []"
  shows "set (butlast xs) = set xs - {last xs}"
  using assms by (metis remove1_last set_remove1_eq)

lemma last_notin_butlast:
  assumes "distinct xs" and "xs \<noteq> []"
  shows "last xs \<notin> set (butlast xs)"
  using assms by (simp add: set_butlast_distinct)

lemma find_unique:
  assumes "\<And>a b. a \<in> set l \<Longrightarrow> b \<in> set l \<Longrightarrow> P a \<Longrightarrow> P b \<Longrightarrow> a = b"
  shows "List.find P l = Some a \<longleftrightarrow> a \<in> set l \<and> P a"
  using assms by (induction l) auto

text \<open>A word read as a signed number.\<close>

lemma sint_small: "unat (w :: u32) < 2 ^ 31 \<Longrightarrow> sint w = int (unat w)"
proof -
  assume a: "unat w < 2 ^ 31"
  have "int (unat w) < int (2 ^ 31)" using a by (simp only: of_nat_less_iff)
  then have "uint w < 2 ^ 31" by simp
  then have "signed_take_bit 31 (uint w) = uint w"
    by (intro signed_take_bit_int_eq_self) (rule order_trans [of _ 0], simp_all)
  moreover have "sint w = signed_take_bit 31 (uint w)" unfolding sint_uint by simp
  ultimately show ?thesis by simp
qed

lemma int_length_remove1: "x \<in> set xs \<Longrightarrow> int (length (remove1 x xs)) = int (length xs) - 1"
  by (induction xs) (auto split: if_splits)

text \<open>Arithmetic of C's \<open>int\<close>, 32 bits wide and signed.\<close>

definition int32 :: "int \<Rightarrow> int" where
  "int32 i = signed_take_bit 31 i"

lemma int32_id [simp]: "- (2 ^ 31) \<le> i \<Longrightarrow> i < 2 ^ 31 \<Longrightarrow> int32 i = i"
  by (simp add: int32_def signed_take_bit_int_eq_self)

lemma int32_bounds: "- (2 ^ 31) \<le> int32 i" "int32 i < 2 ^ 31"
  using signed_take_bit_int_greater_eq_minus_exp [of 31 i] signed_take_bit_int_less_exp [of 31 i]
  by (simp_all add: int32_def)

end
