(* ===== verification/Fifo_Queue.thy ===== *)
theory Fifo_Queue
  imports Weenix_Prelude
begin

text \<open>
  The contract of a first-in first-out queue that lives inside a larger state, as the wait queues
  and the run queue do, and what every client may conclude from it. Operations answer in the crash
  monad; \<open>content\<close> lists the members from the oldest to the newest, \<open>free x s\<close> says that \<open>x\<close> may be
  put on the queue.
\<close>

fun enq_list :: "('a \<Rightarrow> 's \<Rightarrow> 's option) \<Rightarrow> 'a list \<Rightarrow> 's \<Rightarrow> 's option" where
  "enq_list enq [] s = Some s"
| "enq_list enq (x # xs) s = do { s \<leftarrow> enq x s; enq_list enq xs s }"

fun deq_list :: "('s \<Rightarrow> ('a option \<times> 's) option) \<Rightarrow> nat \<Rightarrow> 's \<Rightarrow> ('a option list \<times> 's) option" where
  "deq_list deq 0 s = Some ([], s)"
| "deq_list deq (Suc n) s = do { (x, s) \<leftarrow> deq s; (xs, s) \<leftarrow> deq_list deq n s; Some (x # xs, s) }"

locale fifo_queue =
  fixes enq :: "'a \<Rightarrow> 's \<Rightarrow> 's option"
    and deq :: "'s \<Rightarrow> ('a option \<times> 's) option"
    and content :: "'s \<Rightarrow> 'a list"
    and inv :: "'s \<Rightarrow> bool"
    and free :: "'a \<Rightarrow> 's \<Rightarrow> bool"
  assumes enq_ok: "inv s \<Longrightarrow> free x s \<Longrightarrow>
      \<exists>s'. enq x s = Some s' \<and> inv s' \<and> content s' = content s @ [x] \<and> (\<forall>y. y \<noteq> x \<longrightarrow> free y s' = free y s)"
    and deq_empty: "inv s \<Longrightarrow> content s = [] \<Longrightarrow> deq s = Some (None, s)"
    and deq_Cons: "inv s \<Longrightarrow> content s = x # xs \<Longrightarrow>
      \<exists>s'. deq s = Some (Some x, s') \<and> inv s' \<and> content s' = xs"
begin

lemma enq_list_ok:
  assumes "inv s" and "distinct xs" and "\<forall>x\<in>set xs. free x s"
  shows "\<exists>s'. enq_list enq xs s = Some s' \<and> inv s' \<and> content s' = content s @ xs"
  using assms
proof (induction xs arbitrary: s)
  case Nil
  then show ?case by simp
next
  case (Cons x xs)
  obtain s1 where s1: "enq x s = Some s1" "inv s1" "content s1 = content s @ [x]"
    "\<forall>y. y \<noteq> x \<longrightarrow> free y s1 = free y s"
    using enq_ok [of s x] Cons.prems by auto
  then have "\<forall>y\<in>set xs. free y s1" using Cons.prems by auto
  then obtain s2 where "enq_list enq xs s1 = Some s2" "inv s2" "content s2 = content s1 @ xs"
    using Cons.IH [of s1] Cons.prems s1(2) by auto
  with s1 show ?case by simp
qed

lemma deq_list_ok:
  assumes "inv s" and "content s = xs @ ys"
  shows "\<exists>s'. deq_list deq (length xs) s = Some (map Some xs, s') \<and> inv s' \<and> content s' = ys"
  using assms
proof (induction xs arbitrary: s)
  case Nil
  then show ?case by simp
next
  case (Cons x xs)
  obtain s1 where s1: "deq s = Some (Some x, s1)" "inv s1" "content s1 = xs @ ys"
    using deq_Cons [of s x "xs @ ys"] Cons.prems by auto
  then obtain s2 where "deq_list deq (length xs) s1 = Some (map Some xs, s2)" "inv s2" "content s2 = ys"
    using Cons.IH [of s1] by auto
  with s1 show ?case by simp
qed

lemma fifo_order:
  assumes "inv s" and "distinct xs" and "\<forall>x\<in>set xs. free x s" and "n = length (content s) + length xs"
  shows "\<exists>s1 s2. enq_list enq xs s = Some s1 \<and>
           deq_list deq n s1 = Some (map Some (content s @ xs), s2) \<and> content s2 = []"
proof -
  obtain s1 where s1: "enq_list enq xs s = Some s1" "inv s1" "content s1 = content s @ xs"
    using enq_list_ok [OF assms(1-3)] by blast
  with deq_list_ok [of s1 "content s @ xs" "[]"] assms(4) show ?thesis by auto
qed

end

end
