(* ===== verification/Sched.thy ===== *)
theory Sched
  imports Fifo_Queue
begin

text \<open>
  The scheduler (\<open>kernel/proc/sched.c\<close>, \<open>kernel/proc/sched_helper.c\<close>): thread queues, the run
  queue, sleeping, waking, cancelling and switching.

  The state \<open>sched\<close> holds the thread structures, the thread queues by the place of the queue
  structure in memory, the globals \<open>curthr\<close> and \<open>curproc\<close>, and the interrupt state of the
  processor. The operations are polymorphic in the rest of the kernel's state.
\<close>

subsection \<open>Data\<close>

datatype kthread_state =
  KT_NO_STATE | KT_RUN | KT_SLEEP | KT_SLEEP_CANCELLABLE | KT_EXITED

text \<open>The places of the queue structures: the run queue, and the queues inside other structures.\<close>

datatype qaddr =
    Kt_runq | Km_waitq maddr | P_wait paddr | Pf_waitq pfaddr | Pageoutd_waitq | Alloc_waitq

record kthread =
  kt_state :: kthread_state
  kt_wchan :: "qaddr option"
  kt_cancelled :: bool
  kt_retval :: int
  kt_errno :: int
  kt_proc :: "paddr option"
  kt_kstack :: "nat option"

record ktqueue =
  tq_list :: "tid list"
  tq_size :: int

datatype ipl_level = IPL_LOW | IPL_DEVICE nat | IPL_HIGH

record sched =
  threads :: "tid \<Rightarrow> kthread option"
  queues :: "qaddr \<Rightarrow> ktqueue"
  curthr :: "tid option"
  curproc :: "paddr option"
  ipl :: ipl_level
  intr_on :: bool

text \<open>Writing a field of a thread through its pointer.\<close>

definition upd_thr :: "tid \<Rightarrow> (kthread \<Rightarrow> kthread) \<Rightarrow> 'z sched_scheme \<Rightarrow> 'z sched_scheme option" where
  "upd_thr t f s = do {
     th \<leftarrow> threads s t;
     Some (s\<lparr>threads := (threads s)(t \<mapsto> f th)\<rparr>) }"

subsection \<open>Thread queues\<close>

definition sched_queue_init :: "qaddr \<Rightarrow> 'z sched_scheme \<Rightarrow> 'z sched_scheme" where
  "sched_queue_init q s = s\<lparr>queues := (queues s)(q := \<lparr>tq_list = [], tq_size = 0\<rparr>)\<rparr>"

definition sched_init :: "'z sched_scheme \<Rightarrow> 'z sched_scheme" where
  "sched_init s = sched_queue_init Kt_runq s"

definition sched_queue_empty :: "qaddr \<Rightarrow> 'z sched_scheme \<Rightarrow> bool" where
  "sched_queue_empty q s \<longleftrightarrow> tq_list (queues s q) = []"

definition ktqueue_enqueue :: "qaddr \<Rightarrow> tid \<Rightarrow> 'z sched_scheme \<Rightarrow> 'z sched_scheme option" where
  "ktqueue_enqueue q thr s = do {
     th \<leftarrow> threads s thr;
     KASSERT (kt_wchan th = None);
     let qq = queues s q;
     Some (s\<lparr>queues := (queues s)(q := \<lparr>tq_list = thr # tq_list qq, tq_size = tq_size qq + 1\<rparr>),
             threads := (threads s)(thr \<mapsto> th\<lparr>kt_wchan := Some q\<rparr>)\<rparr>) }"

definition ktqueue_dequeue ::
  "qaddr \<Rightarrow> 'z sched_scheme \<Rightarrow> (tid option \<times> 'z sched_scheme) option" where
  "ktqueue_dequeue q s =
     (if tq_list (queues s q) = [] then Some (None, s)
      else do {
        let qq = queues s q;
        let thr = last (tq_list qq);
        th \<leftarrow> threads s thr;
        Some (Some thr,
          s\<lparr>queues := (queues s)(q := \<lparr>tq_list = butlast (tq_list qq), tq_size = tq_size qq - 1\<rparr>),
            threads := (threads s)(thr \<mapsto> th\<lparr>kt_wchan := None\<rparr>)\<rparr>) })"

text \<open>
  \<open>list_remove\<close> unlinks the thread from the list it is on, which is the one \<open>kt_wchan\<close> names; the
  assertion that the link is linked is that it is on one.
\<close>

definition ktqueue_remove :: "qaddr \<Rightarrow> tid \<Rightarrow> 'z sched_scheme \<Rightarrow> 'z sched_scheme option" where
  "ktqueue_remove q thr s = do {
     th \<leftarrow> threads s thr;
     let qq = queues s q;
     KASSERT (thr \<in> set (tq_list qq));
     Some (s\<lparr>queues := (queues s)(q := \<lparr>tq_list = remove1 thr (tq_list qq), tq_size = tq_size qq - 1\<rparr>),
             threads := (threads s)(thr \<mapsto> th\<lparr>kt_wchan := None\<rparr>)\<rparr>) }"

subsection \<open>The run queue and switching\<close>

definition sched_make_runnable :: "tid \<Rightarrow> 'z sched_scheme \<Rightarrow> 'z sched_scheme option" where
  "sched_make_runnable thr s = do {
     th \<leftarrow> threads s thr;
     KASSERT (Some Kt_runq \<noteq> kt_wchan th);
     let old_IPL = ipl s;
     s \<leftarrow> ktqueue_enqueue Kt_runq thr (s\<lparr>ipl := IPL_HIGH\<rparr>);
     Some (s\<lparr>ipl := old_IPL\<rparr>) }"

text \<open>
  The wait of \<open>sched_switch\<close> for a non-empty run queue. The interrupts that will arrive are the
  list \<open>irqs\<close> of their handlers' effects, each of which ends one \<open>intr_wait\<close>; with the queue empty
  and no interrupt left the loop never ends.
\<close>

fun sched_switch_wait ::
  "('z sched_scheme \<Rightarrow> 'z sched_scheme) list \<Rightarrow> 'z sched_scheme \<Rightarrow> 'z sched_scheme option" where
  "sched_switch_wait [] s = (if sched_queue_empty Kt_runq s then None else Some s)"
| "sched_switch_wait (irq # irqs) s =
     (if sched_queue_empty Kt_runq s
      then sched_switch_wait irqs ((irq (s\<lparr>intr_on := False, ipl := IPL_LOW\<rparr>))\<lparr>ipl := IPL_HIGH\<rparr>)
      else Some s)"

text \<open>
  \<open>sched_switch\<close> up to \<open>context_switch\<close>, which gives the processor to the dequeued thread. What
  the caller does when it is switched back in is \<open>sched_switch_resume\<close>, with the interrupt level
  it had saved.
\<close>

definition sched_switch ::
  "('z sched_scheme \<Rightarrow> 'z sched_scheme) list \<Rightarrow> 'z sched_scheme \<Rightarrow> 'z sched_scheme option" where
  "sched_switch irqs s = do {
     s \<leftarrow> sched_switch_wait irqs (s\<lparr>ipl := IPL_HIGH\<rparr>);
     (thr, s) \<leftarrow> ktqueue_dequeue Kt_runq s;
     thr \<leftarrow> thr;
     th \<leftarrow> threads s thr;
     Some (s\<lparr>curthr := Some thr, curproc := kt_proc th\<rparr>) }"

definition sched_switch_resume :: "ipl_level \<Rightarrow> 'z sched_scheme \<Rightarrow> 'z sched_scheme" where
  "sched_switch_resume old_IPL s = s\<lparr>ipl := old_IPL\<rparr>"

subsection \<open>Sleeping, waking, cancelling\<close>

definition sched_sleep_on ::
  "('z sched_scheme \<Rightarrow> 'z sched_scheme) list \<Rightarrow> qaddr \<Rightarrow> 'z sched_scheme \<Rightarrow> 'z sched_scheme option" where
  "sched_sleep_on irqs q s = do {
     thr \<leftarrow> curthr s;
     s \<leftarrow> upd_thr thr (\<lambda>th. th\<lparr>kt_state := KT_SLEEP\<rparr>) s;
     s \<leftarrow> ktqueue_enqueue q thr s;
     sched_switch irqs s }"

definition sched_wakeup_on :: "qaddr \<Rightarrow> 'z sched_scheme \<Rightarrow> (tid option \<times> 'z sched_scheme) option" where
  "sched_wakeup_on q s =
     (if \<not> sched_queue_empty q s
      then do {
        (r, s) \<leftarrow> ktqueue_dequeue q s;
        thr \<leftarrow> r;
        th \<leftarrow> threads s thr;
        KASSERT (kt_state th = KT_SLEEP \<or> kt_state th = KT_SLEEP_CANCELLABLE);
        s \<leftarrow> upd_thr thr (\<lambda>th. th\<lparr>kt_state := KT_RUN\<rparr>) s;
        s \<leftarrow> sched_make_runnable thr s;
        Some (Some thr, s) }
      else Some (None, s))"

text \<open>
  The loop of \<open>sched_broadcast_on\<close> dequeues one thread in each round; the first argument bounds
  the rounds and starts at the length of the queue.
\<close>

fun sched_broadcast_loop :: "nat \<Rightarrow> qaddr \<Rightarrow> 'z sched_scheme \<Rightarrow> 'z sched_scheme option" where
  "sched_broadcast_loop 0 q s = (if sched_queue_empty q s then Some s else None)"
| "sched_broadcast_loop (Suc n) q s =
     (if sched_queue_empty q s then Some s
      else do {
        (r, s) \<leftarrow> ktqueue_dequeue q s;
        thr \<leftarrow> r;
        s \<leftarrow> upd_thr thr (\<lambda>th. th\<lparr>kt_state := KT_RUN\<rparr>) s;
        s \<leftarrow> sched_make_runnable thr s;
        sched_broadcast_loop n q s })"

definition sched_broadcast_on :: "qaddr \<Rightarrow> 'z sched_scheme \<Rightarrow> 'z sched_scheme option" where
  "sched_broadcast_on q s = sched_broadcast_loop (length (tq_list (queues s q))) q s"

text \<open>
  \<open>sched_cancellable_sleep_on\<close> has two outcomes at once: \<open>Inl r\<close> is a return of \<open>r\<close> without
  sleeping, \<open>Inr ()\<close> says that the caller sleeps and another thread now runs. When the caller
  runs again the call returns \<open>sched_cancellable_resume\<close>.
\<close>

definition sched_cancellable_sleep_on ::
  "errnos \<Rightarrow> ('z sched_scheme \<Rightarrow> 'z sched_scheme) list \<Rightarrow> qaddr \<Rightarrow> 'z sched_scheme
    \<Rightarrow> ((int + unit) \<times> 'z sched_scheme) option" where
  "sched_cancellable_sleep_on E irqs q s = do {
     thr \<leftarrow> curthr s;
     th \<leftarrow> threads s thr;
     if \<not> kt_cancelled th
     then do {
       s \<leftarrow> upd_thr thr (\<lambda>th. th\<lparr>kt_state := KT_SLEEP_CANCELLABLE\<rparr>) s;
       s \<leftarrow> ktqueue_enqueue q thr s;
       s \<leftarrow> sched_switch irqs s;
       Some (Inr (), s) }
     else Some (Inl (- E EINTR), s) }"

definition sched_cancellable_resume :: "errnos \<Rightarrow> 'z sched_scheme \<Rightarrow> int option" where
  "sched_cancellable_resume E s = do {
     thr \<leftarrow> curthr s;
     th \<leftarrow> threads s thr;
     Some (if \<not> kt_cancelled th then 0 else - E EINTR) }"

definition sched_cancel :: "tid \<Rightarrow> 'z sched_scheme \<Rightarrow> 'z sched_scheme option" where
  "sched_cancel thr s = do {
     th \<leftarrow> threads s thr;
     if kt_state th = KT_SLEEP_CANCELLABLE
     then do {
       s \<leftarrow> upd_thr thr (\<lambda>th. th\<lparr>kt_cancelled := True\<rparr>) s;
       q \<leftarrow> kt_wchan th;
       s \<leftarrow> ktqueue_remove q thr s;
       sched_make_runnable thr s }
     else upd_thr thr (\<lambda>th. th\<lparr>kt_cancelled := True\<rparr>) s }"


subsection \<open>Invariants\<close>

text \<open>
  \<open>queue_inv\<close>: every queue is a list without repetition whose length is \<open>tq_size\<close>, and a thread is
  on a queue exactly when its \<open>kt_wchan\<close> points to that queue (so it is on one queue at most).
\<close>

definition queue_inv :: "'z sched_scheme \<Rightarrow> bool" where
  "queue_inv s \<longleftrightarrow>
     (\<forall>q. distinct (tq_list (queues s q)) \<and> tq_size (queues s q) = int (length (tq_list (queues s q)))) \<and>
     (\<forall>q t. t \<in> set (tq_list (queues s q)) \<longleftrightarrow> (\<exists>th. threads s t = Some th \<and> kt_wchan th = Some q))"

text \<open>
  \<open>sleep_inv\<close>: a thread on a wait queue is in one of the two sleeping states, and a thread that
  sleeps without being cancellable is on a wait queue.
\<close>

definition sleep_inv :: "'z sched_scheme \<Rightarrow> bool" where
  "sleep_inv s \<longleftrightarrow> (\<forall>t th. threads s t = Some th \<longrightarrow>
     (\<forall>q. kt_wchan th = Some q \<and> q \<noteq> Kt_runq \<longrightarrow> kt_state th \<in> {KT_SLEEP, KT_SLEEP_CANCELLABLE}) \<and>
     (kt_state th = KT_SLEEP \<longrightarrow> (\<exists>q. kt_wchan th = Some q \<and> q \<noteq> Kt_runq)))"

text \<open>\<open>cur_inv\<close>: there is a current thread, it is on no queue, and \<open>curproc\<close> is its process.\<close>

definition cur_inv :: "'z sched_scheme \<Rightarrow> bool" where
  "cur_inv s \<longleftrightarrow>
     (\<exists>c th. curthr s = Some c \<and> threads s c = Some th \<and> kt_wchan th = None \<and> curproc s = kt_proc th)"

text \<open>
  \<open>no_lost_except c\<close>: what \<open>sched.c\<close> asks for, that a thread is on some queue unless it is in
  \<open>KT_NO_STATE\<close> or \<open>KT_EXITED\<close>, or it is \<open>c\<close> (the one that runs).
\<close>

definition no_lost_except :: "tid option \<Rightarrow> 'z sched_scheme \<Rightarrow> bool" where
  "no_lost_except c s \<longleftrightarrow> (\<forall>t th. threads s t = Some th \<longrightarrow>
     kt_state th \<in> {KT_NO_STATE, KT_EXITED} \<or> kt_wchan th \<noteq> None \<or> c = Some t)"

definition sched_wf :: "tid option \<Rightarrow> 'z sched_scheme \<Rightarrow> bool" where
  "sched_wf c s \<longleftrightarrow> queue_inv s \<and> sleep_inv s \<and> no_lost_except c s"

definition sched_ok :: "'z sched_scheme \<Rightarrow> bool" where
  "sched_ok s \<longleftrightarrow> sched_wf (curthr s) s \<and> cur_inv s"

lemma queue_inv_distinct [simp]: "queue_inv s \<Longrightarrow> distinct (tq_list (queues s q))"
  by (simp add: queue_inv_def)

lemma queue_inv_size: "queue_inv s \<Longrightarrow> tq_size (queues s q) = int (length (tq_list (queues s q)))"
  by (simp add: queue_inv_def)

lemma queue_inv_mem:
  "queue_inv s \<Longrightarrow> t \<in> set (tq_list (queues s q)) \<longleftrightarrow> (\<exists>th. threads s t = Some th \<and> kt_wchan th = Some q)"
  by (simp add: queue_inv_def)

text \<open>Only the threads and the queues matter to the invariants; a change of the rest keeps them.\<close>

lemma queue_inv_frame:
  "threads s' = threads s \<Longrightarrow> queues s' = queues s \<Longrightarrow> queue_inv s' = queue_inv s"
  by (simp add: queue_inv_def)

lemma sleep_inv_frame: "threads s' = threads s \<Longrightarrow> sleep_inv s' = sleep_inv s"
  by (simp add: sleep_inv_def)

lemma queue_inv_upds [simp]:
  "queue_inv (s\<lparr>ipl := i\<rparr>) = queue_inv s" "queue_inv (s\<lparr>intr_on := b\<rparr>) = queue_inv s"
  "queue_inv (s\<lparr>curthr := c\<rparr>) = queue_inv s" "queue_inv (s\<lparr>curproc := p\<rparr>) = queue_inv s"
  by (simp_all add: queue_inv_def)

lemma sleep_inv_upds [simp]:
  "sleep_inv (s\<lparr>ipl := i\<rparr>) = sleep_inv s" "sleep_inv (s\<lparr>intr_on := b\<rparr>) = sleep_inv s"
  "sleep_inv (s\<lparr>curthr := c\<rparr>) = sleep_inv s" "sleep_inv (s\<lparr>curproc := p\<rparr>) = sleep_inv s"
  by (simp_all add: sleep_inv_def)

text \<open>Writing the state or the flags of a thread does not touch the queues.\<close>

lemma queue_inv_upd_thr:
  assumes "queue_inv s" and "upd_thr t f s = Some s'" and "\<And>th. kt_wchan (f th) = kt_wchan th"
  shows "queue_inv s'"
  using assms by (auto simp: queue_inv_def upd_thr_def crash_simps split: if_splits)

lemma upd_thr_Some_iff:
  "upd_thr t f s = Some s' \<longleftrightarrow>
     (\<exists>th. threads s t = Some th \<and> s' = s\<lparr>threads := (threads s)(t \<mapsto> f th)\<rparr>)"
  by (auto simp: upd_thr_def crash_simps)

lemma ktqueue_enqueue_Some_iff:
  "ktqueue_enqueue q t s = Some s' \<longleftrightarrow>
     (\<exists>th. threads s t = Some th \<and> kt_wchan th = None \<and>
        s' = s\<lparr>queues := (queues s)(q := \<lparr>tq_list = t # tq_list (queues s q),
                                        tq_size = tq_size (queues s q) + 1\<rparr>),
               threads := (threads s)(t \<mapsto> th\<lparr>kt_wchan := Some q\<rparr>)\<rparr>)"
  by (auto simp: ktqueue_enqueue_def crash_simps Let_def)

lemma queue_inv_enqueue:
  assumes "queue_inv s" and "ktqueue_enqueue q t s = Some s'"
  shows "queue_inv s'"
  using assms unfolding ktqueue_enqueue_Some_iff queue_inv_def by (auto split: if_splits)

lemma ktqueue_dequeue_empty [simp]:
  "tq_list (queues s q) = [] \<Longrightarrow> ktqueue_dequeue q s = Some (None, s)"
  by (simp add: ktqueue_dequeue_def)

lemma ktqueue_dequeue_last:
  assumes "queue_inv s" and "tq_list (queues s q) \<noteq> []"
  obtains th where "threads s (last (tq_list (queues s q))) = Some th" and "kt_wchan th = Some q"
    and "ktqueue_dequeue q s = Some (Some (last (tq_list (queues s q))),
      s\<lparr>queues := (queues s)(q := \<lparr>tq_list = butlast (tq_list (queues s q)),
                                  tq_size = tq_size (queues s q) - 1\<rparr>),
        threads := (threads s)(last (tq_list (queues s q)) \<mapsto> th\<lparr>kt_wchan := None\<rparr>)\<rparr>)"
proof -
  have "last (tq_list (queues s q)) \<in> set (tq_list (queues s q))" using assms(2) by simp
  then obtain th where "threads s (last (tq_list (queues s q))) = Some th" "kt_wchan th = Some q"
    using queue_inv_mem [OF assms(1)] by blast
  with assms(2) show ?thesis by (intro that) (simp_all add: ktqueue_dequeue_def Let_def)
qed

lemma queue_inv_dequeue:
  assumes inv: "queue_inv s" and deq: "ktqueue_dequeue q s = Some (r, s')"
  shows "queue_inv s'"
proof (cases "tq_list (queues s q) = []")
  case True
  with assms show ?thesis by simp
next
  case False
  let ?l = "tq_list (queues s q)"
  have "set (butlast ?l) = set ?l - {last ?l}" "last ?l \<notin> set (butlast ?l)"
    using inv False by (simp_all add: set_butlast_distinct last_notin_butlast)
  moreover have "int (length (butlast ?l)) = int (length ?l) - 1" using False
    by (simp add: of_nat_diff Suc_leI)
  moreover obtain th where "s' = s\<lparr>queues := (queues s)(q := \<lparr>tq_list = butlast ?l,
      tq_size = tq_size (queues s q) - 1\<rparr>), threads := (threads s)(last ?l \<mapsto> th\<lparr>kt_wchan := None\<rparr>)\<rparr>"
    "threads s (last ?l) = Some th" "kt_wchan th = Some q"
    using ktqueue_dequeue_last [OF inv False] deq by (metis Pair_inject option.inject)
  ultimately show ?thesis using inv
    by (auto simp: queue_inv_def distinct_butlast split: if_splits)
qed

lemma ktqueue_remove_Some_iff:
  "ktqueue_remove q t s = Some s' \<longleftrightarrow>
     (\<exists>th. threads s t = Some th \<and> t \<in> set (tq_list (queues s q)) \<and>
        s' = s\<lparr>queues := (queues s)(q := \<lparr>tq_list = remove1 t (tq_list (queues s q)),
                                        tq_size = tq_size (queues s q) - 1\<rparr>),
               threads := (threads s)(t \<mapsto> th\<lparr>kt_wchan := None\<rparr>)\<rparr>)"
  by (auto simp: ktqueue_remove_def crash_simps Let_def)

lemma queue_inv_remove:
  assumes inv: "queue_inv s" and rem: "ktqueue_remove q t s = Some s'"
  shows "queue_inv s'"
proof -
  from rem obtain th where t: "threads s t = Some th" "t \<in> set (tq_list (queues s q))"
    and s': "s' = s\<lparr>queues := (queues s)(q := \<lparr>tq_list = remove1 t (tq_list (queues s q)),
      tq_size = tq_size (queues s q) - 1\<rparr>), threads := (threads s)(t \<mapsto> th\<lparr>kt_wchan := None\<rparr>)\<rparr>"
    unfolding ktqueue_remove_Some_iff by blast
  have "kt_wchan th = Some q" using t queue_inv_mem [OF inv] by auto
  moreover have "int (length (remove1 t (tq_list (queues s q)))) = int (length (tq_list (queues s q))) - 1"
    using t(2) length_pos_if_in_set [OF t(2)] by (simp add: length_remove1 of_nat_diff Suc_leI)
  ultimately show ?thesis using inv t s'
    by (auto simp: queue_inv_def split: if_splits)
qed


subsection \<open>What the operations do\<close>


lemma sched_make_runnable_eq: "sched_make_runnable t s = ktqueue_enqueue Kt_runq t s"
  by (auto simp: sched_make_runnable_def ktqueue_enqueue_def Let_def split: Option.bind_splits)

lemma sleep_inv_runq:
  assumes "sleep_inv s" and "threads s t = Some th" and "kt_wchan th = Some Kt_runq \<or> kt_wchan th = None"
  shows "kt_state th \<noteq> KT_SLEEP"
  using assms unfolding sleep_inv_def by (metis option.distinct(1) option.inject)

definition woken :: "kthread \<Rightarrow> kthread" where
  "woken th = th\<lparr>kt_state := KT_RUN, kt_wchan := Some Kt_runq\<rparr>"

lemma woken_sel [simp]:
  "kt_state (woken th) = KT_RUN" "kt_wchan (woken th) = Some Kt_runq"
  "kt_cancelled (woken th) = kt_cancelled th" "kt_proc (woken th) = kt_proc th"
  "kt_retval (woken th) = kt_retval th"
  by (simp_all add: woken_def)

definition wake_last :: "qaddr \<Rightarrow> 'z sched_scheme \<Rightarrow> 'z sched_scheme" where
  "wake_last q s = (let l = tq_list (queues s q); r = queues s Kt_runq in
     s\<lparr>queues := (queues s)(q := \<lparr>tq_list = butlast l, tq_size = tq_size (queues s q) - 1\<rparr>,
                           Kt_runq := \<lparr>tq_list = last l # tq_list r, tq_size = tq_size r + 1\<rparr>),
       threads := (threads s)(last l := map_option woken (threads s (last l)))\<rparr>)"

lemma dequeue_make_runnable:
  assumes inv: "queue_inv s" and ne: "tq_list (queues s q) \<noteq> []" and q: "q \<noteq> Kt_runq"
  shows "do { (r, s) \<leftarrow> ktqueue_dequeue q s; t \<leftarrow> r;
              s \<leftarrow> upd_thr t (\<lambda>th. th\<lparr>kt_state := KT_RUN\<rparr>) s;
              s \<leftarrow> sched_make_runnable t s; f t s }
         = f (last (tq_list (queues s q))) (wake_last q s)"
proof -
  let ?t = "last (tq_list (queues s q))"
  obtain th where th: "threads s ?t = Some th" "kt_wchan th = Some q"
    and deq: "ktqueue_dequeue q s = Some (Some ?t,
      s\<lparr>queues := (queues s)(q := \<lparr>tq_list = butlast (tq_list (queues s q)), tq_size = tq_size (queues s q) - 1\<rparr>),
        threads := (threads s)(?t \<mapsto> th\<lparr>kt_wchan := None\<rparr>)\<rparr>)"
    using ktqueue_dequeue_last [OF inv ne] by blast
  show ?thesis using th q
    by (simp add: deq sched_make_runnable_eq upd_thr_def ktqueue_enqueue_def Let_def wake_last_def woken_def)
qed

lemma sched_wakeup_on_eq:
  assumes "queue_inv s" and "sleep_inv s" and "tq_list (queues s q) \<noteq> []" and "q \<noteq> Kt_runq"
  shows "sched_wakeup_on q s = Some (Some (last (tq_list (queues s q))), wake_last q s)"
proof -
  let ?t = "last (tq_list (queues s q))"
  obtain th where th: "threads s ?t = Some th" "kt_wchan th = Some q"
    and deq: "ktqueue_dequeue q s = Some (Some ?t,
      s\<lparr>queues := (queues s)(q := \<lparr>tq_list = butlast (tq_list (queues s q)), tq_size = tq_size (queues s q) - 1\<rparr>),
        threads := (threads s)(?t \<mapsto> th\<lparr>kt_wchan := None\<rparr>)\<rparr>)"
    using ktqueue_dequeue_last [OF assms(1,3)] by blast
  have "kt_state th \<in> {KT_SLEEP, KT_SLEEP_CANCELLABLE}"
    using assms(2,4) th by (auto simp: sleep_inv_def)
  with th assms(3,4) show ?thesis
    by (auto simp: sched_wakeup_on_def sched_queue_empty_def deq sched_make_runnable_eq upd_thr_def
          ktqueue_enqueue_def Let_def wake_last_def woken_def)
qed

lemma queue_inv_wake_last:
  assumes inv: "queue_inv s" and ne: "tq_list (queues s q) \<noteq> []" and q: "q \<noteq> Kt_runq"
  shows "queue_inv (wake_last q s)"
proof -
  let ?l = "tq_list (queues s q)"
  obtain th where th: "threads s (last ?l) = Some th" "kt_wchan th = Some q"
    using ktqueue_dequeue_last [OF inv ne] by blast
  have "set (butlast ?l) = set ?l - {last ?l}"
    using inv ne by (simp add: set_butlast_distinct)
  moreover have "int (length (butlast ?l)) = int (length ?l) - 1" using ne
    by (simp add: of_nat_diff Suc_leI)
  moreover have "last ?l \<notin> set (tq_list (queues s Kt_runq))"
    using th q queue_inv_mem [OF inv] by auto
  ultimately show ?thesis using inv th q
    by (auto simp: queue_inv_def wake_last_def Let_def distinct_butlast split: if_splits)
qed

lemma sleep_inv_wake_last:
  assumes "sleep_inv s" shows "sleep_inv (wake_last q s)"
  using assms by (auto simp: sleep_inv_def wake_last_def Let_def split: if_splits)

lemma no_lost_wake_last:
  assumes "no_lost_except c s" shows "no_lost_except c (wake_last q s)"
  using assms by (auto simp: no_lost_except_def wake_last_def Let_def split: if_splits)

definition wake_all :: "qaddr \<Rightarrow> 'z sched_scheme \<Rightarrow> 'z sched_scheme" where
  "wake_all q s = (let l = tq_list (queues s q); r = queues s Kt_runq in
     s\<lparr>queues := (queues s)(q := \<lparr>tq_list = [], tq_size = 0\<rparr>,
                           Kt_runq := \<lparr>tq_list = l @ tq_list r, tq_size = tq_size r + int (length l)\<rparr>),
       threads := (\<lambda>t. if t \<in> set l then map_option woken (threads s t) else threads s t)\<rparr>)"

lemma wake_all_wake_last:
  assumes inv: "queue_inv s" and ne: "tq_list (queues s q) \<noteq> []" and q: "q \<noteq> Kt_runq"
  shows "wake_all q (wake_last q s) = wake_all q s"
proof -
  let ?l = "tq_list (queues s q)"
  have "set (butlast ?l) = set ?l - {last ?l}" "last ?l \<in> set ?l"
    using inv ne by (simp_all add: set_butlast_distinct)
  moreover have "butlast ?l @ last ?l # xs = ?l @ xs" for xs
    using ne by (metis append.assoc append_Cons append_Nil append_butlast_last_id)
  moreover have "int (length (butlast ?l)) = int (length ?l) - 1" using ne
    by (simp add: of_nat_diff Suc_leI)
  ultimately show ?thesis using q
    by (auto simp: wake_all_def wake_last_def Let_def fun_eq_iff)
qed

lemma wake_all_empty:
  assumes "queue_inv s" and "tq_list (queues s q) = []" and "q \<noteq> Kt_runq"
  shows "wake_all q s = s"
proof -
  have "tq_size (queues s q) = 0" using queue_inv_size [OF assms(1), of q] assms(2) by simp
  then have "queues s q = \<lparr>tq_list = [], tq_size = 0\<rparr>" using assms(2) by (cases "queues s q") simp
  then have "(queues s)(q := \<lparr>tq_list = [], tq_size = 0\<rparr>) = queues s" by auto
  with assms show ?thesis by (auto simp: wake_all_def Let_def fun_eq_iff intro!: sched.equality)
qed

lemma sched_broadcast_loop_eq:
  assumes "queue_inv s" and "q \<noteq> Kt_runq" and "length (tq_list (queues s q)) \<le> n"
  shows "sched_broadcast_loop n q s = Some (wake_all q s)"
  using assms(1,3)
proof (induction n arbitrary: s)
  case 0
  then show ?case using assms(2) by (simp add: sched_queue_empty_def wake_all_empty)
next
  case (Suc n)
  show ?case
  proof (cases "tq_list (queues s q) = []")
    case True
    with Suc assms(2) show ?thesis by (simp add: sched_queue_empty_def wake_all_empty)
  next
    case False
    have "length (tq_list (queues (wake_last q s) q)) \<le> n"
      using Suc.prems(2) assms(2) by (simp add: wake_last_def Let_def)
    then have "sched_broadcast_loop n q (wake_last q s) = Some (wake_all q (wake_last q s))"
      using Suc queue_inv_wake_last [OF Suc.prems(1) False assms(2)] by blast
    moreover have "sched_broadcast_loop (Suc n) q s = sched_broadcast_loop n q (wake_last q s)"
      using False dequeue_make_runnable [OF Suc.prems(1) False assms(2), of "\<lambda>_. sched_broadcast_loop n q"]
      by (simp add: sched_queue_empty_def)
    ultimately show ?thesis using wake_all_wake_last [OF Suc.prems(1) False assms(2)] by simp
  qed
qed

lemma sched_broadcast_on_eq:
  assumes "queue_inv s" and "q \<noteq> Kt_runq"
  shows "sched_broadcast_on q s = Some (wake_all q s)"
  using assms by (simp add: sched_broadcast_on_def sched_broadcast_loop_eq)

lemma queue_inv_wake_all:
  assumes inv: "queue_inv s" and q: "q \<noteq> Kt_runq"
  shows "queue_inv (wake_all q s)"
proof -
  have "set (tq_list (queues s q)) \<inter> set (tq_list (queues s Kt_runq)) = {}"
    using q queue_inv_mem [OF inv] by auto
  with inv q show ?thesis
    by (auto simp: queue_inv_def wake_all_def Let_def split: if_splits)
qed

lemma sleep_inv_wake_all:
  assumes "sleep_inv s" shows "sleep_inv (wake_all q s)"
  using assms by (auto simp: sleep_inv_def wake_all_def Let_def split: if_splits)

lemma no_lost_wake_all:
  assumes "no_lost_except c s" shows "no_lost_except c (wake_all q s)"
  using assms by (auto simp: no_lost_except_def wake_all_def Let_def split: if_splits)

lemma no_lost_upds [simp]:
  "no_lost_except c (s\<lparr>ipl := i\<rparr>) = no_lost_except c s" "no_lost_except c (s\<lparr>intr_on := b\<rparr>) = no_lost_except c s"
  "no_lost_except c (s\<lparr>curthr := d\<rparr>) = no_lost_except c s" "no_lost_except c (s\<lparr>curproc := p\<rparr>) = no_lost_except c s"
  by (simp_all add: no_lost_except_def)

lemma sched_wf_upds [simp]:
  "sched_wf c (s\<lparr>ipl := i\<rparr>) = sched_wf c s" "sched_wf c (s\<lparr>intr_on := b\<rparr>) = sched_wf c s"
  "sched_wf c (s\<lparr>curthr := d\<rparr>) = sched_wf c s" "sched_wf c (s\<lparr>curproc := p\<rparr>) = sched_wf c s"
  by (simp_all add: sched_wf_def)

lemma sched_cancel_ok:
  assumes wf: "sched_wf c s" and th: "threads s t = Some th"
    and w: "kt_state th = KT_SLEEP_CANCELLABLE \<longrightarrow> kt_wchan th \<noteq> None"
  obtains s' where "sched_cancel t s = Some s'" and "sched_wf c s'"
    and "curthr s' = curthr s" "curproc s' = curproc s"
proof (cases "kt_state th = KT_SLEEP_CANCELLABLE")
  case False
  let ?s = "s\<lparr>threads := (threads s)(t \<mapsto> th\<lparr>kt_cancelled := True\<rparr>)\<rparr>"
  have "sched_cancel t s = Some ?s" using False th by (simp add: sched_cancel_def upd_thr_def)
  moreover have "sched_wf c ?s" using wf th
    by (auto simp: sched_wf_def queue_inv_def sleep_inv_def no_lost_except_def split: if_splits)
  ultimately show ?thesis using that [of ?s] by simp
next
  case True
  then obtain q where q: "kt_wchan th = Some q" using w by blast
  have mem: "t \<in> set (tq_list (queues s q))" using wf th q by (auto simp: sched_wf_def queue_inv_mem)
  define s1 where "s1 = s\<lparr>threads := (threads s)(t \<mapsto> th\<lparr>kt_cancelled := True\<rparr>)\<rparr>"
  have u: "upd_thr t (\<lambda>th. th\<lparr>kt_cancelled := True\<rparr>) s = Some s1" using th by (simp add: upd_thr_def s1_def)
  obtain s2 where s2: "ktqueue_remove q t s1 = Some s2" using th mem
    by (auto simp: ktqueue_remove_Some_iff s1_def)
  obtain s3 where s3: "ktqueue_enqueue Kt_runq t s2 = Some s3" using s2 th
    by (auto simp: ktqueue_remove_Some_iff ktqueue_enqueue_Some_iff s1_def)
  have "sched_cancel t s = Some s3" using True th q u s2 s3
    by (simp add: sched_cancel_def sched_make_runnable_eq)
  moreover have "queue_inv s3"
    using wf queue_inv_enqueue [OF queue_inv_remove [OF queue_inv_upd_thr [OF _ u] s2] s3]
    by (simp add: sched_wf_def)
  moreover have "sleep_inv s3" "no_lost_except c s3" using wf s2 s3 th True
    by (auto simp: sched_wf_def sleep_inv_def no_lost_except_def ktqueue_remove_Some_iff
          ktqueue_enqueue_Some_iff s1_def split: if_splits)
  moreover have "curthr s3 = curthr s" "curproc s3 = curproc s" using s2 s3
    by (auto simp: ktqueue_remove_Some_iff ktqueue_enqueue_Some_iff s1_def)
  ultimately show ?thesis using that [of s3] by (simp add: sched_wf_def)
qed

text \<open>
  What is asked of an interrupt handler (a driver, outside the repository): it leaves \<open>curthr\<close> and
  \<open>curproc\<close> alone, touches only threads that are on a queue, and moves them by the operations of this
  file, so that it keeps the queues well-formed. \<open>irq_ok_wake_all\<close> below is the instance of a handler
  that broadcasts on a wait queue.
\<close>

definition irq_ok :: "('z sched_scheme \<Rightarrow> 'z sched_scheme) \<Rightarrow> bool" where
  "irq_ok irq \<longleftrightarrow> (\<forall>s. curthr (irq s) = curthr s \<and> curproc (irq s) = curproc s \<and>
     (\<forall>t th. threads s t = Some th \<and> kt_wchan th = None \<and> queue_inv s \<longrightarrow> threads (irq s) t = Some th) \<and>
     (\<forall>c. sched_wf c s \<longrightarrow> sched_wf c (irq s)))"

lemma irq_ok_wake_all:
  assumes "q \<noteq> Kt_runq"
  shows "irq_ok (wake_all q)"
proof -
  have "threads (wake_all q s) t = Some th"
    if "threads s t = Some th" "kt_wchan th = None" "queue_inv s" for s :: "'a sched_scheme" and t th
    using that queue_inv_mem [OF that(3)] by (auto simp: wake_all_def Let_def)
  then show ?thesis using assms
    by (simp add: irq_ok_def sched_wf_def queue_inv_wake_all sleep_inv_wake_all no_lost_wake_all)
      (simp add: wake_all_def Let_def)
qed

lemma sched_ok_irq:
  assumes "irq_ok irq" and "sched_ok s"
  shows "sched_ok (irq s)"
proof -
  obtain c th where c: "curthr s = Some c" "threads s c = Some th" "kt_wchan th = None" "curproc s = kt_proc th"
    and inv: "queue_inv s" using assms(2) by (auto simp: sched_ok_def cur_inv_def sched_wf_def)
  then have "threads (irq s) c = Some th" "curthr (irq s) = curthr s" "curproc (irq s) = curproc s"
    using assms(1) unfolding irq_ok_def by blast+
  moreover have "sched_wf (curthr s) (irq s)" using assms by (simp add: sched_ok_def irq_ok_def)
  ultimately show ?thesis using c by (simp add: sched_ok_def cur_inv_def)
qed

lemma sched_switch_wait_ok:
  assumes "sched_switch_wait irqs s = Some s'" and "\<forall>irq\<in>set irqs. irq_ok irq" and "sched_wf c s"
  shows "sched_wf c s'" and "curthr s' = curthr s" and "tq_list (queues s' Kt_runq) \<noteq> []"
proof -
  have "sched_wf c s' \<and> curthr s' = curthr s \<and> tq_list (queues s' Kt_runq) \<noteq> []"
    using assms
  proof (induction irqs s rule: sched_switch_wait.induct)
    case (1 s)
    then show ?case by (auto simp: sched_queue_empty_def split: if_splits)
  next
    case (2 irq irqs s)
    have "sched_wf c (irq (s\<lparr>intr_on := False, ipl := IPL_LOW\<rparr>))"
      "curthr (irq (s\<lparr>intr_on := False, ipl := IPL_LOW\<rparr>)) = curthr s"
      using "2.prems" by (auto simp: irq_ok_def)
    with "2.prems" "2.IH" show ?case by (auto simp: sched_queue_empty_def split: if_splits)
  qed
  then show "sched_wf c s'" and "curthr s' = curthr s" and "tq_list (queues s' Kt_runq) \<noteq> []"
    by blast+
qed

lemma sched_switch_ok:
  assumes sw: "sched_switch irqs s = Some s'" and irqs: "\<forall>irq\<in>set irqs. irq_ok irq"
    and wf: "sched_wf None s"
  shows "sched_wf (curthr s') s' \<and> cur_inv s'"
proof -
  from sw obtain s1 where s1: "sched_switch_wait irqs (s\<lparr>ipl := IPL_HIGH\<rparr>) = Some s1"
    by (auto simp: sched_switch_def crash_simps)
  have wf1: "sched_wf None s1" and ne: "tq_list (queues s1 Kt_runq) \<noteq> []"
    using sched_switch_wait_ok [OF s1 irqs] wf by (simp_all del: sched_switch_wait.simps)
  then have inv1: "queue_inv s1" by (simp add: sched_wf_def)
  let ?t = "last (tq_list (queues s1 Kt_runq))"
  obtain th where th: "threads s1 ?t = Some th" "kt_wchan th = Some Kt_runq"
    and deq: "ktqueue_dequeue Kt_runq s1 = Some (Some ?t,
      s1\<lparr>queues := (queues s1)(Kt_runq := \<lparr>tq_list = butlast (tq_list (queues s1 Kt_runq)),
                                         tq_size = tq_size (queues s1 Kt_runq) - 1\<rparr>),
         threads := (threads s1)(?t \<mapsto> th\<lparr>kt_wchan := None\<rparr>)\<rparr>)"
    using ktqueue_dequeue_last [OF inv1 ne] by blast
  let ?s2 = "s1\<lparr>queues := (queues s1)(Kt_runq := \<lparr>tq_list = butlast (tq_list (queues s1 Kt_runq)),
                                         tq_size = tq_size (queues s1 Kt_runq) - 1\<rparr>),
         threads := (threads s1)(?t \<mapsto> th\<lparr>kt_wchan := None\<rparr>)\<rparr>"
  have s': "s' = ?s2\<lparr>curthr := Some ?t, curproc := kt_proc th\<rparr>"
    using sw s1 deq by (simp add: sched_switch_def)
  have "queue_inv ?s2" using queue_inv_dequeue [OF inv1 deq] .
  moreover have "kt_state th \<noteq> KT_SLEEP" using wf1 th sleep_inv_runq [of s1] by (simp add: sched_wf_def)
  then have "sleep_inv ?s2" using wf1 th by (auto simp: sched_wf_def sleep_inv_def)
  moreover have "no_lost_except (Some ?t) ?s2" using wf1 th
    by (auto simp: sched_wf_def no_lost_except_def)
  ultimately show ?thesis using s' th by (simp add: sched_wf_def cur_inv_def)
qed

text \<open>The part of the two sleeps before the switch: the caller is parked on the queue.\<close>

lemma block_ok:
  assumes wf: "sched_wf (Some c) s" and th: "threads s c = Some th" and w: "kt_wchan th = None"
    and q: "q \<noteq> Kt_runq" and st: "st \<in> {KT_SLEEP, KT_SLEEP_CANCELLABLE}"
  obtains s' where "upd_thr c (\<lambda>th. th\<lparr>kt_state := st\<rparr>) s \<bind> ktqueue_enqueue q c = Some s'"
    and "sched_wf None s'"
proof -
  define s1 where "s1 = s\<lparr>threads := (threads s)(c \<mapsto> th\<lparr>kt_state := st\<rparr>)\<rparr>"
  have u: "upd_thr c (\<lambda>th. th\<lparr>kt_state := st\<rparr>) s = Some s1" using th by (simp add: upd_thr_def s1_def)
  obtain s2 where s2: "ktqueue_enqueue q c s1 = Some s2" using w by (auto simp: ktqueue_enqueue_Some_iff s1_def)
  have "queue_inv s2" using wf queue_inv_enqueue [OF queue_inv_upd_thr [OF _ u] s2]
    by (simp add: sched_wf_def)
  moreover have "sleep_inv s2" "no_lost_except None s2" using wf s2 th w q st
    by (auto simp: sched_wf_def sleep_inv_def no_lost_except_def ktqueue_enqueue_Some_iff s1_def split: if_splits)
  ultimately show ?thesis using u s2 by (intro that) (simp_all add: sched_wf_def)
qed




interpretation ktq: fifo_queue "ktqueue_enqueue q" "ktqueue_dequeue q"
  "\<lambda>s. rev (tq_list (queues s q))" queue_inv "\<lambda>t s. \<exists>th. threads s t = Some th \<and> kt_wchan th = None" for q
proof (unfold_locales, goal_cases)
  case (1 s x)
  then obtain s' where s': "ktqueue_enqueue q x s = Some s'" by (auto simp: ktqueue_enqueue_Some_iff)
  with 1 queue_inv_enqueue [OF 1(1) s'] show ?case by (auto simp: ktqueue_enqueue_Some_iff)
next
  case (2 s)
  then show ?case by simp
next
  case (3 s x xs)
  have l: "tq_list (queues s q) = rev xs @ [x]" using 3(2) by (simp add: rev_swap)
  then have "tq_list (queues s q) \<noteq> []" by simp
  then obtain th where "ktqueue_dequeue q s = Some (Some x,
      s\<lparr>queues := (queues s)(q := \<lparr>tq_list = rev xs, tq_size = tq_size (queues s q) - 1\<rparr>),
        threads := (threads s)(x \<mapsto> th\<lparr>kt_wchan := None\<rparr>)\<rparr>)"
    using ktqueue_dequeue_last [OF 3(1)] l by (metis butlast_snoc last_snoc)
  then show ?case using queue_inv_dequeue [OF 3(1)] by auto
qed

lemma sched_sleep_on_ok:
  assumes ok: "sched_ok s" and q: "q \<noteq> Kt_runq" and irqs: "\<forall>irq\<in>set irqs. irq_ok irq"
    and sl: "sched_sleep_on irqs q s = Some s'"
  shows "sched_ok s'"
proof -
  obtain c th where c: "curthr s = Some c" "threads s c = Some th" "kt_wchan th = None"
    using ok by (auto simp: sched_ok_def cur_inv_def)
  obtain s1 where s1: "upd_thr c (\<lambda>th. th\<lparr>kt_state := KT_SLEEP\<rparr>) s \<bind> ktqueue_enqueue q c = Some s1"
    and wf1: "sched_wf None s1"
    using block_ok [of c s th q KT_SLEEP] ok c q by (auto simp: sched_ok_def)
  have "sched_switch irqs s1 = Some s'" using sl s1 c(1)
    by (auto simp: sched_sleep_on_def crash_simps)
  from sched_switch_ok [OF this irqs wf1] show ?thesis by (simp add: sched_ok_def)
qed

lemma sched_cancellable_sleep_on_ok:
  assumes ok: "sched_ok s" and q: "q \<noteq> Kt_runq" and irqs: "\<forall>irq\<in>set irqs. irq_ok irq"
    and sl: "sched_cancellable_sleep_on E irqs q s = Some (r, s')"
  shows "sched_ok s'"
proof -
  obtain c th where c: "curthr s = Some c" "threads s c = Some th" "kt_wchan th = None"
    using ok by (auto simp: sched_ok_def cur_inv_def)
  obtain s1 where s1: "upd_thr c (\<lambda>th. th\<lparr>kt_state := KT_SLEEP_CANCELLABLE\<rparr>) s \<bind> ktqueue_enqueue q c = Some s1"
    and wf1: "sched_wf None s1"
    using block_ok [of c s th q KT_SLEEP_CANCELLABLE] ok c q by (auto simp: sched_ok_def)
  show ?thesis
  proof (cases "kt_cancelled th")
    case True
    then show ?thesis using sl c ok by (auto simp: sched_cancellable_sleep_on_def)
  next
    case False
    then have "sched_switch irqs s1 = Some s'" using sl s1 c
      by (auto simp: sched_cancellable_sleep_on_def crash_simps)
    from sched_switch_ok [OF this irqs wf1] show ?thesis by (simp add: sched_ok_def)
  qed
qed

lemma cur_inv_wake:
  assumes "cur_inv s" and "queue_inv s"
  shows "cur_inv (wake_all q s)" and "tq_list (queues s q) \<noteq> [] \<Longrightarrow> cur_inv (wake_last q s)"
proof -
  obtain c th where c: "curthr s = Some c" "threads s c = Some th" "kt_wchan th = None" "curproc s = kt_proc th"
    using assms(1) by (auto simp: cur_inv_def)
  then have n: "c \<notin> set (tq_list (queues s q))" using queue_inv_mem [OF assms(2)] by auto
  with c show "cur_inv (wake_all q s)" by (auto simp: cur_inv_def wake_all_def Let_def)
  show "cur_inv (wake_last q s)" if "tq_list (queues s q) \<noteq> []"
    using c n that by (auto simp: cur_inv_def wake_last_def Let_def)
qed

lemma sched_broadcast_on_ok:
  assumes ok: "sched_ok s" and q: "q \<noteq> Kt_runq"
  shows "sched_broadcast_on q s = Some (wake_all q s) \<and> sched_ok (wake_all q s)"
proof -
  have "curthr (wake_all q s) = curthr s" by (simp add: wake_all_def Let_def)
  then show ?thesis using ok q sched_broadcast_on_eq [of s q]
    by (simp add: sched_ok_def sched_wf_def queue_inv_wake_all sleep_inv_wake_all no_lost_wake_all cur_inv_wake)
qed

lemma sched_ok_wake_last:
  assumes ok: "sched_ok s" and q: "q \<noteq> Kt_runq" and ne: "tq_list (queues s q) \<noteq> []"
  shows "sched_ok (wake_last q s)"
proof -
  have "curthr (wake_last q s) = curthr s" by (simp add: wake_last_def Let_def)
  then show ?thesis using ok q ne
    by (simp add: sched_ok_def sched_wf_def queue_inv_wake_last sleep_inv_wake_last no_lost_wake_last cur_inv_wake)
qed

lemma sched_wakeup_on_ok:
  assumes ok: "sched_ok s" and q: "q \<noteq> Kt_runq"
  obtains r s' where "sched_wakeup_on q s = Some (r, s')" and "sched_ok s'"
proof (cases "tq_list (queues s q) = []")
  case True
  then show ?thesis using ok that [of None s] by (simp add: sched_wakeup_on_def sched_queue_empty_def)
next
  case False
  then show ?thesis using that sched_wakeup_on_eq [of s q] sched_ok_wake_last [OF ok q False] ok q
    by (simp add: sched_ok_def sched_wf_def)
qed

text \<open>The \<open>SYS_thr_yield\<close> case of \<open>syscall_dispatch\<close>.\<close>

definition sys_thr_yield :: "('z sched_scheme \<Rightarrow> 'z sched_scheme) list \<Rightarrow> 'z sched_scheme \<Rightarrow> 'z sched_scheme option" where
  "sys_thr_yield irqs s = do {
     thr \<leftarrow> curthr s;
     s \<leftarrow> sched_make_runnable thr s;
     sched_switch irqs s }"

lemma make_runnable_cur_wf:
  assumes ok: "sched_ok s" and c: "curthr s = Some c" and s1: "ktqueue_enqueue Kt_runq c s = Some s1"
  shows "sched_wf None s1"
proof -
  obtain th where th: "threads s c = Some th" "kt_wchan th = None"
    using s1 by (auto simp: ktqueue_enqueue_Some_iff)
  have "queue_inv s1" using queue_inv_enqueue [OF _ s1] ok by (simp add: sched_ok_def sched_wf_def)
  moreover have "kt_state th \<noteq> KT_SLEEP" using ok th sleep_inv_runq [of s c th] by (simp add: sched_ok_def sched_wf_def)
  then have "sleep_inv s1" "no_lost_except None s1" using s1 th c ok
    by (auto simp: sched_ok_def sched_wf_def sleep_inv_def no_lost_except_def ktqueue_enqueue_Some_iff split: if_splits)
  ultimately show ?thesis by (simp add: sched_wf_def)
qed

lemma sys_thr_yield_ok:
  assumes ok: "sched_ok s" and irqs: "\<forall>irq\<in>set irqs. irq_ok irq" and y: "sys_thr_yield irqs s = Some s'"
  shows "sched_ok s'"
proof -
  obtain c th where c: "curthr s = Some c" "threads s c = Some th" "kt_wchan th = None"
    using ok by (auto simp: sched_ok_def cur_inv_def)
  obtain s1 where s1: "ktqueue_enqueue Kt_runq c s = Some s1" using c by (auto simp: ktqueue_enqueue_Some_iff)
  have "sched_switch irqs s1 = Some s'" using y c s1
    by (simp add: sys_thr_yield_def sched_make_runnable_eq)
  then show ?thesis using sched_switch_ok [OF _ irqs make_runnable_cur_wf [OF ok c(1) s1]] by (simp add: sched_ok_def)
qed


lemma sched_cancel_sched_ok:
  assumes ok: "sched_ok s" and t: "curthr s \<noteq> Some t" and cn: "sched_cancel t s = Some s'"
  shows "sched_ok s' \<and> curthr s' = curthr s"
proof -
  obtain th where th: "threads s t = Some th" using cn by (auto simp: sched_cancel_def crash_simps)
  have "kt_state th = KT_SLEEP_CANCELLABLE \<longrightarrow> kt_wchan th \<noteq> None"
    using cn th by (auto simp: sched_cancel_def crash_simps)
  then have "sched_wf (curthr s) s'" "curthr s' = curthr s" "curproc s' = curproc s"
    using sched_cancel_ok [of "curthr s" s t th] ok th cn by (auto simp: sched_ok_def)
  moreover have "threads s' x = threads s x" if "x \<noteq> t" for x
    using cn th that
    by (auto simp: sched_cancel_def crash_simps upd_thr_Some_iff ktqueue_remove_Some_iff
          sched_make_runnable_eq ktqueue_enqueue_Some_iff split: if_splits)
  ultimately show ?thesis using ok t by (auto simp: sched_ok_def cur_inv_def)
qed

subsection \<open>Behaviour of the queues and of cancellation\<close>

text \<open>A state for the examples: thread 1 runs, 2 and then 3 went to sleep on a wait queue.\<close>

definition three_threads :: sched where
  "three_threads = \<lparr>
     threads = [1 \<mapsto> \<lparr>kt_state = KT_RUN, kt_wchan = None, kt_cancelled = False, kt_retval = 0, kt_errno = 0,
                      kt_proc = Some 10, kt_kstack = Some 0\<rparr>,
                2 \<mapsto> \<lparr>kt_state = KT_SLEEP, kt_wchan = Some (P_wait 10), kt_cancelled = False, kt_retval = 0,
                      kt_errno = 0, kt_proc = Some 20, kt_kstack = Some 0\<rparr>,
                3 \<mapsto> \<lparr>kt_state = KT_SLEEP_CANCELLABLE, kt_wchan = Some (P_wait 10), kt_cancelled = False,
                      kt_retval = 0, kt_errno = 0, kt_proc = Some 30, kt_kstack = Some 0\<rparr>],
     queues = (\<lambda>_. \<lparr>tq_list = [], tq_size = 0\<rparr>)(P_wait 10 := \<lparr>tq_list = [3, 2], tq_size = 2\<rparr>),
     curthr = Some 1, curproc = Some 10, ipl = IPL_LOW, intr_on = True\<rparr>"

lemma three_threads_ok: "sched_ok three_threads"
  by (auto simp: three_threads_def sched_ok_def sched_wf_def queue_inv_def sleep_inv_def
      no_lost_except_def cur_inv_def split: if_splits)

text \<open>
  C25: a thread queue is first in, first out. Threads that are on no queue and are put on queue \<open>q\<close>
  one after the other with \<open>ktqueue_enqueue\<close> come out of \<open>ktqueue_dequeue\<close> in the order they were
  put there, behind the threads that waited already (the list holds the oldest last), and the queue
  is empty afterwards.
\<close>

theorem ktqueue_fifo:
  assumes "queue_inv s" and "distinct ts"
    and "\<forall>t\<in>set ts. \<exists>th. threads s t = Some th \<and> kt_wchan th = None"
    and "n = length (tq_list (queues s q)) + length ts"
  shows "\<exists>s1 s2. enq_list (ktqueue_enqueue q) ts s = Some s1 \<and>
           deq_list (ktqueue_dequeue q) n s1 = Some (map Some (rev (tq_list (queues s q)) @ ts), s2) \<and>
           tq_list (queues s2 q) = []"
  using ktq.fifo_order [OF assms(1-3), of n] assms(4) by simp

theorem ktqueue_fifo_witness:
  "\<exists>s1 s2. enq_list (ktqueue_enqueue (P_wait 10)) [1] three_threads = Some s1 \<and>
     deq_list (ktqueue_dequeue (P_wait 10)) 3 s1 = Some ([Some 2, Some 3, Some 1], s2)"
proof -
  have inv: "queue_inv three_threads" using three_threads_ok by (simp add: sched_ok_def sched_wf_def)
  have q: "tq_list (queues three_threads (P_wait 10)) = [3, 2]" by (simp add: three_threads_def)
  have "\<forall>t\<in>set [1]. \<exists>th. threads three_threads t = Some th \<and> kt_wchan th = None"
    by (simp add: three_threads_def)
  from ktqueue_fifo [OF inv _ this, of 3 "P_wait 10"] show ?thesis unfolding q by auto
qed

text \<open>
  C26: \<open>sched_broadcast_on\<close> always returns on a well-formed scheduler. It leaves the queue empty, has
  put every thread of it on the run queue in the order of their sleep and behind those that were
  runnable, each in state \<open>KT_RUN\<close>, and touches no other thread and no other queue.
\<close>

theorem sched_broadcast_wakes_all:
  assumes "sched_ok s" and "q \<noteq> Kt_runq"
  shows "\<exists>s'. sched_broadcast_on q s = Some s' \<and> sched_ok s' \<and> sched_queue_empty q s' \<and>
     tq_list (queues s' Kt_runq) = tq_list (queues s q) @ tq_list (queues s Kt_runq) \<and>
     (\<forall>q'. q' \<noteq> q \<and> q' \<noteq> Kt_runq \<longrightarrow> queues s' q' = queues s q') \<and>
     (\<forall>t. t \<in> set (tq_list (queues s q)) \<longrightarrow> map_option kt_state (threads s' t) = Some KT_RUN) \<and>
     (\<forall>t. t \<notin> set (tq_list (queues s q)) \<longrightarrow> threads s' t = threads s t)"
proof -
  have "\<exists>th. threads s t = Some th" if "t \<in> set (tq_list (queues s q))" for t
    using that assms(1) queue_inv_mem [of s t q] by (auto simp: sched_ok_def sched_wf_def)
  then show ?thesis using sched_broadcast_on_ok [OF assms] assms(2)
    by (fastforce simp: wake_all_def Let_def sched_queue_empty_def)
qed

theorem sched_broadcast_wakes_all_witness:
  "\<exists>s'. sched_broadcast_on (P_wait 10) three_threads = Some s' \<and> tq_list (queues s' Kt_runq) = [3, 2]"
  using sched_broadcast_wakes_all [OF three_threads_ok, of "P_wait 10"] by (auto simp: three_threads_def)

text \<open>
  C27: \<open>sched_cancel\<close> on a thread that waits marks it cancelled; a thread in a cancellable sleep moves
  from its wait queue to the run queue, any other thread stays where it was. The state of the thread
  is not written: the woken thread runs with \<open>kt_state = KT_SLEEP_CANCELLABLE\<close>.
\<close>

theorem sched_cancel_behaviour:
  assumes ok: "sched_ok s" and t: "curthr s \<noteq> Some t" and th: "threads s t = Some th" and q: "kt_wchan th = Some q"
  shows "\<exists>s' th'. sched_cancel t s = Some s' \<and> sched_ok s' \<and> threads s' t = Some th' \<and> kt_cancelled th' \<and>
     kt_state th' = kt_state th \<and>
     (if kt_state th = KT_SLEEP_CANCELLABLE
      then kt_wchan th' = Some Kt_runq \<and> t \<in> set (tq_list (queues s' Kt_runq))
      else kt_wchan th' = Some q \<and> queues s' = queues s)"
proof -
  have "kt_state th = KT_SLEEP_CANCELLABLE \<longrightarrow> kt_wchan th \<noteq> None" using q by simp
  then obtain s' where s': "sched_cancel t s = Some s'"
    using sched_cancel_ok [of "curthr s" s t th] ok th by (auto simp: sched_ok_def)
  have ok': "sched_ok s'" using sched_cancel_sched_ok [OF ok t s'] by simp
  show ?thesis
  proof (cases "kt_state th = KT_SLEEP_CANCELLABLE")
    case True
    then have "threads s' t = Some (th\<lparr>kt_cancelled := True, kt_wchan := Some Kt_runq\<rparr>)"
      "t \<in> set (tq_list (queues s' Kt_runq))"
      using s' th q by (auto simp: sched_cancel_def crash_simps upd_thr_Some_iff ktqueue_remove_Some_iff
          sched_make_runnable_eq ktqueue_enqueue_Some_iff)
    then show ?thesis using s' ok' True by simp
  next
    case False
    then have "threads s' t = Some (th\<lparr>kt_cancelled := True\<rparr>)" "queues s' = queues s"
      using s' th by (auto simp: sched_cancel_def upd_thr_Some_iff)
    then show ?thesis using s' ok' False q by simp
  qed
qed

theorem sched_cancel_behaviour_witness:
  "\<exists>s'. sched_cancel 3 three_threads = Some s' \<and> 3 \<in> set (tq_list (queues s' Kt_runq))"
proof -
  have th: "threads three_threads 3 = Some (the (threads three_threads 3))"
    "kt_wchan (the (threads three_threads 3)) = Some (P_wait 10)"
    "kt_state (the (threads three_threads 3)) = KT_SLEEP_CANCELLABLE" "curthr three_threads \<noteq> Some 3"
    by (simp_all add: three_threads_def)
  show ?thesis using sched_cancel_behaviour [OF three_threads_ok th(4,1,2)] unfolding th(3) by auto
qed

subsection \<open>When \<open>sched_switch\<close> returns\<close>

text \<open>The state the wait loop of \<open>sched_switch\<close> is in after the given interrupts.\<close>

fun after_irqs :: "('z sched_scheme \<Rightarrow> 'z sched_scheme) list \<Rightarrow> 'z sched_scheme \<Rightarrow> 'z sched_scheme" where
  "after_irqs [] s = s"
| "after_irqs (irq # irqs) s = after_irqs irqs ((irq (s\<lparr>intr_on := False, ipl := IPL_LOW\<rparr>))\<lparr>ipl := IPL_HIGH\<rparr>)"

lemma sched_switch_wait_now: "\<not> sched_queue_empty Kt_runq s \<Longrightarrow> sched_switch_wait irqs s = Some s"
  by (cases irqs) simp_all

lemma sched_switch_wait_first:
  "(\<forall>j<length pre. sched_queue_empty Kt_runq (after_irqs (take j pre) s)) \<Longrightarrow>
   \<not> sched_queue_empty Kt_runq (after_irqs pre s) \<Longrightarrow>
   sched_switch_wait (pre @ post) s = Some (after_irqs pre s)"
proof (induction pre arbitrary: s)
  case Nil
  then show ?case by (simp add: sched_switch_wait_now)
next
  case (Cons irq pre)
  let ?s = "(irq (s\<lparr>intr_on := False, ipl := IPL_LOW\<rparr>))\<lparr>ipl := IPL_HIGH\<rparr>"
  have "sched_queue_empty Kt_runq (after_irqs (take j pre) ?s)" if "j < length pre" for j
    using Cons.prems(1) that by (metis Suc_less_eq after_irqs.simps(2) length_Cons take_Suc_Cons)
  moreover have "sched_queue_empty Kt_runq s" using Cons.prems(1) by force
  ultimately show ?case using Cons.IH [of ?s] Cons.prems(2) by simp
qed

lemma sched_switch_wait_never:
  "(\<forall>j\<le>length irqs. sched_queue_empty Kt_runq (after_irqs (take j irqs) s)) \<Longrightarrow> sched_switch_wait irqs s = None"
proof (induction irqs arbitrary: s)
  case Nil
  then show ?case by simp
next
  case (Cons irq irqs)
  let ?s = "(irq (s\<lparr>intr_on := False, ipl := IPL_LOW\<rparr>))\<lparr>ipl := IPL_HIGH\<rparr>"
  have "sched_queue_empty Kt_runq (after_irqs (take j irqs) ?s)" if "j \<le> length irqs" for j
    using Cons.prems(1) that by (metis Suc_le_mono after_irqs.simps(2) length_Cons take_Suc_Cons)
  moreover have "sched_queue_empty Kt_runq s" using Cons.prems(1) by force
  ultimately show ?case using Cons.IH [of ?s] by simp
qed

text \<open>
  C21: \<open>sched_switch\<close> switches as soon as some interrupt has made the run queue non-empty (at once if
  it is not empty), to the thread that has been runnable for longest, which leaves the run queue;
  \<open>curproc\<close> becomes the process of that thread.
\<close>

theorem sched_switch_picks_oldest:
  assumes "\<forall>j<length pre. sched_queue_empty Kt_runq (after_irqs (take j pre) (s\<lparr>ipl := IPL_HIGH\<rparr>))"
    and "s1 = after_irqs pre (s\<lparr>ipl := IPL_HIGH\<rparr>)"
    and "tq_list (queues s1 Kt_runq) = ts @ [t]" and "queue_inv s1"
  shows "\<exists>s' th. sched_switch (pre @ post) s = Some s' \<and> threads s1 t = Some th \<and>
      curthr s' = Some t \<and> curproc s' = kt_proc th \<and> threads s' = (threads s1)(t \<mapsto> th\<lparr>kt_wchan := None\<rparr>) \<and>
      tq_list (queues s' Kt_runq) = ts \<and> queue_inv s'"
proof -
  have ne: "tq_list (queues s1 Kt_runq) \<noteq> []" "last (tq_list (queues s1 Kt_runq)) = t"
     "butlast (tq_list (queues s1 Kt_runq)) = ts" using assms(3) by simp_all
  define s2 where "s2 th = s1\<lparr>queues := (queues s1)(Kt_runq := \<lparr>tq_list = ts, tq_size = tq_size (queues s1 Kt_runq) - 1\<rparr>),
        threads := (threads s1)(t \<mapsto> th\<lparr>kt_wchan := None\<rparr>)\<rparr>" for th
  obtain th where th: "threads s1 t = Some th" and deq: "ktqueue_dequeue Kt_runq s1 = Some (Some t, s2 th)"
    using ktqueue_dequeue_last [OF assms(4) ne(1)] unfolding ne(2,3) s2_def by blast
  note [simp del] = sched_switch_wait.simps
  have "sched_switch_wait (pre @ post) (s\<lparr>ipl := IPL_HIGH\<rparr>) = Some s1"
    using sched_switch_wait_first [OF assms(1), of post] ne(1) assms(2) by (simp add: sched_queue_empty_def)
  then have "sched_switch (pre @ post) s = Some (s2 th\<lparr>curthr := Some t, curproc := kt_proc th\<rparr>)"
    using deq th by (simp add: sched_switch_def s2_def)
  then show ?thesis using th queue_inv_dequeue [OF assms(4) deq] by (simp add: s2_def)
qed

theorem sched_switch_picks_oldest_witness:
  "\<exists>s'. sched_switch [wake_all (P_wait 10)] three_threads = Some s' \<and> curthr s' = Some 2 \<and>
     curproc s' = Some 20 \<and> tq_list (queues s' Kt_runq) = [3]"
proof -
  let ?s1 = "after_irqs [wake_all (P_wait 10)] (three_threads\<lparr>ipl := IPL_HIGH\<rparr>)"
  have 1: "\<forall>j<length [wake_all (P_wait 10)].
      sched_queue_empty Kt_runq (after_irqs (take j [wake_all (P_wait 10)]) (three_threads\<lparr>ipl := IPL_HIGH\<rparr>))"
    by (simp add: sched_queue_empty_def three_threads_def)
  have 2: "tq_list (queues ?s1 Kt_runq) = [3] @ [2]" "map_option kt_proc (threads ?s1 2) = Some (Some 20)"
    by (simp_all add: wake_all_def three_threads_def woken_def Let_def)
  have 3: "queue_inv ?s1" using three_threads_ok by (simp add: queue_inv_wake_all sched_ok_def sched_wf_def)
  show ?thesis using sched_switch_picks_oldest [OF 1 refl 2(1) 3, of "[]"] 2(2) by auto
qed



end
