(* ===== verification/Kmutex.thy ===== *)
theory Kmutex
  imports Sched
begin

text \<open>
  The kernel mutex (\<open>kernel/proc/kmutex.c\<close>). A mutex is its \<open>km_holder\<close>; its wait queue is the
  queue \<^const>\<open>Km_waitq\<close> of the scheduler state.
\<close>

record kmutex =
  km_holder :: "tid option"

record ksync = sched +
  mutexes :: "maddr \<Rightarrow> kmutex"

definition kmutex_init :: "maddr \<Rightarrow> 'z ksync_scheme \<Rightarrow> 'z ksync_scheme" where
  "kmutex_init m s =
     s\<lparr>mutexes := (mutexes s)(m := \<lparr>km_holder = None\<rparr>),
       queues := (queues s)(Km_waitq m := \<lparr>tq_list = [], tq_size = 0\<rparr>)\<rparr>"

definition kmutex_lock ::
  "('z ksync_scheme \<Rightarrow> 'z ksync_scheme) list \<Rightarrow> maddr \<Rightarrow> 'z ksync_scheme \<Rightarrow> 'z ksync_scheme option" where
  "kmutex_lock irqs m s = do {
     KASSERT (curthr s \<noteq> None \<and> curthr s \<noteq> km_holder (mutexes s m));
     if km_holder (mutexes s m) = None
     then Some (s\<lparr>mutexes := (mutexes s)(m := \<lparr>km_holder = curthr s\<rparr>)\<rparr>)
     else sched_sleep_on irqs (Km_waitq m) s }"

text \<open>
  As with the sleep it ends in, \<open>Inl r\<close> is a return at once and \<open>Inr ()\<close> a sleep; the call of a
  sleeper returns \<open>kmutex_lock_cancellable_resume\<close> once it runs again.
\<close>

definition kmutex_lock_cancellable ::
  "errnos \<Rightarrow> ('z ksync_scheme \<Rightarrow> 'z ksync_scheme) list \<Rightarrow> maddr \<Rightarrow> 'z ksync_scheme
    \<Rightarrow> ((int + unit) \<times> 'z ksync_scheme) option" where
  "kmutex_lock_cancellable E irqs m s = do {
     KASSERT (curthr s \<noteq> None \<and> curthr s \<noteq> km_holder (mutexes s m));
     if km_holder (mutexes s m) = None
     then Some (Inl 0, s\<lparr>mutexes := (mutexes s)(m := \<lparr>km_holder = curthr s\<rparr>)\<rparr>)
     else sched_cancellable_sleep_on E irqs (Km_waitq m) s }"

definition kmutex_lock_cancellable_resume :: "errnos \<Rightarrow> 'z ksync_scheme \<Rightarrow> int option" where
  "kmutex_lock_cancellable_resume E s = sched_cancellable_resume E s"

definition kmutex_unlock :: "maddr \<Rightarrow> 'z ksync_scheme \<Rightarrow> 'z ksync_scheme option" where
  "kmutex_unlock m s = do {
     KASSERT (curthr s \<noteq> None \<and> curthr s = km_holder (mutexes s m));
     let s = s\<lparr>mutexes := (mutexes s)(m := \<lparr>km_holder = None\<rparr>)\<rparr>;
     s \<leftarrow> (if \<not> sched_queue_empty (Km_waitq m) s
           then do {
             (r, s) \<leftarrow> sched_wakeup_on (Km_waitq m) s;
             Some (s\<lparr>mutexes := (mutexes s)(m := \<lparr>km_holder = r\<rparr>)\<rparr>) }
           else Some s);
     KASSERT (curthr s \<noteq> km_holder (mutexes s m));
     Some s }"



subsection \<open>What unlocking does\<close>

lemma kmutex_unlock_no_waiter:
  assumes "curthr s = Some c" and "km_holder (mutexes s m) = Some c" and "tq_list (queues s (Km_waitq m)) = []"
  shows "kmutex_unlock m s = Some (s\<lparr>mutexes := (mutexes s)(m := \<lparr>km_holder = None\<rparr>)\<rparr>)"
  using assms by (simp add: kmutex_unlock_def sched_queue_empty_def)

text \<open>The scheduler's invariants do not look at the mutexes.\<close>

lemma queue_inv_mutexes [simp]: "queue_inv (s\<lparr>mutexes := x\<rparr>) = queue_inv s"
  by (simp add: queue_inv_def)
lemma sleep_inv_mutexes [simp]: "sleep_inv (s\<lparr>mutexes := x\<rparr>) = sleep_inv s"
  by (simp add: sleep_inv_def)
lemma no_lost_mutexes [simp]: "no_lost_except c (s\<lparr>mutexes := x\<rparr>) = no_lost_except c s"
  by (simp add: no_lost_except_def)
lemma sched_ok_mutexes [simp]: "sched_ok (s\<lparr>mutexes := x\<rparr>) = sched_ok s"
  by (simp add: sched_ok_def sched_wf_def cur_inv_def)

lemma kmutex_unlock_handover:
  assumes ok: "sched_ok s" and c: "curthr s = Some c" "km_holder (mutexes s m) = Some c"
    and ne: "tq_list (queues s (Km_waitq m)) \<noteq> []"
  shows "kmutex_unlock m s =
     Some ((wake_last (Km_waitq m) s)
             \<lparr>mutexes := (mutexes s)(m := \<lparr>km_holder = Some (last (tq_list (queues s (Km_waitq m))))\<rparr>)\<rparr>)"
proof -
  let ?t = "last (tq_list (queues s (Km_waitq m)))"
  let ?s = "s\<lparr>mutexes := (mutexes s)(m := \<lparr>km_holder = None\<rparr>)\<rparr>"
  have inv: "queue_inv s" "sleep_inv s" using ok by (auto simp: sched_ok_def sched_wf_def)
  then have w: "sched_wakeup_on (Km_waitq m) ?s = Some (Some ?t, wake_last (Km_waitq m) ?s)"
    using ne sched_wakeup_on_eq [of ?s "Km_waitq m"] by simp
  have "c \<notin> set (tq_list (queues s (Km_waitq m)))"
    using ok c queue_inv_mem [OF inv(1)] by (auto simp: sched_ok_def cur_inv_def)
  then have "c \<noteq> ?t" using ne by auto
  with w c ne show ?thesis
    by (simp add: kmutex_unlock_def sched_queue_empty_def wake_last_def Let_def)
qed

subsection \<open>Threads that use mutexes\<close>

text \<open>
  A system of threads that lock and unlock: to the kernel state are added, for the statement of the
  properties only, the mutexes whose \<open>kmutex_lock\<close> has returned to a thread (\<open>held\<close>) and the mutex a
  thread is inside \<open>kmutex_lock\<close> for (\<open>want\<close>). \<open>resume\<close> is the return of \<open>kmutex_lock\<close> to the thread
  that now runs.
\<close>

record mclients = ksync +
  held :: "tid \<Rightarrow> maddr set"
  want :: "tid \<Rightarrow> maddr option"

definition resume :: "mclients \<Rightarrow> mclients" where
  "resume s = (case curthr s of None \<Rightarrow> s | Some c \<Rightarrow>
     (case want s c of None \<Rightarrow> s
      | Some m \<Rightarrow> s\<lparr>want := (want s)(c := None), held := (held s)(c := insert m (held s c))\<rparr>))"

text \<open>
  Mutexes are never used from interrupt context (the note at the head of \<open>kmutex.c\<close>): a handler
  leaves them, their queues and the threads on them alone, and takes nothing off the run queue.
\<close>

definition irq_wakes :: "(mclients \<Rightarrow> mclients) \<Rightarrow> bool" where
  "irq_wakes irq \<longleftrightarrow> irq_ok irq \<and> (\<forall>s. mutexes (irq s) = mutexes s \<and> held (irq s) = held s \<and> want (irq s) = want s
     \<and> (\<forall>m. queues (irq s) (Km_waitq m) = queues s (Km_waitq m))
     \<and> (\<forall>m. \<forall>t\<in>set (tq_list (queues s (Km_waitq m))). threads (irq s) t = threads s t)
     \<and> set (tq_list (queues s Kt_runq)) \<subseteq> set (tq_list (queues (irq s) Kt_runq)))"

abbreviation waiters :: "maddr \<Rightarrow> 'z sched_scheme \<Rightarrow> tid list" where
  "waiters m s \<equiv> tq_list (queues s (Km_waitq m))"

text \<open>
  The invariant that ties the two views together: who holds a mutex in its own view is its
  \<open>km_holder\<close>; a thread inside \<open>kmutex_lock\<close> is asleep on the mutex's queue, or has been made the
  holder and is on its way back; and a mutex with waiters has a holder.
\<close>

definition mutex_wf :: "mclients \<Rightarrow> bool" where
  "mutex_wf s \<longleftrightarrow>
     (\<forall>t m. m \<in> held s t \<longrightarrow> km_holder (mutexes s m) = Some t) \<and>
     (\<forall>t m. km_holder (mutexes s m) = Some t \<longrightarrow> m \<in> held s t \<or> want s t = Some m) \<and>
     (\<forall>t m. want s t = Some m \<longrightarrow> t \<in> set (waiters m s) \<or>
         km_holder (mutexes s m) = Some t \<and> (t \<in> set (tq_list (queues s Kt_runq)) \<or> curthr s = Some t)) \<and>
     (\<forall>t m. t \<in> set (waiters m s) \<longrightarrow> want s t = Some m \<and> map_option kt_state (threads s t) = Some KT_SLEEP
         \<and> km_holder (mutexes s m) \<noteq> Some t) \<and>
     (\<forall>m. waiters m s \<noteq> [] \<longrightarrow> km_holder (mutexes s m) \<noteq> None)"

lemma mutex_wfD:
  assumes "mutex_wf s"
  shows "m \<in> held s t \<Longrightarrow> km_holder (mutexes s m) = Some t"
    and "km_holder (mutexes s m) = Some t \<Longrightarrow> m \<notin> held s t \<Longrightarrow> want s t = Some m"
    and "want s t = Some m \<Longrightarrow> t \<notin> set (waiters m s) \<Longrightarrow> km_holder (mutexes s m) = Some t"
    and "want s t = Some m \<Longrightarrow> t \<notin> set (waiters m s) \<Longrightarrow>
      t \<in> set (tq_list (queues s Kt_runq)) \<or> curthr s = Some t"
    and "t \<in> set (waiters m s) \<Longrightarrow> want s t = Some m"
    and "t \<in> set (waiters m s) \<Longrightarrow> map_option kt_state (threads s t) = Some KT_SLEEP"
    and "waiters m s \<noteq> [] \<Longrightarrow> km_holder (mutexes s m) \<noteq> None"
    and "t \<in> set (waiters m s) \<Longrightarrow> km_holder (mutexes s m) \<noteq> Some t"
  using assms unfolding mutex_wf_def by blast+

lemma mutex_wfI:
  assumes "\<And>t m. m \<in> held s t \<Longrightarrow> km_holder (mutexes s m) = Some t"
    and "\<And>t m. km_holder (mutexes s m) = Some t \<Longrightarrow> m \<notin> held s t \<Longrightarrow> want s t = Some m"
    and "\<And>t m. want s t = Some m \<Longrightarrow> t \<notin> set (waiters m s) \<Longrightarrow>
      km_holder (mutexes s m) = Some t \<and> (t \<in> set (tq_list (queues s Kt_runq)) \<or> curthr s = Some t)"
    and "\<And>t m. t \<in> set (waiters m s) \<Longrightarrow> want s t = Some m \<and> map_option kt_state (threads s t) = Some KT_SLEEP
      \<and> km_holder (mutexes s m) \<noteq> Some t"
    and "\<And>m. waiters m s \<noteq> [] \<Longrightarrow> km_holder (mutexes s m) \<noteq> None"
  shows "mutex_wf s"
  using assms unfolding mutex_wf_def by blast

text \<open>A change that does not concern the mutexes; threads may leave the run queue only to run.\<close>

definition mutex_frame :: "mclients \<Rightarrow> mclients \<Rightarrow> bool" where
  "mutex_frame s s' \<longleftrightarrow> mutexes s' = mutexes s \<and> held s' = held s \<and> want s' = want s \<and>
     (\<forall>m. waiters m s' = waiters m s) \<and>
     (\<forall>m. \<forall>t\<in>set (waiters m s). map_option kt_state (threads s' t) = map_option kt_state (threads s t)) \<and>
     (\<forall>t. t \<in> set (tq_list (queues s Kt_runq)) \<or> curthr s = Some t \<longrightarrow>
          t \<in> set (tq_list (queues s' Kt_runq)) \<or> curthr s' = Some t \<or> want s t = None \<or>
          (\<exists>m. t \<in> set (waiters m s)))"

lemma mutex_frame_refl [simp]: "mutex_frame s s"
  by (simp add: mutex_frame_def)

lemma mutex_frame_trans:
  assumes a: "mutex_frame s s'" and b: "mutex_frame s' s''" shows "mutex_frame s s''"
proof -
  have "\<forall>t. t \<in> set (tq_list (queues s Kt_runq)) \<or> curthr s = Some t \<longrightarrow>
          t \<in> set (tq_list (queues s'' Kt_runq)) \<or> curthr s'' = Some t \<or> want s t = None \<or>
          (\<exists>m. t \<in> set (waiters m s))"
    using a b unfolding mutex_frame_def by metis
  with a b show ?thesis unfolding mutex_frame_def by simp
qed

lemma mutex_wf_frame:
  assumes wf: "mutex_wf s" and fr: "mutex_frame s s'"
  shows "mutex_wf s'"
proof -
  have eq: "mutexes s' = mutexes s" "held s' = held s" "want s' = want s" "\<And>m. waiters m s' = waiters m s"
    and st: "\<And>m t. t \<in> set (waiters m s) \<Longrightarrow> map_option kt_state (threads s' t) = map_option kt_state (threads s t)"
    and mv: "\<And>t. t \<in> set (tq_list (queues s Kt_runq)) \<or> curthr s = Some t \<Longrightarrow>
          t \<in> set (tq_list (queues s' Kt_runq)) \<or> curthr s' = Some t \<or> want s t = None \<or>
          (\<exists>m. t \<in> set (waiters m s))"
    using fr unfolding mutex_frame_def by blast+
  have "t \<in> set (waiters m s) \<or>
         km_holder (mutexes s m) = Some t \<and> (t \<in> set (tq_list (queues s' Kt_runq)) \<or> curthr s' = Some t)"
    if "want s t = Some m" for t m
    using wf that mv [of t] unfolding mutex_wf_def by (metis option.distinct(1) option.inject)
  with wf st show ?thesis unfolding mutex_wf_def eq by simp
qed

lemma mutex_frame_irq:
  assumes "irq_wakes irq" shows "mutex_frame s (irq s)"
  using assms by (auto simp: irq_wakes_def irq_ok_def mutex_frame_def)

lemma mutex_frame_switch_wait:
  assumes "sched_switch_wait irqs s = Some s'" and "\<forall>irq\<in>set irqs. irq_wakes irq"
  shows "mutex_frame s s'"
  using assms
proof (induction irqs s rule: sched_switch_wait.induct)
  case (1 s)
  then show ?case by (auto split: if_splits)
next
  case (2 irq irqs s)
  let ?s1 = "s\<lparr>intr_on := False, ipl := IPL_LOW\<rparr>"
  have "mutex_frame ?s1 (irq ?s1)" using "2.prems" by (simp add: mutex_frame_irq)
  then have 1: "mutex_frame s ((irq ?s1)\<lparr>ipl := IPL_HIGH\<rparr>)" by (simp add: mutex_frame_def)
  show ?case
  proof (cases "sched_queue_empty Kt_runq s")
    case True
    then have "mutex_frame ((irq ?s1)\<lparr>ipl := IPL_HIGH\<rparr>) s'" using "2.IH" "2.prems" by simp
    with 1 show ?thesis by (rule mutex_frame_trans)
  next
    case False
    with "2.prems" show ?thesis by simp
  qed
qed

lemma sched_switch_wait_nonempty:
  "tq_list (queues s Kt_runq) \<noteq> [] \<Longrightarrow> sched_switch_wait irqs s = Some s"
  by (cases irqs) (simp_all add: sched_queue_empty_def)

lemma irq_wakes_ok: "irq_wakes irq \<Longrightarrow> irq_ok irq"
  by (simp add: irq_wakes_def)

lemma mutex_frame_switch:
  assumes sw: "sched_switch irqs s = Some s'" and irqs: "\<forall>irq\<in>set irqs. irq_wakes irq"
    and wf: "sched_wf None s"
    and w: "\<And>t. curthr s = Some t \<Longrightarrow> want s t = None \<or> (\<exists>m. t \<in> set (waiters m s)) \<or> t \<in> set (tq_list (queues s Kt_runq))"
  shows "mutex_frame s s'"
proof -
  from sw obtain s1 where s1: "sched_switch_wait irqs (s\<lparr>ipl := IPL_HIGH\<rparr>) = Some s1"
    by (auto simp: sched_switch_def crash_simps)
  have f0: "mutex_frame (s\<lparr>ipl := IPL_HIGH\<rparr>) s1" using mutex_frame_switch_wait [OF s1 irqs] .
  then have f: "mutex_frame s s1" by (simp add: mutex_frame_def)
  have irqs': "\<forall>irq\<in>set irqs. irq_ok irq" using irqs irq_wakes_ok by blast
  have wf1: "sched_wf None s1" and ne: "tq_list (queues s1 Kt_runq) \<noteq> []" and cur: "curthr s1 = curthr s"
    using sched_switch_wait_ok [OF s1 irqs'] wf by (simp_all del: sched_switch_wait.simps)
  let ?t = "last (tq_list (queues s1 Kt_runq))"
  obtain th where th: "threads s1 ?t = Some th" "kt_wchan th = Some Kt_runq"
    and deq: "ktqueue_dequeue Kt_runq s1 = Some (Some ?t,
      s1\<lparr>queues := (queues s1)(Kt_runq := \<lparr>tq_list = butlast (tq_list (queues s1 Kt_runq)),
                                         tq_size = tq_size (queues s1 Kt_runq) - 1\<rparr>),
         threads := (threads s1)(?t \<mapsto> th\<lparr>kt_wchan := None\<rparr>)\<rparr>)"
    using ktqueue_dequeue_last [OF _ ne] wf1 by (auto simp: sched_wf_def)
  have s': "s' = s1\<lparr>queues := (queues s1)(Kt_runq := \<lparr>tq_list = butlast (tq_list (queues s1 Kt_runq)),
                                         tq_size = tq_size (queues s1 Kt_runq) - 1\<rparr>),
         threads := (threads s1)(?t \<mapsto> th\<lparr>kt_wchan := None\<rparr>), curthr := Some ?t, curproc := kt_proc th\<rparr>"
    using sw s1 deq by (simp add: sched_switch_def)
  have bl: "set (butlast (tq_list (queues s1 Kt_runq))) = set (tq_list (queues s1 Kt_runq)) - {?t}"
    using wf1 ne by (simp add: sched_wf_def set_butlast_distinct)
  have "t \<in> set (tq_list (queues s' Kt_runq)) \<or> curthr s' = Some t \<or> want s t = None \<or> (\<exists>m. t \<in> set (waiters m s))"
    if "t \<in> set (tq_list (queues s Kt_runq)) \<or> curthr s = Some t" for t
  proof -
    from f that have "t \<in> set (tq_list (queues s1 Kt_runq)) \<or> curthr s1 = Some t \<or> want s t = None \<or> (\<exists>m. t \<in> set (waiters m s))"
      unfolding mutex_frame_def by blast
    moreover have "t \<in> set (tq_list (queues s1 Kt_runq)) \<or> want s t = None \<or> (\<exists>m. t \<in> set (waiters m s))"
      if "curthr s1 = Some t"
      using that cur w [of t] s1 sched_switch_wait_nonempty [of "s\<lparr>ipl := IPL_HIGH\<rparr>" irqs] by fastforce
    ultimately show ?thesis using s' bl by auto
  qed
  moreover have "map_option kt_state (threads s' t) = map_option kt_state (threads s1 t)" for t
    using s' th by simp
  ultimately show ?thesis using f s' unfolding mutex_frame_def by simp
qed


subsection \<open>Every step keeps the invariants\<close>

definition clients_ok :: "mclients \<Rightarrow> bool" where
  "clients_ok s \<longleftrightarrow> sched_ok s \<and> mutex_wf s \<and> (\<forall>c. curthr s = Some c \<longrightarrow> want s c = None)"

lemma sched_ok_ghost [simp]:
  "sched_ok (s\<lparr>held := h\<rparr>) = sched_ok s" "sched_ok (s\<lparr>want := w\<rparr>) = sched_ok s"
  by (simp_all add: sched_ok_def sched_wf_def cur_inv_def queue_inv_def sleep_inv_def no_lost_except_def)

lemma resume_ok:
  assumes ok: "sched_ok s" and wf: "mutex_wf s"
  shows "clients_ok (resume s)"
proof -
  obtain c where c: "curthr s = Some c" and n: "\<And>q. c \<notin> set (tq_list (queues s q))"
    using ok by (auto simp: sched_ok_def sched_wf_def cur_inv_def queue_inv_mem)
  show ?thesis
  proof (cases "want s c")
    case None
    then show ?thesis using ok wf c by (simp add: clients_ok_def resume_def)
  next
    case (Some m)
    then have h: "km_holder (mutexes s m) = Some c" using wf n unfolding mutex_wf_def by blast
    have "mutex_wf (s\<lparr>want := (want s)(c := None), held := (held s)(c := insert m (held s c))\<rparr>)"
      using n h Some
      by (intro mutex_wfI) (auto dest: mutex_wfD [OF wf] split: if_splits)
    then show ?thesis using ok Some c by (simp add: clients_ok_def resume_def)
  qed
qed

lemma lock_ok:
  assumes ok: "clients_ok s" and irqs: "\<forall>irq\<in>set irqs. irq_wakes irq"
    and c: "curthr s = Some c"
    and lk: "kmutex_lock irqs m (s\<lparr>want := (want s)(c := Some m)\<rparr>) = Some s'"
  shows "clients_ok (resume s')"
proof -
  let ?s = "s\<lparr>want := (want s)(c := Some m)\<rparr>"
  have sok: "sched_ok s" and wf: "mutex_wf s" and wc: "want s c = None" using ok c by (auto simp: clients_ok_def)
  have n: "\<And>q. c \<notin> set (tq_list (queues s q))"
    using sok c by (auto simp: sched_ok_def sched_wf_def cur_inv_def queue_inv_mem)
  have hc: "km_holder (mutexes s m) \<noteq> Some c" using lk c by (auto simp: kmutex_lock_def split: if_splits)
  show ?thesis
  proof (cases "km_holder (mutexes s m)")
    case None
    then have s': "s' = ?s\<lparr>mutexes := (mutexes s)(m := \<lparr>km_holder = Some c\<rparr>)\<rparr>"
      using lk c by (simp add: kmutex_lock_def)
    have "mutex_wf s'" using c n None wc unfolding s'
      by (intro mutex_wfI) (auto dest: mutex_wfD [OF wf] split: if_splits)
    then show ?thesis using s' sok by (intro resume_ok) simp_all
  next
    case (Some h)
    then have sl: "sched_sleep_on irqs (Km_waitq m) ?s = Some s'"
      using lk c hc by (auto simp: kmutex_lock_def)
    obtain th where th: "threads s c = Some th" "kt_wchan th = None"
      using sok c by (auto simp: sched_ok_def cur_inv_def)
    obtain s1 where s1: "upd_thr c (\<lambda>th. th\<lparr>kt_state := KT_SLEEP\<rparr>) ?s \<bind> ktqueue_enqueue (Km_waitq m) c = Some s1"
      and wf1: "sched_wf None s1"
      using block_ok [of c ?s th "Km_waitq m" KT_SLEEP] sok c th
      by (auto simp: sched_ok_def sched_wf_def queue_inv_def sleep_inv_def no_lost_except_def)
    have s1': "s1 = ?s\<lparr>threads := (threads s)(c \<mapsto> th\<lparr>kt_state := KT_SLEEP, kt_wchan := Some (Km_waitq m)\<rparr>),
        queues := (queues s)(Km_waitq m := \<lparr>tq_list = c # waiters m s, tq_size = tq_size (queues s (Km_waitq m)) + 1\<rparr>)\<rparr>"
      using s1 th by (auto simp: upd_thr_def ktqueue_enqueue_def Let_def)
    have sw: "sched_switch irqs s1 = Some s'" using sl s1 c
      by (auto simp: sched_sleep_on_def crash_simps)
    have "mutex_wf s1" using c n Some wc hc unfolding s1'
      by (intro mutex_wfI) (auto dest: mutex_wfD [OF wf] split: if_splits)
    moreover have "mutex_frame s1 s'"
      by (rule mutex_frame_switch [OF sw irqs wf1]) (use c in \<open>auto simp: s1'\<close>)
    ultimately have "mutex_wf s'" by (rule mutex_wf_frame)
    moreover have "sched_ok s'"
      using sched_sleep_on_ok [OF _ _ _ sl] sok irqs irq_wakes_ok by auto
    ultimately show ?thesis by (rule resume_ok [rotated])
  qed
qed

lemma unlock_ok:
  assumes ok: "clients_ok s" and c: "curthr s = Some c" and m: "m \<in> held s c"
    and ul: "kmutex_unlock m s = Some s'"
  shows "clients_ok (s'\<lparr>held := (held s')(c := held s' c - {m})\<rparr>)"
proof -
  have sok: "sched_ok s" and wf: "mutex_wf s" and wc: "want s c = None" using ok c by (auto simp: clients_ok_def)
  have h: "km_holder (mutexes s m) = Some c" using wf m unfolding mutex_wf_def by blast
  show ?thesis
  proof (cases "waiters m s = []")
    case True
    then have s': "s' = s\<lparr>mutexes := (mutexes s)(m := \<lparr>km_holder = None\<rparr>)\<rparr>"
      using kmutex_unlock_no_waiter [OF c h] ul by simp
    have nw: "want s t \<noteq> Some m" for t using mutex_wfD(3) [OF wf, of t m] True h wc by auto
    have "mutex_wf (s'\<lparr>held := (held s')(c := held s' c - {m})\<rparr>)"
      using True wc h nw unfolding s'
      by (intro mutex_wfI) (auto dest: mutex_wfD [OF wf] split: if_splits)
    then show ?thesis using sok s' c wc by (simp add: clients_ok_def)
  next
    case False
    let ?t = "last (waiters m s)"
    have s': "s' = (wake_last (Km_waitq m) s)\<lparr>mutexes := (mutexes s)(m := \<lparr>km_holder = Some ?t\<rparr>)\<rparr>"
      using kmutex_unlock_handover [OF sok c h False] ul by simp
    have inv: "queue_inv s" using sok by (simp add: sched_ok_def sched_wf_def)
    have tw: "want s ?t = Some m" "threads s ?t \<noteq> None" using wf False unfolding mutex_wf_def
      by (metis last_in_set, metis last_in_set map_option_is_None option.distinct(1))
    have ct: "c \<noteq> ?t" using tw wc by auto
    have bl: "set (butlast (waiters m s)) = set (waiters m s) - {?t}" using inv False
      by (simp add: set_butlast_distinct)
    have other: "?t \<notin> set (waiters m' s)" if "m' \<noteq> m" for m'
      using wf tw(1) that unfolding mutex_wf_def by auto
    have th: "threads s' x = (if x = ?t then map_option woken (threads s x) else threads s x)" for x
      by (simp add: s' wake_last_def Let_def)
    have ws: "waiters m' s' = (if m' = m then butlast (waiters m s) else waiters m' s)" for m'
      by (simp add: s' wake_last_def Let_def)
    have rq: "tq_list (queues s' Kt_runq) = ?t # tq_list (queues s Kt_runq)"
      by (simp add: s' wake_last_def Let_def)
    have eqs: "held s' = held s" "want s' = want s" "curthr s' = curthr s"
      "mutexes s' = (mutexes s)(m := \<lparr>km_holder = Some ?t\<rparr>)"
      by (simp_all add: s' wake_last_def Let_def)
    have nw: "want s t \<noteq> Some m" if "t \<notin> set (waiters m s)" for t
      using mutex_wfD(3) [OF wf, of t m] that h wc by auto
    have "mutex_wf (s'\<lparr>held := (held s')(c := held s' c - {m})\<rparr>)"
      using nw wc h tw ct bl other
      by (intro mutex_wfI) (auto simp: eqs rq ws th dest: mutex_wfD [OF wf] split: if_splits)
    moreover have "sched_ok s'"
      using sched_ok_wake_last [OF sok _ False] by (simp add: s')
    ultimately show ?thesis using c wc eqs by (simp add: clients_ok_def)
  qed
qed


text \<open>The queues that are not the run queue and not inside a mutex.\<close>

definition plain_queue :: "qaddr \<Rightarrow> bool" where
  "plain_queue q \<longleftrightarrow> q \<noteq> Kt_runq \<and> (\<forall>m. q \<noteq> Km_waitq m)"

lemma mutex_frame_wake:
  assumes "plain_queue q" and "queue_inv s"
  shows "mutex_frame s (wake_all q s)" and "tq_list (queues s q) \<noteq> [] \<Longrightarrow> mutex_frame s (wake_last q s)"
proof -
  have disj: "t \<notin> set (tq_list (queues s q))" if "t \<in> set (waiters m s)" for t m
    using that assms queue_inv_mem [OF assms(2)] by (auto simp: plain_queue_def)
  then show "mutex_frame s (wake_all q s)" using assms(1)
    by (auto simp: mutex_frame_def wake_all_def Let_def plain_queue_def)
  assume "tq_list (queues s q) \<noteq> []"
  then have "last (tq_list (queues s q)) \<noteq> t" if "t \<in> set (waiters m s)" for t m
    using disj [OF that] by (metis last_in_set)
  then show "mutex_frame s (wake_last q s)" using assms(1)
    by (auto simp: mutex_frame_def wake_last_def Let_def plain_queue_def)
qed

lemma mutex_frame_cancel:
  assumes ok: "sched_ok s" and wf: "mutex_wf s" and cn: "sched_cancel t s = Some s'"
  shows "mutex_frame s s'"
proof -
  obtain th where th: "threads s t = Some th" using cn by (auto simp: sched_cancel_def crash_simps)
  have inv: "queue_inv s" using ok by (simp add: sched_ok_def sched_wf_def)
  show ?thesis
  proof (cases "kt_state th = KT_SLEEP_CANCELLABLE")
    case False
    then have "s' = s\<lparr>threads := (threads s)(t \<mapsto> th\<lparr>kt_cancelled := True\<rparr>)\<rparr>"
      using cn th by (auto simp: sched_cancel_def upd_thr_Some_iff)
    then show ?thesis using th by (simp add: mutex_frame_def)
  next
    case True
    have nw: "t \<notin> set (waiters m s)" for m using mutex_wfD(6) [OF wf, of t m] True th by auto
    obtain q where q: "kt_wchan th = Some q" using cn th True by (auto simp: sched_cancel_def crash_simps)
    have tq: "t \<in> set (tq_list (queues s q))" using queue_inv_mem [OF inv] th q by auto
    have nq: "q \<noteq> Km_waitq m" for m using tq nw by auto
    have "waiters m s' = waiters m s" for m
      using cn th True q nq
      by (auto simp: sched_cancel_def crash_simps upd_thr_Some_iff ktqueue_remove_Some_iff
            sched_make_runnable_eq ktqueue_enqueue_Some_iff)
    moreover have "mutexes s' = mutexes s" "held s' = held s" "want s' = want s" "curthr s' = curthr s"
      using cn th True q
      by (auto simp: sched_cancel_def crash_simps upd_thr_Some_iff ktqueue_remove_Some_iff
            sched_make_runnable_eq ktqueue_enqueue_Some_iff)
    moreover have "x \<noteq> t \<Longrightarrow> threads s' x = threads s x" for x
      using cn th True q
      by (auto simp: sched_cancel_def crash_simps upd_thr_Some_iff ktqueue_remove_Some_iff
            sched_make_runnable_eq ktqueue_enqueue_Some_iff)
    moreover have "set (tq_list (queues s Kt_runq)) \<subseteq> set (tq_list (queues s' Kt_runq))"
      using cn th True q queue_inv_distinct [OF inv, of Kt_runq]
      by (cases "q = Kt_runq") (auto simp: sched_cancel_def crash_simps upd_thr_Some_iff ktqueue_remove_Some_iff
            sched_make_runnable_eq ktqueue_enqueue_Some_iff)
    ultimately show ?thesis using nw unfolding mutex_frame_def by (metis subsetD)
  qed
qed

text \<open>A thread that wants no mutex and parks itself (to sleep, or to yield).\<close>

lemma mutex_frame_park:
  assumes sok: "sched_ok s" and c: "curthr s = Some c" "want s c = None"
    and q: "\<And>m. q \<noteq> Km_waitq m"
    and s1: "upd_thr c f s \<bind> ktqueue_enqueue q c = Some s1" and f: "\<And>th. kt_wchan (f th) = kt_wchan th"
  shows "mutex_frame s s1"
proof -
  have n: "c \<notin> set (waiters m s)" for m
    using sok c by (auto simp: sched_ok_def sched_wf_def cur_inv_def queue_inv_mem)
  from s1 obtain th where "s1 = s\<lparr>queues := (queues s)(q := \<lparr>tq_list = c # tq_list (queues s q), tq_size = tq_size (queues s q) + 1\<rparr>),
      threads := (threads s)(c \<mapsto> (f th)\<lparr>kt_wchan := Some q\<rparr>)\<rparr>"
    by (auto simp: crash_simps upd_thr_Some_iff ktqueue_enqueue_Some_iff)
  then show ?thesis using n q c unfolding mutex_frame_def by auto
qed

text \<open>
  The steps of the system: the current thread locks or unlocks a mutex, yields, sleeps, wakes or
  cancels others, or an interrupt arrives.
\<close>

inductive mstep :: "errnos \<Rightarrow> mclients \<Rightarrow> mclients \<Rightarrow> bool" for E where
  lock: "curthr s = Some c \<Longrightarrow> \<forall>irq\<in>set irqs. irq_wakes irq \<Longrightarrow>
    kmutex_lock irqs m (s\<lparr>want := (want s)(c := Some m)\<rparr>) = Some s' \<Longrightarrow> mstep E s (resume s')"
| unlock: "curthr s = Some c \<Longrightarrow> m \<in> held s c \<Longrightarrow> kmutex_unlock m s = Some s' \<Longrightarrow>
    mstep E s (s'\<lparr>held := (held s')(c := held s' c - {m})\<rparr>)"
| yield: "\<forall>irq\<in>set irqs. irq_wakes irq \<Longrightarrow> sys_thr_yield irqs s = Some s' \<Longrightarrow> mstep E s (resume s')"
| sleep: "plain_queue q \<Longrightarrow> \<forall>irq\<in>set irqs. irq_wakes irq \<Longrightarrow> sched_sleep_on irqs q s = Some s' \<Longrightarrow>
    mstep E s (resume s')"
| csleep: "plain_queue q \<Longrightarrow> \<forall>irq\<in>set irqs. irq_wakes irq \<Longrightarrow>
    sched_cancellable_sleep_on E irqs q s = Some (r, s') \<Longrightarrow> mstep E s (resume s')"
| wakeup: "plain_queue q \<Longrightarrow> sched_wakeup_on q s = Some (r, s') \<Longrightarrow> mstep E s s'"
| broadcast: "plain_queue q \<Longrightarrow> sched_broadcast_on q s = Some s' \<Longrightarrow> mstep E s s'"
| cancel: "curthr s \<noteq> Some t \<Longrightarrow> sched_cancel t s = Some s' \<Longrightarrow> mstep E s s'"
| irq: "irq_wakes irq \<Longrightarrow> mstep E s (irq s)"


lemma sched_wakeup_on_cases:
  assumes "sched_ok s" and "q \<noteq> Kt_runq" and "sched_wakeup_on q s = Some (r, s')"
  shows "tq_list (queues s q) = [] \<and> r = None \<and> s' = s \<or>
         tq_list (queues s q) \<noteq> [] \<and> r = Some (last (tq_list (queues s q))) \<and> s' = wake_last q s"
  using assms sched_wakeup_on_eq [of s q]
  by (cases "tq_list (queues s q) = []") (auto simp: sched_ok_def sched_wf_def sched_wakeup_on_def sched_queue_empty_def)

lemma mutex_frame_block:
  assumes sok: "sched_ok s" and c: "curthr s = Some c" "want s c = None" and q: "plain_queue q"
    and st: "st \<in> {KT_SLEEP, KT_SLEEP_CANCELLABLE}" and irqs: "\<forall>irq\<in>set irqs. irq_wakes irq"
    and s1: "upd_thr c (\<lambda>th. th\<lparr>kt_state := st\<rparr>) s \<bind> ktqueue_enqueue q c = Some s1"
    and sw: "sched_switch irqs s1 = Some s'"
  shows "mutex_frame s s'"
proof -
  have f1: "mutex_frame s s1" using mutex_frame_park [OF sok c _ s1] q by (auto simp: plain_queue_def)
  have "sched_wf None s1"
    using block_ok [of c s _ q st] sok c q st s1 by (auto simp: sched_ok_def plain_queue_def cur_inv_def)
  moreover have "curthr s1 = Some c" "want s1 = want s"
    using s1 c by (auto simp: crash_simps upd_thr_Some_iff ktqueue_enqueue_Some_iff)
  ultimately have "mutex_frame s1 s'" using mutex_frame_switch [OF sw irqs] c by auto
  with f1 show ?thesis by (rule mutex_frame_trans)
qed

lemma mstep_clients_ok:
  assumes "mstep E s s'" and ok: "clients_ok s"
  shows "clients_ok s'"
  using assms(1)
proof cases
  case (lock c irqs m s1)
  then show ?thesis using lock_ok [OF ok] by blast
next
  case (unlock c m s1)
  then show ?thesis using unlock_ok [OF ok] by blast
next
  case (yield irqs s1)
  obtain c where c: "curthr s = Some c" "want s c = None"
    using ok by (auto simp: clients_ok_def sched_ok_def cur_inv_def)
  then obtain s2 where s2: "ktqueue_enqueue Kt_runq c s = Some s2" and sw: "sched_switch irqs s2 = Some s1"
    using yield by (auto simp: sys_thr_yield_def sched_make_runnable_eq crash_simps)
  have u: "upd_thr c (\<lambda>th. th) s \<bind> ktqueue_enqueue Kt_runq c = Some s2"
    using s2 by (auto simp: crash_simps upd_thr_Some_iff ktqueue_enqueue_Some_iff)
  have sok: "sched_ok s" using ok by (simp add: clients_ok_def)
  have "mutex_frame s s2" using mutex_frame_park [OF sok c _ u] by simp
  moreover have "sched_wf None s2" using make_runnable_cur_wf [OF sok c(1) s2] .
  then have "mutex_frame s2 s1"
    using mutex_frame_switch [OF sw yield(2)] s2 c by (auto simp: ktqueue_enqueue_Some_iff)
  ultimately have "mutex_wf s1" using ok by (auto simp: clients_ok_def intro: mutex_wf_frame)
  moreover have "sched_ok s1" using sys_thr_yield_ok [OF sok _ yield(3)] yield(2) irq_wakes_ok by auto
  ultimately show ?thesis using yield(1) resume_ok by blast
next
  case (sleep q irqs s1)
  obtain c where c: "curthr s = Some c" "want s c = None"
    using ok by (auto simp: clients_ok_def sched_ok_def cur_inv_def)
  have sok: "sched_ok s" using ok by (simp add: clients_ok_def)
  obtain s2 where "upd_thr c (\<lambda>th. th\<lparr>kt_state := KT_SLEEP\<rparr>) s \<bind> ktqueue_enqueue q c = Some s2"
    "sched_switch irqs s2 = Some s1"
    using sleep(4) c by (auto simp: sched_sleep_on_def crash_simps)
  from mutex_frame_block [OF sok c sleep(2) _ sleep(3) this]
  have "mutex_wf s1" using ok by (auto simp: clients_ok_def intro: mutex_wf_frame)
  moreover have "sched_ok s1"
    using sched_sleep_on_ok [OF sok _ _ sleep(4)] sleep(2,3) irq_wakes_ok by (auto simp: plain_queue_def)
  ultimately show ?thesis using sleep(1) resume_ok by blast
next
  case (csleep q irqs r s1)
  obtain c th where c: "curthr s = Some c" "want s c = None" and th: "threads s c = Some th"
    using ok by (auto simp: clients_ok_def sched_ok_def cur_inv_def)
  have sok: "sched_ok s" using ok by (simp add: clients_ok_def)
  have "mutex_wf s1"
  proof (cases "kt_cancelled th")
    case True
    then show ?thesis using csleep(4) c th ok by (auto simp: sched_cancellable_sleep_on_def clients_ok_def)
  next
    case False
    obtain s2 where "upd_thr c (\<lambda>th. th\<lparr>kt_state := KT_SLEEP_CANCELLABLE\<rparr>) s \<bind> ktqueue_enqueue q c = Some s2"
      "sched_switch irqs s2 = Some s1"
      using csleep(4) c th False by (auto simp: sched_cancellable_sleep_on_def crash_simps)
    from mutex_frame_block [OF sok c csleep(2) _ csleep(3) this] show ?thesis
      using ok by (auto simp: clients_ok_def intro: mutex_wf_frame)
  qed
  moreover have "sched_ok s1"
    using sched_cancellable_sleep_on_ok [OF sok _ _ csleep(4)] csleep(2,3) irq_wakes_ok by (auto simp: plain_queue_def)
  ultimately show ?thesis using csleep(1) resume_ok by blast
next
  case (wakeup q r)
  have sok: "sched_ok s" using ok by (simp add: clients_ok_def)
  have q: "q \<noteq> Kt_runq" using wakeup by (simp add: plain_queue_def)
  have "sched_ok s'" using sched_wakeup_on_ok [OF sok q] wakeup(2) by auto
  moreover have "mutex_frame s s'"
    using sched_wakeup_on_cases [OF sok q wakeup(2)] mutex_frame_wake(2) [OF wakeup(1)] sok
    by (auto simp: sched_ok_def sched_wf_def)
  moreover have "curthr s' = curthr s"
    using sched_wakeup_on_cases [OF sok q wakeup(2)] by (auto simp: wake_last_def Let_def)
  ultimately show ?thesis using ok mutex_wf_frame [of s s'] by (auto simp: clients_ok_def mutex_frame_def)
next
  case (broadcast q)
  have sok: "sched_ok s" using ok by (simp add: clients_ok_def)
  have q: "q \<noteq> Kt_runq" using broadcast by (simp add: plain_queue_def)
  have s': "s' = wake_all q s" "sched_ok s'" using sched_broadcast_on_ok [OF sok q] broadcast(2) by auto
  moreover have "mutex_frame s s'"
    using mutex_frame_wake(1) [OF broadcast(1)] sok s' by (auto simp: sched_ok_def sched_wf_def)
  moreover have "curthr s' = curthr s" using s' by (simp add: wake_all_def Let_def)
  ultimately show ?thesis using ok mutex_wf_frame [of s s'] by (auto simp: clients_ok_def mutex_frame_def)
next
  case (cancel t)
  have sok: "sched_ok s" and wf: "mutex_wf s" using ok by (simp_all add: clients_ok_def)
  have fr: "mutex_frame s s'" using mutex_frame_cancel [OF sok wf cancel(2)] .
  have "sched_ok s' \<and> curthr s' = curthr s" using sched_cancel_sched_ok [OF sok cancel] .
  with fr ok show ?thesis using mutex_wf_frame [of s s'] by (auto simp: clients_ok_def mutex_frame_def)
next
  case (irq irq)
  have "sched_ok s'" using sched_ok_irq ok irq by (auto simp: clients_ok_def irq_wakes_def)
  moreover have "mutex_frame s s'" using mutex_frame_irq irq by blast
  moreover have "curthr s' = curthr s" using irq by (auto simp: irq_wakes_def irq_ok_def)
  ultimately show ?thesis using ok mutex_wf_frame [of s s'] by (auto simp: clients_ok_def mutex_frame_def)
qed


lemma msteps_clients_ok:
  assumes "(mstep E)\<^sup>*\<^sup>* s s'" and "clients_ok s"
  shows "clients_ok s'"
  using assms by (induction rule: rtranclp_induct) (auto intro: mstep_clients_ok)

text \<open>A concrete system: thread 1 runs and thread 2 is ready.\<close>

definition two_threads :: mclients where
  "two_threads = \<lparr>
     threads = [1 \<mapsto> \<lparr>kt_state = KT_RUN, kt_wchan = None, kt_cancelled = False, kt_retval = 0, kt_errno = 0,
                      kt_proc = Some 10, kt_kstack = Some 0\<rparr>,
                2 \<mapsto> \<lparr>kt_state = KT_RUN, kt_wchan = Some Kt_runq, kt_cancelled = False, kt_retval = 0, kt_errno = 0,
                      kt_proc = Some 20, kt_kstack = Some 0\<rparr>],
     queues = (\<lambda>_. \<lparr>tq_list = [], tq_size = 0\<rparr>)(Kt_runq := \<lparr>tq_list = [2], tq_size = 1\<rparr>),
     curthr = Some 1, curproc = Some 10, ipl = IPL_LOW, intr_on = True,
     mutexes = (\<lambda>_. \<lparr>km_holder = None\<rparr>), held = (\<lambda>_. {}), want = (\<lambda>_. None)\<rparr>"

lemma two_threads_ok: "clients_ok two_threads"
  by (auto simp: clients_ok_def two_threads_def sched_ok_def sched_wf_def queue_inv_def sleep_inv_def
      no_lost_except_def cur_inv_def mutex_wf_def split: if_splits)


text \<open>Thread 1 locks mutex 0 and yields; thread 2 locks it too and has to wait.\<close>

definition two_threads_1 :: mclients where
  "two_threads_1 = resume (the (kmutex_lock [] 0 (two_threads\<lparr>want := (want two_threads)(1 := Some 0)\<rparr>)))"
definition two_threads_2 :: mclients where
  "two_threads_2 = resume (the (sys_thr_yield [] two_threads_1))"
definition two_threads_3 :: mclients where
  "two_threads_3 = resume (the (kmutex_lock [] 0 (two_threads_2\<lparr>want := (want two_threads_2)(2 := Some 0)\<rparr>)))"

lemmas two_threads_eval = two_threads_def two_threads_1_def two_threads_2_def two_threads_3_def
  kmutex_lock_def sys_thr_yield_def sched_make_runnable_eq ktqueue_enqueue_def ktqueue_dequeue_def
  sched_switch_def sched_queue_empty_def sched_sleep_on_def upd_thr_def resume_def Let_def

lemma two_threads_steps:
  "mstep E two_threads two_threads_1" "mstep E two_threads_1 two_threads_2" "mstep E two_threads_2 two_threads_3"
  unfolding two_threads_1_def two_threads_2_def two_threads_3_def
  subgoal by (rule mstep.lock [where c = 1 and irqs = "[]" and m = 0]) (simp_all add: two_threads_eval)
  subgoal by (rule mstep.yield [where irqs = "[]"]) (simp_all add: two_threads_eval)
  subgoal by (rule mstep.lock [where c = 2 and irqs = "[]" and m = 0]) (simp_all add: two_threads_eval)
  done

lemma two_threads_run: "(mstep E)\<^sup>*\<^sup>* two_threads two_threads_3"
  using two_threads_steps by (meson converse_rtranclp_into_rtranclp rtranclp.rtrancl_refl)






text \<open>
  C23: \<open>kmutex_unlock\<close> with waiters makes the thread that has waited longest the holder, takes it off
  the wait queue and puts it, runnable, on the run queue; it does not block.
\<close>

theorem kmutex_unlock_passes_to_oldest:
  assumes "sched_ok s" and "curthr s = Some c" and "km_holder (mutexes s m) = Some c"
    and "tq_list (queues s (Km_waitq m)) = older @ [t]"
  shows "\<exists>s' th. kmutex_unlock m s = Some s' \<and> sched_ok s' \<and> km_holder (mutexes s' m) = Some t \<and>
     tq_list (queues s' (Km_waitq m)) = older \<and>
     tq_list (queues s' Kt_runq) = t # tq_list (queues s Kt_runq) \<and>
     threads s' t = Some th \<and> kt_state th = KT_RUN \<and> curthr s' = Some c"
proof -
  have ne: "tq_list (queues s (Km_waitq m)) \<noteq> []" using assms(4) by simp
  have "t \<in> set (tq_list (queues s (Km_waitq m)))" using assms(4) by simp
  then obtain th where "threads s t = Some th"
    using assms(1) queue_inv_mem [of s t "Km_waitq m"] by (auto simp: sched_ok_def sched_wf_def)
  then show ?thesis
    using kmutex_unlock_handover [OF assms(1-3) ne] sched_ok_wake_last [OF assms(1) _ ne] assms(2,4)
    by (auto simp: wake_last_def Let_def)
qed

definition two_threads_4 :: mclients where
  "two_threads_4 = the (kmutex_unlock 0 two_threads_3)"

lemma two_threads_3_ok: "clients_ok two_threads_3"
  using msteps_clients_ok [OF two_threads_run two_threads_ok] .

theorem kmutex_unlock_passes_to_oldest_witness:
  "kmutex_unlock 0 two_threads_3 = Some two_threads_4 \<and> km_holder (mutexes two_threads_4 0) = Some 2 \<and>
   tq_list (queues two_threads_4 Kt_runq) = [2]"
proof -
  have "sched_ok two_threads_3" using two_threads_3_ok by (simp add: clients_ok_def)
  moreover have "curthr two_threads_3 = Some 1" "km_holder (mutexes two_threads_3 0) = Some 1"
    "tq_list (queues two_threads_3 (Km_waitq 0)) = [] @ [2]" "tq_list (queues two_threads_3 Kt_runq) = []"
    by (simp_all add: two_threads_eval)
  ultimately show ?thesis using kmutex_unlock_passes_to_oldest [of two_threads_3 1 0 "[]" 2]
    by (auto simp: two_threads_4_def)
qed

text \<open>
  C24: a waiter that \<open>kmutex_unlock\<close> has made the holder and that is cancelled before it runs returns
  \<open>-EINTR\<close> from \<open>kmutex_lock_cancellable\<close> although it holds the mutex; nothing gives the mutex up.
\<close>

theorem kmutex_cancelled_after_handover:
  assumes ok: "sched_ok s" and c: "curthr s = Some c" "km_holder (mutexes s m) = Some c"
    and w: "tq_list (queues s (Km_waitq m)) = older @ [t]"
    and sl: "map_option kt_state (threads s t) = Some KT_SLEEP_CANCELLABLE"
  shows "\<exists>s1 s2. kmutex_unlock m s = Some s1 \<and> sched_cancel t s1 = Some s2 \<and>
     km_holder (mutexes s2 m) = Some t \<and> t \<in> set (tq_list (queues s2 Kt_runq)) \<and>
     kmutex_lock_cancellable_resume E (s2\<lparr>curthr := Some t\<rparr>) = Some (- E EINTR)"
proof -
  let ?s1 = "(wake_last (Km_waitq m) s)\<lparr>mutexes := (mutexes s)(m := \<lparr>km_holder = Some t\<rparr>)\<rparr>"
  have ne: "tq_list (queues s (Km_waitq m)) \<noteq> []" using w by simp
  have "t \<in> set (tq_list (queues s (Km_waitq m)))" using w by simp
  then obtain th where th: "threads s t = Some th"
    using ok queue_inv_mem [of s t "Km_waitq m"] by (auto simp: sched_ok_def sched_wf_def)
  have s1: "kmutex_unlock m s = Some ?s1" using kmutex_unlock_handover [OF ok c ne] w by simp
  have th1: "threads ?s1 t = Some (woken th)" using th w by (simp add: wake_last_def Let_def)
  let ?s2 = "?s1\<lparr>threads := (threads ?s1)(t \<mapsto> (woken th)\<lparr>kt_cancelled := True\<rparr>)\<rparr>"
  have s2: "sched_cancel t ?s1 = Some ?s2" using th1 by (simp add: sched_cancel_def upd_thr_def)
  show ?thesis
    using s1 s2 w by (intro exI [of _ ?s1] exI [of _ ?s2])
      (simp add: kmutex_lock_cancellable_resume_def sched_cancellable_resume_def wake_last_def Let_def)
qed

definition two_threads_cancellable :: mclients where
  "two_threads_cancellable = snd (the (kmutex_lock_cancellable std_errnos [] 0 two_threads_2))"

lemma two_threads_cancellable_ok: "sched_ok two_threads_cancellable"
proof -
  have "(mstep std_errnos)\<^sup>*\<^sup>* two_threads two_threads_2"
    using two_threads_steps(1,2) by (rule rtranclp.rtrancl_into_rtrancl [OF r_into_rtranclp])
  then have "sched_ok two_threads_2" using msteps_clients_ok two_threads_ok by (auto simp: clients_ok_def)
  then show ?thesis
    using sched_cancellable_sleep_on_ok [of two_threads_2 "Km_waitq 0" "[]" std_errnos "Inr ()" two_threads_cancellable]
    by (simp add: two_threads_eval two_threads_cancellable_def kmutex_lock_cancellable_def sched_cancellable_sleep_on_def)
qed

theorem kmutex_cancelled_after_handover_witness:
  "\<exists>s1 s2. kmutex_unlock 0 two_threads_cancellable = Some s1 \<and> sched_cancel 2 s1 = Some s2 \<and>
     km_holder (mutexes s2 0) = Some 2 \<and>
     kmutex_lock_cancellable_resume std_errnos (s2\<lparr>curthr := Some 2\<rparr>) = Some (- 4)"
proof -
  have "curthr two_threads_cancellable = Some 1" "km_holder (mutexes two_threads_cancellable 0) = Some 1"
    "tq_list (queues two_threads_cancellable (Km_waitq 0)) = [] @ [2]"
    "map_option kt_state (threads two_threads_cancellable 2) = Some KT_SLEEP_CANCELLABLE"
    by (simp_all add: two_threads_eval two_threads_cancellable_def kmutex_lock_cancellable_def sched_cancellable_sleep_on_def)
  with two_threads_cancellable_ok show ?thesis
    using kmutex_cancelled_after_handover [of two_threads_cancellable 1 0 "[]" 2 std_errnos]
    by (auto simp: std_errnos_def)
qed


end
