(* ===== verification/Kernel_State.thy ===== *)
theory Kernel_State
  imports Kmutex
begin

text \<open>
  The state of the kernel above the scheduler, and the parameters of the model.

  \<^item> \<open>hdr\<close>: the constants and macros of the kernel's headers, none of which is in the repository.
  \<^item> \<open>kernel\<close>: the kernel's structures. Every kind of structure has its own memory, a total function
    from addresses: allocating a structure takes an address, freeing it gives the address back and
    leaves the contents, as the slab allocator does. Uninitialised fields hold what was there.
  \<^item> \<open>ext\<close>: the functions of files outside the repository that the code calls (\<open>vnode.c\<close>, \<open>file.c\<close>,
    the file systems, the page-table code), and what the rest of the system does while a caller
    sleeps.
\<close>

subsection \<open>Constants and macros of the headers\<close>

record hdr =
  Err :: errnos
  PAGE_SHIFT :: nat
  PAGE_SIZE :: u32
  ADDR_TO_PN :: "u32 \<Rightarrow> u32"
  PN_TO_ADDR :: "u32 \<Rightarrow> u32"
  PAGE_OFFSET :: "u32 \<Rightarrow> u32"
  PAGE_ALIGNED :: "u32 \<Rightarrow> bool"
  PAGE_ALIGN_DOWN :: "u32 \<Rightarrow> u32"
  PAGE_ALIGN_UP :: "u32 \<Rightarrow> u32"
  USER_MEM_LOW :: u32
  USER_MEM_HIGH :: u32
  MAP_SHARED :: u32
  MAP_PRIVATE :: u32
  MAP_FIXED :: u32
  MAP_ANON :: u32
  MAP_TYPE :: u32
  PROT_READ :: u32
  PROT_WRITE :: u32
  PROT_EXEC :: u32
  FAULT_WRITE :: u32
  FAULT_EXEC :: u32
  PD_USER_FLAGS :: u32    \<comment> \<open>\<open>PD_PRESENT | PD_USER\<close>\<close>
  PD_WRITE :: u32
  PT_USER_FLAGS :: u32    \<comment> \<open>\<open>PT_PRESENT | PT_USER\<close>\<close>
  PT_WRITE :: u32
  PF_HASH_SIZE :: nat
  DEFAULT_STACK_SIZE :: nat
  PID_IDLE :: int
  PID_INIT :: int
  PROC_MAX_COUNT :: int
  PROC_NAME_LEN :: nat
  NFILES :: nat
  NAME_LEN :: nat
  O_WRONLY :: u32
  O_RDWR :: u32
  O_RDONLY :: u32
  O_CREAT :: u32
  O_APPEND :: u32
  FMODE_READ :: u32
  FMODE_WRITE :: u32
  FMODE_APPEND :: u32
  SEEK_SET :: int
  SEEK_CUR :: int
  SEEK_END :: int
  S_ISDIR :: "u32 \<Rightarrow> bool"
  S_ISREG :: "u32 \<Rightarrow> bool"
  S_ISCHR :: "u32 \<Rightarrow> bool"
  S_ISBLK :: "u32 \<Rightarrow> bool"
  sizeof_dirent :: int
  VMMAP_DIR_HILO :: int

text \<open>What the page macros compute: a page has \<open>2 ^ PAGE_SHIFT\<close> bytes.\<close>

definition page_ok :: "hdr \<Rightarrow> bool" where
  "page_ok H \<longleftrightarrow>
     0 < PAGE_SHIFT H \<and> PAGE_SHIFT H < 32 \<and> PAGE_SIZE H = push_bit (PAGE_SHIFT H) 1 \<and>
     ADDR_TO_PN H = drop_bit (PAGE_SHIFT H) \<and> PN_TO_ADDR H = push_bit (PAGE_SHIFT H) \<and>
     PAGE_OFFSET H = take_bit (PAGE_SHIFT H) \<and>
     PAGE_ALIGNED H = (\<lambda>a. take_bit (PAGE_SHIFT H) a = 0) \<and>
     PAGE_ALIGN_DOWN H = (\<lambda>a. a - take_bit (PAGE_SHIFT H) a) \<and>
     PAGE_ALIGN_UP H = (\<lambda>a. a + (PAGE_SIZE H - 1) - take_bit (PAGE_SHIFT H) (a + (PAGE_SIZE H - 1)))"

text \<open>The user part of the address space, in pages.\<close>

abbreviation lo_pn :: "hdr \<Rightarrow> u32" where "lo_pn H \<equiv> ADDR_TO_PN H (USER_MEM_LOW H)"
abbreviation hi_pn :: "hdr \<Rightarrow> u32" where "hi_pn H \<equiv> ADDR_TO_PN H (USER_MEM_HIGH H)"

definition user_ok :: "hdr \<Rightarrow> bool" where
  "user_ok H \<longleftrightarrow> page_ok H \<and> USER_MEM_LOW H < USER_MEM_HIGH H \<and>
     PAGE_ALIGNED H (USER_MEM_LOW H) \<and> PAGE_ALIGNED H (USER_MEM_HIGH H) \<and> 0 < lo_pn H"

subsection \<open>Structures\<close>

datatype proc_state = PROC_RUNNING | PROC_DEAD

record proc =
  p_pid :: int
  p_comm :: string
  p_threads :: "tid list"
  p_children :: "paddr list"
  p_pproc :: "paddr option"
  p_status :: int
  p_state :: proc_state
  p_pagedir :: "nat option"
  p_files :: "faddr option list"
  p_cwd :: "vaddr option"
  p_brk :: u32
  p_start_brk :: u32
  p_vmmap :: "vmapaddr option"

record vmarea =
  vma_start :: u32
  vma_end :: u32
  vma_off :: u32
  vma_prot :: u32
  vma_flags :: u32
  vma_vmmap :: "vmapaddr option"
  vma_obj :: "oaddr option"

record vmmap =
  vmm_list :: "vmaddr list"
  vmm_proc :: "paddr option"

text \<open>The operations table of a memory object, and the union \<open>mmo_un\<close>.\<close>

datatype mmobj_ops = Anon_mmobj_ops | Shadow_mmobj_ops | Vnode_mmobj_ops

datatype mmo_union = Mmo_vmas (un_vmas: "vmaddr list") | Mmo_bottom_obj (un_bottom: "oaddr option")

record mmobj =
  mmo_ops :: mmobj_ops
  mmo_refcount :: int
  mmo_nrespages :: int
  mmo_respages :: "pfaddr list"
  mmo_shadowed :: "oaddr option"
  mmo_un :: mmo_union

text \<open>\<open>pf_busy\<close> and \<open>pf_dirty\<close> are the flag bits that \<open>pframe_is_busy\<close>, \<open>pframe_set_busy\<close> and so on name.\<close>

record pframe =
  pf_addr :: "nat option"
  pf_obj :: "oaddr option"
  pf_pagenum :: u32
  pf_busy :: bool
  pf_dirty :: bool
  pf_pincount :: int

record file_t =
  f_pos :: int
  f_mode :: u32
  f_refcount :: int
  f_vnode :: "vaddr option"

datatype vnode_ops = Bytedev_spec_vops | Blockdev_spec_vops | Fs_vops nat

record vnode =
  vn_ops :: vnode_ops
  vn_mode :: u32
  vn_refcount :: int
  vn_len :: int
  vn_devid :: u32
  vn_cdev :: "nat option"
  vn_bdev :: "nat option"
  vn_fs_root :: "vaddr option"   \<comment> \<open>\<open>vn_fs->fs_root\<close>\<close>

text \<open>Calls of the page-table and TLB code, which the model records in their order.\<close>

datatype hw_call =
    Tlb_flush "nat option"
  | Tlb_flush_user u32
  | Tlb_flush_all
  | Pt_map "nat option" u32 nat u32 u32
  | Pt_unmap "nat option" u32
  | Pt_unmap_range "nat option" u32 u32
  | Pt_destroy_pagedir nat

record kernel = ksync +
  procs :: "paddr \<Rightarrow> proc"
  proc_list :: "paddr list"
  next_pid :: int
  proc_initproc :: "paddr option"
  vmmaps :: "vmapaddr \<Rightarrow> vmmap"
  vmareas :: "vmaddr \<Rightarrow> vmarea"
  mmobjs :: "oaddr \<Rightarrow> mmobj"
  pframes :: "pfaddr \<Rightarrow> pframe"
  npinned :: int
  pinned_list :: "pfaddr list"
  nallocated :: int
  alloc_list :: "pfaddr list"
  pframe_hash :: "nat \<Rightarrow> pfaddr list"
  phys :: "nat \<Rightarrow> nat \<Rightarrow> 8 word"      \<comment> \<open>contents of the page at an address, by offset\<close>
  hw :: "hw_call list"
  slab :: "nat option list"            \<comment> \<open>the next answers of \<open>slab_obj_alloc\<close>\<close>
  pages :: "nat option list"           \<comment> \<open>the next answers of \<open>page_alloc\<close>\<close>
  live :: "nat set"                    \<comment> \<open>structures and pages now allocated\<close>
  nfreepages_min :: u32
  nfreepages_target :: u32
  pageoutd :: "paddr option"
  pageoutd_thr :: "tid option"
  files :: "faddr \<Rightarrow> file_t"
  vnodes :: "vaddr \<Rightarrow> vnode"
  vfs_root_vn :: "vaddr option"

subsection \<open>Code outside the repository\<close>

type_synonym 'a call = "kernel \<Rightarrow> ('a \<times> kernel) option"
type_synonym proc_call = "kernel \<Rightarrow> kernel option"

record ext =
  w_irqs :: "kernel \<Rightarrow> (kernel \<Rightarrow> kernel) list"
  w_resume :: proc_call
  mmobj_init :: "mmobj_ops \<Rightarrow> mmobj"
  mmobj_bottom_obj :: "oaddr \<Rightarrow> mmobj \<Rightarrow> oaddr option"
  pframe_is_pinned :: "pframe \<Rightarrow> bool"
  pframe_is_free :: "pframe \<Rightarrow> bool"
  vno_ref :: "oaddr \<Rightarrow> proc_call"
  vno_put :: "oaddr \<Rightarrow> proc_call"
  vno_lookuppage :: "oaddr \<Rightarrow> u32 \<Rightarrow> bool \<Rightarrow> (int \<times> pfaddr option) call"
  vno_fillpage :: "oaddr \<Rightarrow> pfaddr \<Rightarrow> int call"
  vno_dirtypage :: "oaddr \<Rightarrow> pfaddr \<Rightarrow> int call"
  vno_cleanpage :: "oaddr \<Rightarrow> pfaddr \<Rightarrow> int call"
  page_free_count :: "kernel \<Rightarrow> u32"
  pt_create_pagedir :: "nat option call"
  pt_virt_to_phys :: "nat \<Rightarrow> nat"
  fget :: "int \<Rightarrow> faddr option call"
  fref :: "faddr \<Rightarrow> proc_call"
  fput :: "faddr \<Rightarrow> proc_call"
  vref :: "vaddr \<Rightarrow> proc_call"
  vput :: "vaddr \<Rightarrow> proc_call"
  fs_read :: "nat \<Rightarrow> (vaddr \<Rightarrow> int \<Rightarrow> nat \<Rightarrow> (int \<times> 8 word list) call) option"
  fs_write :: "nat \<Rightarrow> (vaddr \<Rightarrow> int \<Rightarrow> 8 word list \<Rightarrow> int call) option"
  fs_mmap :: "nat \<Rightarrow> (vaddr \<Rightarrow> vmaddr \<Rightarrow> (int \<times> oaddr option) call) option"
  fs_create :: "nat \<Rightarrow> (vaddr \<Rightarrow> string \<Rightarrow> (int \<times> vaddr option) call) option"
  fs_mknod :: "nat \<Rightarrow> (vaddr \<Rightarrow> string \<Rightarrow> u32 \<Rightarrow> u32 \<Rightarrow> int call) option"
  fs_lookup :: "nat \<Rightarrow> (vaddr \<Rightarrow> string \<Rightarrow> (int \<times> vaddr option) call) option"
  fs_link :: "nat \<Rightarrow> (vaddr \<Rightarrow> vaddr \<Rightarrow> string \<Rightarrow> int call) option"
  fs_unlink :: "nat \<Rightarrow> (vaddr \<Rightarrow> string \<Rightarrow> int call) option"
  fs_mkdir :: "nat \<Rightarrow> (vaddr \<Rightarrow> string \<Rightarrow> int call) option"
  fs_rmdir :: "nat \<Rightarrow> (vaddr \<Rightarrow> string \<Rightarrow> int call) option"
  fs_readdir :: "nat \<Rightarrow> (vaddr \<Rightarrow> int \<Rightarrow> int call) option"
  fs_stat :: "nat \<Rightarrow> (vaddr \<Rightarrow> int call) option"
  bytedev_lookup :: "u32 \<Rightarrow> nat option"
  blockdev_lookup :: "u32 \<Rightarrow> nat option"
  cd_read :: "nat \<Rightarrow> (nat \<Rightarrow> int \<Rightarrow> nat \<Rightarrow> (int \<times> 8 word list) call) option"
  cd_write :: "nat \<Rightarrow> (nat \<Rightarrow> int \<Rightarrow> 8 word list \<Rightarrow> int call) option"
  cd_mmap :: "nat \<Rightarrow> (vaddr \<Rightarrow> vmaddr \<Rightarrow> (int \<times> oaddr option) call) option"

text \<open>
  The documented behaviour of \<open>mm/mmobj.h\<close> and \<open>mm/pframe.h\<close>: a new object has no reference, no
  resident page, nothing below it and no area; the bottom object of an object that shadows another
  is the one its union names, of any other object itself; a page is pinned while its pin count is
  positive and free when it belongs to no object.
\<close>

definition mm_api_ok :: "ext \<Rightarrow> bool" where
  "mm_api_ok X \<longleftrightarrow>
     (\<forall>k. mmobj_init X k = \<lparr>mmo_ops = k, mmo_refcount = 0, mmo_nrespages = 0, mmo_respages = [],
                            mmo_shadowed = None, mmo_un = Mmo_vmas []\<rparr>) \<and>
     (\<forall>ob m. mmobj_bottom_obj X ob m =
        (if mmo_shadowed m \<noteq> None then (case mmo_un m of Mmo_bottom_obj b \<Rightarrow> b | _ \<Rightarrow> None) else Some ob)) \<and>
     (\<forall>f. pframe_is_pinned X f = (0 < pf_pincount f)) \<and>
     (\<forall>f. pframe_is_free X f = (pf_obj f = None))"

lemma mm_api_simps:
  assumes "mm_api_ok X"
  shows "mmobj_init X k = \<lparr>mmo_ops = k, mmo_refcount = 0, mmo_nrespages = 0, mmo_respages = [],
                            mmo_shadowed = None, mmo_un = Mmo_vmas []\<rparr>"
    and "mmobj_bottom_obj X ob m =
        (if mmo_shadowed m \<noteq> None then (case mmo_un m of Mmo_bottom_obj b \<Rightarrow> b | _ \<Rightarrow> None) else Some ob)"
    and "pframe_is_pinned X f = (0 < pf_pincount f)"
    and "pframe_is_free X f = (pf_obj f = None)"
  using assms by (simp_all add: mm_api_ok_def)

subsection \<open>Allocation and sleeping\<close>

definition slab_obj_alloc :: "nat option call" where
  "slab_obj_alloc s = (case slab s of
     [] \<Rightarrow> None
   | None # as \<Rightarrow> Some (None, s\<lparr>slab := as\<rparr>)
   | Some a # as \<Rightarrow> Some (Some a, s\<lparr>slab := as, live := insert a (live s)\<rparr>))"

definition slab_obj_free :: "nat \<Rightarrow> kernel \<Rightarrow> kernel" where
  "slab_obj_free a s = s\<lparr>live := live s - {a}\<rparr>"

definition page_alloc :: "nat option call" where
  "page_alloc s = (case pages s of
     [] \<Rightarrow> None
   | None # as \<Rightarrow> Some (None, s\<lparr>pages := as\<rparr>)
   | Some a # as \<Rightarrow> Some (Some a, s\<lparr>pages := as, live := insert a (live s)\<rparr>))"

definition page_free :: "nat \<Rightarrow> kernel \<Rightarrow> kernel" where
  "page_free a s = s\<lparr>live := live s - {a}\<rparr>"

text \<open>
  A sleep as its caller sees it: the caller goes to sleep, the others run, and the call returns when
  the caller runs again.
\<close>

definition sleep_on :: "ext \<Rightarrow> qaddr \<Rightarrow> proc_call" where
  "sleep_on X q s = do {
     s \<leftarrow> sched_sleep_on (w_irqs X s) q s;
     w_resume X s }"

definition log_hw :: "hw_call \<Rightarrow> kernel \<Rightarrow> kernel" where
  "log_hw c s = s\<lparr>hw := hw s @ [c]\<rparr>"

text \<open>Writing fields through a pointer.\<close>

definition upd_proc :: "paddr \<Rightarrow> (proc \<Rightarrow> proc) \<Rightarrow> kernel \<Rightarrow> kernel" where
  "upd_proc p f s = s\<lparr>procs := (procs s)(p := f (procs s p))\<rparr>"

definition upd_vmarea :: "vmaddr \<Rightarrow> (vmarea \<Rightarrow> vmarea) \<Rightarrow> kernel \<Rightarrow> kernel" where
  "upd_vmarea a f s = s\<lparr>vmareas := (vmareas s)(a := f (vmareas s a))\<rparr>"

definition upd_vmmap :: "vmapaddr \<Rightarrow> (vmmap \<Rightarrow> vmmap) \<Rightarrow> kernel \<Rightarrow> kernel" where
  "upd_vmmap a f s = s\<lparr>vmmaps := (vmmaps s)(a := f (vmmaps s a))\<rparr>"

definition upd_mmobj :: "oaddr \<Rightarrow> (mmobj \<Rightarrow> mmobj) \<Rightarrow> kernel \<Rightarrow> kernel" where
  "upd_mmobj a f s = s\<lparr>mmobjs := (mmobjs s)(a := f (mmobjs s a))\<rparr>"

definition upd_pframe :: "pfaddr \<Rightarrow> (pframe \<Rightarrow> pframe) \<Rightarrow> kernel \<Rightarrow> kernel" where
  "upd_pframe a f s = s\<lparr>pframes := (pframes s)(a := f (pframes s a))\<rparr>"

definition upd_file :: "faddr \<Rightarrow> (file_t \<Rightarrow> file_t) \<Rightarrow> kernel \<Rightarrow> kernel" where
  "upd_file a f s = s\<lparr>files := (files s)(a := f (files s a))\<rparr>"

definition upd_vnode :: "vaddr \<Rightarrow> (vnode \<Rightarrow> vnode) \<Rightarrow> kernel \<Rightarrow> kernel" where
  "upd_vnode a f s = s\<lparr>vnodes := (vnodes s)(a := f (vnodes s a))\<rparr>"

lemmas upd_defs = upd_proc_def upd_vmarea_def upd_vmmap_def upd_mmobj_def upd_pframe_def
  upd_file_def upd_vnode_def

lemma upd_simps:
  "vmareas (upd_vmarea a f s) = (vmareas s)(a := f (vmareas s a))" "vmmaps (upd_vmarea a f s) = vmmaps s"
  "vmmaps (upd_vmmap m g s) = (vmmaps s)(m := g (vmmaps s m))" "vmareas (upd_vmmap m g s) = vmareas s"
  by (simp_all add: upd_defs)

end
