(* ===== verification/Kernel_Examples.thy ===== *)
theory Kernel_Examples
  imports Kernel_State
begin

text \<open>
  Concrete instances of the parameters, for the examples that show the hypotheses of the properties
  can hold: the header constants of a 32-bit machine with 4 KB pages, an instance of the external
  functions with reference-counted files and vnodes, and an empty kernel.
\<close>

definition std_hdr :: hdr where
  "std_hdr = \<lparr>
     Err = std_errnos, PAGE_SHIFT = 12, PAGE_SIZE = 4096,
     ADDR_TO_PN = drop_bit 12, PN_TO_ADDR = push_bit 12, PAGE_OFFSET = take_bit 12,
     PAGE_ALIGNED = (\<lambda>a. take_bit 12 a = 0), PAGE_ALIGN_DOWN = (\<lambda>a. a - take_bit 12 a),
     PAGE_ALIGN_UP = (\<lambda>a. a + 4095 - take_bit 12 (a + 4095)),
     USER_MEM_LOW = 0x00400000, USER_MEM_HIGH = 0xC0000000,
     MAP_SHARED = 1, MAP_PRIVATE = 2, MAP_FIXED = 4, MAP_ANON = 8, MAP_TYPE = 3,
     PROT_READ = 1, PROT_WRITE = 2, PROT_EXEC = 4, FAULT_WRITE = 2, FAULT_EXEC = 16,
     PD_USER_FLAGS = 5, PD_WRITE = 2, PT_USER_FLAGS = 5, PT_WRITE = 2,
     PF_HASH_SIZE = 17, DEFAULT_STACK_SIZE = 57344,
     PID_IDLE = 0, PID_INIT = 1, PROC_MAX_COUNT = 65536, PROC_NAME_LEN = 256,
     NFILES = 32, NAME_LEN = 28,
     O_WRONLY = 1, O_RDWR = 2, O_RDONLY = 0, O_CREAT = 0x100, O_APPEND = 0x400,
     FMODE_READ = 1, FMODE_WRITE = 2, FMODE_APPEND = 4, SEEK_SET = 0, SEEK_CUR = 1, SEEK_END = 2,
     S_ISDIR = (\<lambda>m. m AND 0xF000 = 0x4000), S_ISREG = (\<lambda>m. m AND 0xF000 = 0x8000),
     S_ISCHR = (\<lambda>m. m AND 0xF000 = 0x2000), S_ISBLK = (\<lambda>m. m AND 0xF000 = 0x6000),
     sizeof_dirent = 36, VMMAP_DIR_HILO = 2\<rparr>"

lemma std_hdr_page_ok [simp]: "page_ok std_hdr"
  by (simp add: page_ok_def std_hdr_def fun_eq_iff)

lemma std_hdr_lo_pn [simp]: "drop_bit 12 (0x00400000 :: u32) = 0x400"
  by simp

lemma std_hdr_hi_pn [simp]: "drop_bit 12 (0xC0000000 :: u32) = 0xC0000"
  by simp

definition blank_proc :: proc where
  "blank_proc = \<lparr>p_pid = 0, p_comm = [], p_threads = [], p_children = [], p_pproc = None, p_status = 0,
     p_state = PROC_RUNNING, p_pagedir = None, p_files = replicate 32 None, p_cwd = None, p_brk = 0,
     p_start_brk = 0, p_vmmap = None\<rparr>"

definition blank_vmarea :: vmarea where
  "blank_vmarea = \<lparr>vma_start = 0, vma_end = 0, vma_off = 0, vma_prot = 0, vma_flags = 0,
     vma_vmmap = None, vma_obj = None\<rparr>"

definition blank_mmobj :: mmobj where
  "blank_mmobj = \<lparr>mmo_ops = Anon_mmobj_ops, mmo_refcount = 0, mmo_nrespages = 0, mmo_respages = [],
     mmo_shadowed = None, mmo_un = Mmo_vmas []\<rparr>"

definition blank_pframe :: pframe where
  "blank_pframe = \<lparr>pf_addr = None, pf_obj = None, pf_pagenum = 0, pf_busy = False, pf_dirty = False,
     pf_pincount = 0\<rparr>"

definition boot :: kernel where
  "boot = \<lparr>
     threads = [1 \<mapsto> \<lparr>kt_state = KT_RUN, kt_wchan = None, kt_cancelled = False, kt_retval = 0,
                      kt_errno = 0, kt_proc = Some 10, kt_kstack = Some 0\<rparr>],
     queues = (\<lambda>_. \<lparr>tq_list = [], tq_size = 0\<rparr>), curthr = Some 1, curproc = Some 10,
     ipl = IPL_LOW, intr_on = True, mutexes = (\<lambda>_. \<lparr>km_holder = None\<rparr>),
     procs = (\<lambda>_. blank_proc), proc_list = [], next_pid = 0, proc_initproc = None,
     vmmaps = (\<lambda>_. \<lparr>vmm_list = [], vmm_proc = None\<rparr>), vmareas = (\<lambda>_. blank_vmarea),
     mmobjs = (\<lambda>_. blank_mmobj), pframes = (\<lambda>_. blank_pframe),
     npinned = 0, pinned_list = [], nallocated = 0, alloc_list = [], pframe_hash = (\<lambda>_. []),
     phys = (\<lambda>_ _. 0), hw = [], slab = [], pages = [], live = {},
     nfreepages_min = 0, nfreepages_target = 0, pageoutd = None, pageoutd_thr = None,
     files = (\<lambda>_. \<lparr>f_pos = 0, f_mode = 0, f_refcount = 0, f_vnode = None\<rparr>),
     vnodes = (\<lambda>_. \<lparr>vn_ops = Fs_vops 0, vn_mode = 0, vn_refcount = 0, vn_len = 0, vn_devid = 0,
                   vn_cdev = None, vn_bdev = None, vn_fs_root = None\<rparr>),
     vfs_root_vn = None\<rparr>"

definition std_ext :: ext where
  "std_ext = \<lparr>
     w_irqs = (\<lambda>_. []), w_resume = Some,
     mmobj_init = (\<lambda>k. \<lparr>mmo_ops = k, mmo_refcount = 0, mmo_nrespages = 0, mmo_respages = [],
                       mmo_shadowed = None, mmo_un = Mmo_vmas []\<rparr>),
     mmobj_bottom_obj = (\<lambda>ob m. if mmo_shadowed m \<noteq> None
        then (case mmo_un m of Mmo_bottom_obj b \<Rightarrow> b | _ \<Rightarrow> None) else Some ob),
     pframe_is_pinned = (\<lambda>f. 0 < pf_pincount f), pframe_is_free = (\<lambda>f. pf_obj f = None),
     vno_ref = (\<lambda>ob s. Some (upd_mmobj ob (\<lambda>m. m\<lparr>mmo_refcount := mmo_refcount m + 1\<rparr>) s)),
     vno_put = (\<lambda>ob s. Some (upd_mmobj ob (\<lambda>m. m\<lparr>mmo_refcount := mmo_refcount m - 1\<rparr>) s)),
     vno_lookuppage = (\<lambda>_ _ _ _. None), vno_fillpage = (\<lambda>_ _ _. None),
     vno_dirtypage = (\<lambda>_ _ s. Some (0, s)), vno_cleanpage = (\<lambda>_ _ s. Some (0, s)),
     page_free_count = (\<lambda>_. 0), pt_create_pagedir = (\<lambda>s. Some (Some 0, s)), pt_virt_to_phys = (\<lambda>a. a),
     fget = (\<lambda>fd s. if fd < 0 then Some (None, s) else
        (case curproc s of
           None \<Rightarrow> None
         | Some p \<Rightarrow>
            (if nat fd < length (p_files (procs s p))
             then (case p_files (procs s p) ! nat fd of
                     None \<Rightarrow> Some (None, s)
                   | Some f \<Rightarrow> Some (Some f, upd_file f (\<lambda>x. x\<lparr>f_refcount := f_refcount x + 1\<rparr>) s))
             else Some (None, s)))),
     fref = (\<lambda>f s. Some (upd_file f (\<lambda>x. x\<lparr>f_refcount := f_refcount x + 1\<rparr>) s)),
     fput = (\<lambda>f s. Some (upd_file f (\<lambda>x. x\<lparr>f_refcount := f_refcount x - 1\<rparr>) s)),
     vref = (\<lambda>v s. Some (upd_vnode v (\<lambda>x. x\<lparr>vn_refcount := vn_refcount x + 1\<rparr>) s)),
     vput = (\<lambda>v s. Some (upd_vnode v (\<lambda>x. x\<lparr>vn_refcount := vn_refcount x - 1\<rparr>) s)),
     fs_read = (\<lambda>_. None), fs_write = (\<lambda>_. None), fs_mmap = (\<lambda>_. None), fs_create = (\<lambda>_. None),
     fs_mknod = (\<lambda>_. None), fs_lookup = (\<lambda>_. None), fs_link = (\<lambda>_. None), fs_unlink = (\<lambda>_. None),
     fs_mkdir = (\<lambda>_. None), fs_rmdir = (\<lambda>_. None), fs_readdir = (\<lambda>_. None), fs_stat = (\<lambda>_. None),
     bytedev_lookup = (\<lambda>_. None), blockdev_lookup = (\<lambda>_. None), cd_read = (\<lambda>_. None),
     cd_write = (\<lambda>_. None), cd_mmap = (\<lambda>_. None)\<rparr>"

lemma std_ext_mm_api_ok [simp]: "mm_api_ok std_ext"
  by (simp add: mm_api_ok_def std_ext_def)

end
