(* ===== verification/Vmmap.thy ===== *)
theory Vmmap
  imports Kernel_Examples
begin

text \<open>
  The address space of a process as a list of areas (\<open>kernel/vm/vmmap.c\<close>): creating, inserting,
  searching and cloning. An area maps the pages from \<open>vma_start\<close> up to but not including \<open>vma_end\<close>.
  The operations that also touch memory objects are in \<open>Vmmap_Ops\<close>.

  The abstract view of an address space is its lookup function, from page numbers to areas.
\<close>

subsection \<open>Operations\<close>

definition vmarea_alloc :: "vmaddr option call" where
  "vmarea_alloc s = do {
     (newvma, s) \<leftarrow> slab_obj_alloc s;
     (case newvma of
        Some a \<Rightarrow> Some (Some a, upd_vmarea a (\<lambda>v. v\<lparr>vma_vmmap := None\<rparr>) s)
      | None \<Rightarrow> Some (None, s)) }"

definition vmmap_create :: "vmapaddr call" where
  "vmmap_create s = do {
     (mp, s) \<leftarrow> slab_obj_alloc s;
     mp \<leftarrow> mp;
     Some (mp, upd_vmmap mp (\<lambda>_. \<lparr>vmm_list = [], vmm_proc = None\<rparr>) s) }"

text \<open>The scan of \<open>vmmap_insert\<close> for the place of the new area.\<close>

fun vmmap_insert_loop :: "(vmaddr \<Rightarrow> vmarea) \<Rightarrow> vmaddr \<Rightarrow> vmaddr list \<Rightarrow> vmaddr list" where
  "vmmap_insert_loop h newvma [] = [newvma]"
| "vmmap_insert_loop h newvma (vma # vmas) =
     (if vma_start (h vma) \<ge> vma_end (h newvma) then newvma # vma # vmas
      else vma # vmmap_insert_loop h newvma vmas)"

definition vmmap_insert :: "hdr \<Rightarrow> vmapaddr \<Rightarrow> vmaddr \<Rightarrow> proc_call" where
  "vmmap_insert H mp newvma s = do {
     KASSERT (vma_vmmap (vmareas s newvma) = None);
     KASSERT (vma_start (vmareas s newvma) < vma_end (vmareas s newvma));
     KASSERT (lo_pn H \<le> vma_start (vmareas s newvma) \<and> hi_pn H \<ge> vma_end (vmareas s newvma));
     let l = vmmap_insert_loop (vmareas s) newvma (vmm_list (vmmaps s mp));
     let s = upd_vmarea newvma (\<lambda>v. v\<lparr>vma_vmmap := Some mp\<rparr>) s;
     Some (upd_vmmap mp (\<lambda>m. m\<lparr>vmm_list := l\<rparr>) s) }"

text \<open>
  The reverse scan of \<open>vmmap_find_range\<close>; the pair \<open>record\<close>, \<open>result\<close> of the code is the option
  \<open>result\<close>. The argument \<open>dir\<close> of \<open>vmmap_find_range\<close> is not used, and with no area in the list
  \<open>list_head\<close> yields a pointer that is not an area.
\<close>

fun find_range_loop :: "(vmaddr \<Rightarrow> vmarea) \<Rightarrow> u32 \<Rightarrow> u32 option \<Rightarrow> u32 \<Rightarrow> vmaddr list \<Rightarrow> u32 option" where
  "find_range_loop h npages result pre_start [] = result"
| "find_range_loop h npages result pre_start (tmp # tmps) =
     find_range_loop h npages
       (if result = None \<and> pre_start - vma_end (h tmp) \<ge> npages then Some (pre_start - npages) else result)
       (vma_start (h tmp)) tmps"

definition vmmap_find_range :: "hdr \<Rightarrow> vmapaddr \<Rightarrow> u32 \<Rightarrow> int \<Rightarrow> kernel \<Rightarrow> int option" where
  "vmmap_find_range H mp npages dir s = (let h = vmareas s; l = vmm_list (vmmaps s mp) in
     case find_range_loop h npages None (hi_pn H) (rev l) of
       Some result \<Rightarrow> Some (sint result)
     | None \<Rightarrow>
        (case l of
           [] \<Rightarrow> None
         | head_vma # _ \<Rightarrow>
            (if vma_start (h head_vma) - lo_pn H \<ge> npages
             then Some (sint (vma_start (h head_vma) - npages))
             else Some (- 1))))"

fun vmmap_lookup_loop :: "(vmaddr \<Rightarrow> vmarea) \<Rightarrow> u32 \<Rightarrow> vmaddr option \<Rightarrow> vmaddr list \<Rightarrow> vmaddr option" where
  "vmmap_lookup_loop h vfn vma_recorded [] = vma_recorded"
| "vmmap_lookup_loop h vfn vma_recorded (vma # vmas) =
     vmmap_lookup_loop h vfn
       (if vma_recorded = None \<and> vma_start (h vma) \<le> vfn \<and> vma_end (h vma) > vfn then Some vma else vma_recorded)
       vmas"

definition vmmap_lookup :: "vmapaddr \<Rightarrow> u32 \<Rightarrow> kernel \<Rightarrow> vmaddr option" where
  "vmmap_lookup mp vfn s = vmmap_lookup_loop (vmareas s) vfn None (vmm_list (vmmaps s mp))"

fun vmmap_clone_loop :: "vmapaddr \<Rightarrow> vmaddr list \<Rightarrow> proc_call" where
  "vmmap_clone_loop newmap [] s = Some s"
| "vmmap_clone_loop newmap (tmp # tmps) s = do {
     (newobj, s) \<leftarrow> vmarea_alloc s;
     newobj \<leftarrow> newobj;
     let t = vmareas s tmp;
     let s = upd_vmarea newobj (\<lambda>v. v\<lparr>vma_obj := None, vma_start := vma_start t, vma_end := vma_end t,
                vma_off := vma_off t, vma_flags := vma_flags t, vma_prot := vma_prot t,
                vma_vmmap := Some newmap\<rparr>) s;
     let s = upd_vmmap newmap (\<lambda>m. m\<lparr>vmm_list := vmm_list m @ [newobj]\<rparr>) s;
     vmmap_clone_loop newmap tmps s }"

definition vmmap_clone :: "vmapaddr \<Rightarrow> vmapaddr call" where
  "vmmap_clone mp s = do {
     (newmap, s) \<leftarrow> vmmap_create s;
     let s = upd_vmmap newmap (\<lambda>m. m\<lparr>vmm_list := [], vmm_proc := vmm_proc (vmmaps s mp)\<rparr>) s;
     s \<leftarrow> vmmap_clone_loop newmap (vmm_list (vmmaps s mp)) s;
     Some (newmap, s) }"

fun vmmap_is_range_empty_loop :: "(vmaddr \<Rightarrow> vmarea) \<Rightarrow> u32 \<Rightarrow> u32 \<Rightarrow> int \<Rightarrow> vmaddr list \<Rightarrow> int" where
  "vmmap_is_range_empty_loop h startvfn npages record [] = record"
| "vmmap_is_range_empty_loop h startvfn npages record (tmp # tmps) =
     vmmap_is_range_empty_loop h startvfn npages
       (if vma_start (h tmp) < startvfn + npages \<and> vma_end (h tmp) > startvfn then 0 else record) tmps"

definition vmmap_is_range_empty :: "hdr \<Rightarrow> vmapaddr \<Rightarrow> u32 \<Rightarrow> u32 \<Rightarrow> kernel \<Rightarrow> int option" where
  "vmmap_is_range_empty H mp startvfn npages s = do {
     let endvfn = startvfn + npages;
     KASSERT (startvfn < endvfn \<and> lo_pn H \<le> startvfn \<and> hi_pn H \<ge> endvfn);
     Some (vmmap_is_range_empty_loop (vmareas s) startvfn npages 1 (vmm_list (vmmaps s mp))) }"

subsection \<open>Well-formed address spaces\<close>

text \<open>\<open>covers\<close>: the page lies in the area. \<open>areas_ok\<close>: the areas are not empty, in ascending order,
  disjoint, and between the two bounds.\<close>

definition covers :: "vmarea \<Rightarrow> u32 \<Rightarrow> bool" where
  "covers v p \<longleftrightarrow> vma_start v \<le> p \<and> p < vma_end v"

fun areas_ok :: "(vmaddr \<Rightarrow> vmarea) \<Rightarrow> u32 \<Rightarrow> u32 \<Rightarrow> vmaddr list \<Rightarrow> bool" where
  "areas_ok h lo hi [] \<longleftrightarrow> lo \<le> hi"
| "areas_ok h lo hi (a # l) \<longleftrightarrow>
     lo \<le> vma_start (h a) \<and> vma_start (h a) < vma_end (h a) \<and> areas_ok h (vma_end (h a)) hi l"

lemma areas_ok_le: "areas_ok h lo hi l \<Longrightarrow> lo \<le> hi"
  by (induction l arbitrary: lo) (auto dest: order.strict_implies_order order.trans)

lemma areas_ok_mem:
  "areas_ok h lo hi l \<Longrightarrow> a \<in> set l \<Longrightarrow> lo \<le> vma_start (h a) \<and> vma_start (h a) < vma_end (h a) \<and> vma_end (h a) \<le> hi"
proof (induction l arbitrary: lo)
  case (Cons b l)
  show ?case
  proof (cases "a = b")
    case True
    then show ?thesis using Cons.prems(1) areas_ok_le by fastforce
  next
    case False
    then have "vma_end (h b) \<le> vma_start (h a) \<and> vma_start (h a) < vma_end (h a) \<and> vma_end (h a) \<le> hi"
      using Cons by auto
    then show ?thesis using Cons.prems(1) by auto
  qed
qed simp

lemma areas_ok_mono: "areas_ok h lo hi l \<Longrightarrow> lo' \<le> lo \<Longrightarrow> areas_ok h lo' hi l"
  by (cases l) auto

lemma areas_ok_mono_hi: "areas_ok h lo hi l \<Longrightarrow> hi \<le> hi' \<Longrightarrow> areas_ok h lo hi' l"
  by (induction l arbitrary: lo) auto

lemma areas_ok_append:
  "areas_ok h lo hi (l @ m) \<longleftrightarrow> (\<exists>mid. areas_ok h lo mid l \<and> areas_ok h mid hi m)"
proof (induction l arbitrary: lo)
  case Nil
  then show ?case using areas_ok_mono by auto
qed auto

lemma areas_ok_cong: "(\<And>a. a \<in> set l \<Longrightarrow> vma_start (h a) = vma_start (h' a) \<and> vma_end (h a) = vma_end (h' a)) \<Longrightarrow>
   areas_ok h lo hi l = areas_ok h' lo hi l"
  by (induction l arbitrary: lo) auto

definition vmmap_wf :: "hdr \<Rightarrow> vmapaddr \<Rightarrow> kernel \<Rightarrow> bool" where
  "vmmap_wf H m s \<longleftrightarrow> distinct (vmm_list (vmmaps s m)) \<and>
     areas_ok (vmareas s) (lo_pn H) (hi_pn H) (vmm_list (vmmaps s m)) \<and>
     (\<forall>a\<in>set (vmm_list (vmmaps s m)). vma_vmmap (vmareas s a) = Some m)"

subsection \<open>Looking up\<close>

lemma lookup_loop_Some [simp]: "vmmap_lookup_loop h p (Some a) l = Some a"
  by (induction l) auto

lemma lookup_loop_find: "vmmap_lookup_loop h p None l = List.find (\<lambda>a. covers (h a) p) l"
  by (induction l) (auto simp: covers_def)

lemma areas_ok_unique:
  "areas_ok h lo hi l \<Longrightarrow> a \<in> set l \<Longrightarrow> b \<in> set l \<Longrightarrow> covers (h a) p \<Longrightarrow> covers (h b) p \<Longrightarrow> a = b"
proof (induction l arbitrary: lo)
  case (Cons c l)
  have *: False if "x \<in> set l" "covers (h x) p" "covers (h c) p" for x
  proof -
    have "vma_end (h c) \<le> vma_start (h x)" using Cons.prems(1) that(1) areas_ok_mem by fastforce
    then show False using that(2,3) by (auto simp: covers_def)
  qed
  then show ?case using Cons by auto
qed simp

lemma vmmap_lookup_Some_iff:
  assumes "vmmap_wf H m s"
  shows "vmmap_lookup m p s = Some a \<longleftrightarrow> a \<in> set (vmm_list (vmmaps s m)) \<and> covers (vmareas s a) p"
proof -
  have "areas_ok (vmareas s) (lo_pn H) (hi_pn H) (vmm_list (vmmaps s m))"
    using assms by (simp add: vmmap_wf_def)
  from find_unique [of _ "\<lambda>a. covers (vmareas s a) p", OF areas_ok_unique [OF this]] show ?thesis
    by (simp add: vmmap_lookup_def lookup_loop_find)
qed

lemma vmmap_lookup_None_iff:
  "vmmap_lookup m p s = None \<longleftrightarrow> (\<forall>a\<in>set (vmm_list (vmmaps s m)). \<not> covers (vmareas s a) p)"
  by (auto simp: vmmap_lookup_def lookup_loop_find find_None_iff)

subsection \<open>Inserting\<close>

lemma set_insert_loop [simp]: "set (vmmap_insert_loop h a l) = insert a (set l)"
  by (induction l) auto

lemma distinct_insert_loop [simp]: "distinct (vmmap_insert_loop h a l) \<longleftrightarrow> a \<notin> set l \<and> distinct l"
  by (induction l) auto

definition disjoint :: "vmarea \<Rightarrow> vmarea \<Rightarrow> bool" where
  "disjoint v w \<longleftrightarrow> vma_end v \<le> vma_start w \<or> vma_end w \<le> vma_start v"

lemma areas_ok_insert_loop:
  assumes "areas_ok h lo hi l" and "lo \<le> vma_start (h a)" and "vma_start (h a) < vma_end (h a)" and "vma_end (h a) \<le> hi"
    and "\<forall>b\<in>set l. disjoint (h b) (h a)"
  shows "areas_ok h lo hi (vmmap_insert_loop h a l)"
  using assms
proof (induction l arbitrary: lo)
  case (Cons b l)
  show ?case
  proof (cases "vma_end (h a) \<le> vma_start (h b)")
    case True
    then show ?thesis using Cons.prems by auto
  next
    case False
    then have "vma_end (h b) \<le> vma_start (h a)" using Cons.prems(5) by (auto simp: disjoint_def)
    then show ?thesis using Cons False by auto
  qed
qed auto

subsection \<open>Searching for free ranges\<close>
lemma is_range_empty_loop_eq:
  "vmmap_is_range_empty_loop h st n r l =
    (if \<exists>a\<in>set l. vma_start (h a) < st + n \<and> vma_end (h a) > st then 0 else r)"
  by (induction l arbitrary: r) auto

lemma find_range_loop_Some [simp]: "find_range_loop h n (Some r) pre l = Some r"
  by (induction l arbitrary: pre) auto

definition fits :: "(vmaddr \<Rightarrow> vmarea) \<Rightarrow> vmaddr list \<Rightarrow> u32 \<Rightarrow> u32 \<Rightarrow> nat \<Rightarrow> bool" where
  "fits h l pre n r \<longleftrightarrow> r + unat n \<le> unat pre \<and>
     (\<forall>a\<in>set l. r + unat n \<le> unat (vma_start (h a)) \<or> unat (vma_end (h a)) \<le> r)"

lemma find_range_loop_rev:
  assumes "areas_ok h lo pre l" and "0 < n"
  shows "(case find_range_loop h n None pre (rev l) of
     Some r \<Rightarrow> unat lo \<le> unat r \<and> fits h l pre n (unat r) \<and> (\<forall>q. fits h l pre n q \<longrightarrow> q \<le> unat r)
   | None \<Rightarrow> \<forall>q. fits h l pre n q \<longrightarrow> q + unat n \<le> unat (case l of [] \<Rightarrow> pre | a # _ \<Rightarrow> vma_start (h a)))"
  using assms(1)
proof (induction l arbitrary: pre rule: rev_induct)
  case Nil
  then show ?case by (simp add: fits_def)
next
  case (snoc a l)
  let ?pa = "vma_start (h a)" let ?ea = "vma_end (h a)"
  have a: "areas_ok h lo ?pa l" "?pa < ?ea" "?ea \<le> pre" "lo \<le> ?ea"
    using snoc.prems areas_ok_mem [OF snoc.prems, of a]
    by (auto simp: areas_ok_append intro: areas_ok_mono_hi)
  have cond: "n \<le> pre - ?ea \<longleftrightarrow> unat ?ea + unat n \<le> unat pre"
    using a(3) by (simp add: word_le_nat_alt unat_sub add.commute le_diff_conv2)
  have nats: "unat ?pa < unat ?ea" "unat ?ea \<le> unat pre" "unat lo \<le> unat ?ea"
    using a by (simp_all add: word_less_nat_alt word_le_nat_alt)
  have below: "unat (vma_end (h b)) \<le> unat ?pa" if "b \<in> set l" for b
    using areas_ok_mem [OF a(1) that] by (simp add: word_le_nat_alt)
  show ?case
  proof (cases "n \<le> pre - ?ea")
    case True
    then have "n \<le> pre" using cond by (simp add: word_le_nat_alt)
    then have un: "unat (pre - n) = unat pre - unat n" by (simp add: unat_sub)
    moreover have "fits h (l @ [a]) pre n (unat pre - unat n)"
      using True cond nats below by (fastforce simp: fits_def)
    moreover have "unat lo \<le> unat pre - unat n" "\<And>q. fits h (l @ [a]) pre n q \<Longrightarrow> q \<le> unat pre - unat n"
      using True cond nats by (auto simp: fits_def)
    ultimately show ?thesis using True cond nats by auto
  next
    case False
    then have loop: "find_range_loop h n None pre (rev (l @ [a])) = find_range_loop h n None ?pa (rev l)" by simp
    have fr: "fits h (l @ [a]) pre n = fits h l ?pa n"
      using False cond nats by (auto simp: fits_def fun_eq_iff)
    have hd: "(case l @ [a] of [] \<Rightarrow> pre | x # _ \<Rightarrow> vma_start (h x)) = (case l of [] \<Rightarrow> ?pa | x # _ \<Rightarrow> vma_start (h x))"
      by (cases l) simp_all
    show ?thesis using snoc.IH [OF a(1)] by (simp only: loop fr hd)
  qed
qed

definition range_free :: "hdr \<Rightarrow> vmapaddr \<Rightarrow> u32 \<Rightarrow> nat \<Rightarrow> kernel \<Rightarrow> bool" where
  "range_free H m n q s \<longleftrightarrow> unat (lo_pn H) \<le> q \<and> fits (vmareas s) (vmm_list (vmmaps s m)) (hi_pn H) n q"

lemma pn_bound: "page_ok H \<Longrightarrow> unat (ADDR_TO_PN H a) < 2 ^ 31"
proof -
  assume H: "page_ok H"
  have "unat (ADDR_TO_PN H a) = unat a div 2 ^ PAGE_SHIFT H"
    using H by (simp add: page_ok_def unat_drop_bit_eq flip: drop_bit_eq_div)
  also have "\<dots> \<le> unat a div 2 ^ 1" using H by (intro div_le_mono2) (auto simp: page_ok_def self_le_power)
  also have "\<dots> < 2 ^ 31" by (rule less_mult_imp_div_less) (use unsigned_less [of a] in simp)
  finally show ?thesis .
qed

text \<open>An address space for the examples: areas 100 and 101 in map 7, and a third area not inserted yet.\<close>

definition two_areas :: kernel where
  "two_areas = boot\<lparr>
     vmmaps := (vmmaps boot)(7 := \<lparr>vmm_list = [100, 101], vmm_proc = Some 10\<rparr>),
     vmareas := (vmareas boot)(
       100 := blank_vmarea\<lparr>vma_start := 0x400, vma_end := 0x410, vma_vmmap := Some 7\<rparr>,
       101 := blank_vmarea\<lparr>vma_start := 0x500, vma_end := 0x600, vma_vmmap := Some 7\<rparr>,
       102 := blank_vmarea\<lparr>vma_start := 0x410, vma_end := 0x500\<rparr>),
     slab := [Some 8, Some 103, Some 104]\<rparr>"

lemma two_areas_wf: "vmmap_wf std_hdr 7 two_areas"
  by (simp add: vmmap_wf_def two_areas_def std_hdr_def blank_vmarea_def)



definition insertable :: "hdr \<Rightarrow> vmapaddr \<Rightarrow> vmaddr \<Rightarrow> kernel \<Rightarrow> bool" where
  "insertable H m a s \<longleftrightarrow> a \<notin> set (vmm_list (vmmaps s m)) \<and> vma_vmmap (vmareas s a) = None \<and>
     vma_start (vmareas s a) < vma_end (vmareas s a) \<and> lo_pn H \<le> vma_start (vmareas s a) \<and>
     vma_end (vmareas s a) \<le> hi_pn H \<and>
     (\<forall>b\<in>set (vmm_list (vmmaps s m)). disjoint (vmareas s b) (vmareas s a))"

text \<open>
  C10: \<open>vmmap_insert\<close> refines the update of the page map: inserting an area whose pages are free gives
  a well-formed address space in which the pages of the area belong to it and every other page to
  the area it had.
\<close>

theorem vmmap_insert_refines:
  assumes "vmmap_wf H m s" and "insertable H m a s"
  shows "\<exists>s'. vmmap_insert H m a s = Some s' \<and> vmmap_wf H m s' \<and>
     (\<forall>p. vmmap_lookup m p s' = (if covers (vmareas s a) p then Some a else vmmap_lookup m p s))"
proof -
  define s' where "s' = upd_vmmap m (\<lambda>v. v\<lparr>vmm_list := vmmap_insert_loop (vmareas s) a (vmm_list (vmmaps s m))\<rparr>)
      (upd_vmarea a (\<lambda>v. v\<lparr>vma_vmmap := Some m\<rparr>) s)"
  have ins: "vmmap_insert H m a s = Some s'"
    using assms(2) by (simp add: vmmap_insert_def insertable_def s'_def upd_simps)
  have "areas_ok (vmareas s) (lo_pn H) (hi_pn H) (vmmap_insert_loop (vmareas s) a (vmm_list (vmmaps s m)))"
    using assms by (intro areas_ok_insert_loop) (auto simp: vmmap_wf_def insertable_def)
  also have "areas_ok (vmareas s) (lo_pn H) (hi_pn H) (vmmap_insert_loop (vmareas s) a (vmm_list (vmmaps s m))) =
     areas_ok (vmareas s') (lo_pn H) (hi_pn H) (vmmap_insert_loop (vmareas s) a (vmm_list (vmmaps s m)))"
    by (rule areas_ok_cong) (simp add: s'_def upd_simps)
  finally have wf: "vmmap_wf H m s'"
    using assms by (auto simp: vmmap_wf_def insertable_def s'_def upd_simps)
  have cov: "covers (vmareas s' b) q = covers (vmareas s b) q" for b q
    by (simp add: covers_def s'_def upd_simps)
  have mem: "set (vmm_list (vmmaps s' m)) = insert a (set (vmm_list (vmmaps s m)))"
    by (simp add: s'_def upd_simps)
  have "vmmap_lookup m p s' = (if covers (vmareas s a) p then Some a else vmmap_lookup m p s)" for p
  proof (cases "covers (vmareas s a) p")
    case True
    then show ?thesis using vmmap_lookup_Some_iff [OF wf, of p a] by (simp add: cov mem)
  next
    case False
    then have "vmmap_lookup m p s' = Some b \<longleftrightarrow> vmmap_lookup m p s = Some b" for b
      using vmmap_lookup_Some_iff [OF wf, of p b] vmmap_lookup_Some_iff [OF assms(1), of p b] by (auto simp: cov mem)
    then show ?thesis using False by (metis not_None_eq)
  qed
  then show ?thesis using ins wf by blast
qed

theorem vmmap_insert_refines_witness:
  "\<exists>s'. vmmap_insert std_hdr 7 102 two_areas = Some s' \<and> vmmap_lookup 7 0x4FF s' = Some 102 \<and>
     vmmap_lookup 7 0x500 s' = Some 101"
proof -
  have "insertable std_hdr 7 102 two_areas"
    by (simp add: insertable_def two_areas_def std_hdr_def blank_vmarea_def disjoint_def)
  from vmmap_insert_refines [OF two_areas_wf this] obtain s' where
    s': "vmmap_insert std_hdr 7 102 two_areas = Some s'"
      "\<And>p. vmmap_lookup 7 p s' = (if covers (vmareas two_areas 102) p then Some 102 else vmmap_lookup 7 p two_areas)"
    by blast
  have "covers (vmareas two_areas 102) 0x4FF" "\<not> covers (vmareas two_areas 102) 0x500"
    "vmmap_lookup 7 0x500 two_areas = Some 101"
    by (simp_all add: two_areas_def covers_def blank_vmarea_def vmmap_lookup_def)
  then show ?thesis using s'(1) by (simp add: s'(2))
qed

lemma covers_exists_iff:
  assumes "vma_start v < vma_end v" and "st < (en :: u32)"
  shows "vma_start v < en \<and> st < vma_end v \<longleftrightarrow> (\<exists>p. st \<le> p \<and> p < en \<and> covers v p)"
proof
  assume a: "vma_start v < en \<and> st < vma_end v"
  show "\<exists>p. st \<le> p \<and> p < en \<and> covers v p"
    using assms a by (intro exI [of _ "max st (vma_start v)"]) (auto simp: covers_def max_def)
next
  assume "\<exists>p. st \<le> p \<and> p < en \<and> covers v p"
  then show "vma_start v < en \<and> st < vma_end v" by (auto simp: covers_def)
qed

text \<open>
  C28: \<open>vmmap_is_range_empty\<close> returns 1 when no page of the range is mapped and 0 otherwise; on a range
  that wraps around or leaves user memory its assertion fails.
\<close>

theorem vmmap_is_range_empty_decides:
  assumes "vmmap_wf H m s"
  shows "vmmap_is_range_empty H m st n s =
    (if st < st + n \<and> lo_pn H \<le> st \<and> st + n \<le> hi_pn H
     then Some (if \<forall>p. st \<le> p \<and> p < st + n \<longrightarrow> vmmap_lookup m p s = None then 1 else 0) else None)"
proof (cases "st < st + n \<and> lo_pn H \<le> st \<and> st + n \<le> hi_pn H")
  case True
  let ?l = "vmm_list (vmmaps s m)"
  have "(vma_start (vmareas s a) < st + n \<and> st < vma_end (vmareas s a)) \<longleftrightarrow>
      (\<exists>p. st \<le> p \<and> p < st + n \<and> covers (vmareas s a) p)" if "a \<in> set ?l" for a
    using assms(1) that areas_ok_mem True by (intro covers_exists_iff) (auto simp: vmmap_wf_def)
  then have "(\<exists>a\<in>set ?l. vma_start (vmareas s a) < st + n \<and> st < vma_end (vmareas s a)) \<longleftrightarrow>
      \<not> (\<forall>p. st \<le> p \<and> p < st + n \<longrightarrow> vmmap_lookup m p s = None)"
    by (auto simp: vmmap_lookup_None_iff)
  then show ?thesis using True
    by (simp add: vmmap_is_range_empty_def is_range_empty_loop_eq)
qed (auto simp: vmmap_is_range_empty_def)

theorem vmmap_is_range_empty_decides_witness:
  "vmmap_is_range_empty std_hdr 7 0x410 0x10 two_areas =
     Some (if \<forall>p. 0x410 \<le> p \<and> p < 0x420 \<longrightarrow> vmmap_lookup 7 p two_areas = None then 1 else 0)"
  using vmmap_is_range_empty_decides [OF two_areas_wf, of "0x410" "0x10"] by (simp add: std_hdr_def)

subsection \<open>Cloning\<close>

definition cloned :: "vmapaddr \<Rightarrow> vmarea \<Rightarrow> vmarea" where
  "cloned m' t = t\<lparr>vma_obj := None, vma_vmmap := Some m'\<rparr>"

lemma cloned_eq:
  "v\<lparr>vma_obj := None, vma_start := vma_start t, vma_end := vma_end t, vma_off := vma_off t,
     vma_flags := vma_flags t, vma_prot := vma_prot t, vma_vmmap := Some m'\<rparr> = cloned m' t"
  by (simp add: cloned_def)

lemma vmarea_alloc_Some:
  "slab s = Some a # as \<Longrightarrow> vmarea_alloc s =
     Some (Some a, upd_vmarea a (\<lambda>v. v\<lparr>vma_vmmap := None\<rparr>) (s\<lparr>slab := as, live := insert a (live s)\<rparr>))"
  by (simp add: vmarea_alloc_def slab_obj_alloc_def)

lemma vmmap_clone_loop_ok:
  assumes "slab s = map Some as @ rest" and "length as = length l" and "distinct as" and "set as \<inter> set l = {}"
  shows "\<exists>s'. vmmap_clone_loop m' l s = Some s' \<and> slab s' = rest \<and>
     vmmaps s' = (vmmaps s)(m' := (vmmaps s m')\<lparr>vmm_list := vmm_list (vmmaps s m') @ as\<rparr>) \<and>
     (\<forall>x. x \<notin> set as \<longrightarrow> vmareas s' x = vmareas s x) \<and>
     list_all2 (\<lambda>a t. vmareas s' a = cloned m' (vmareas s t)) as l"
  using assms
proof (induction l arbitrary: s as)
  case Nil
  then show ?case by simp
next
  case (Cons t l)
  then obtain a as' where as: "as = a # as'" by (cases as) auto
  define s1 where "s1 = s\<lparr>slab := map Some as' @ rest, live := insert a (live s),
      vmareas := (vmareas s)(a := cloned m' (vmareas s t)),
      vmmaps := (vmmaps s)(m' := (vmmaps s m')\<lparr>vmm_list := vmm_list (vmmaps s m') @ [a]\<rparr>)\<rparr>"
  have ne: "t \<noteq> a" using Cons.prems(4) as by auto
  have step: "vmmap_clone_loop m' (t # l) s = vmmap_clone_loop m' l s1"
    using Cons.prems(1) as ne by (simp add: vmarea_alloc_Some upd_defs s1_def cloned_eq Let_def)
  have "slab s1 = map Some as' @ rest" "length as' = length l" "distinct as'" "set as' \<inter> set l = {}"
    using Cons.prems as by (auto simp: s1_def)
  from Cons.IH [OF this] obtain s' where s': "vmmap_clone_loop m' l s1 = Some s'" "slab s' = rest"
     "vmmaps s' = (vmmaps s1)(m' := (vmmaps s1 m')\<lparr>vmm_list := vmm_list (vmmaps s1 m') @ as'\<rparr>)"
     "\<And>x. x \<notin> set as' \<Longrightarrow> vmareas s' x = vmareas s1 x"
     "list_all2 (\<lambda>a t. vmareas s' a = cloned m' (vmareas s1 t)) as' l" by blast
  have "list_all2 (\<lambda>a t. vmareas s' a = cloned m' (vmareas s t)) as' l"
    using s'(5) Cons.prems(4) as by (auto simp: list_all2_conv_all_nth s1_def)
  moreover have "vmareas s' a = cloned m' (vmareas s t)" using s'(4) [of a] Cons.prems(3) as by (simp add: s1_def)
  moreover have "vmareas s' x = vmareas s x" if "x \<notin> set as" for x
    using s'(4) [of x] that as by (simp add: s1_def)
  moreover have "vmmaps s' = (vmmaps s)(m' := (vmmaps s m')\<lparr>vmm_list := vmm_list (vmmaps s m') @ as\<rparr>)"
    using s'(3) by (simp add: as s1_def)
  ultimately show ?case using s'(1,2) unfolding step as by (intro exI [of _ s']) simp
qed

lemma areas_ok_cloned:
  assumes "list_all2 (\<lambda>a t. h' a = cloned m' (h t)) as l"
  shows "areas_ok h' lo hi as = areas_ok h lo hi l"
  using assms by (induction arbitrary: lo rule: list_all2_induct) (auto simp: cloned_def)

lemma lookup_cloned:
  assumes "list_all2 (\<lambda>a t. h' a = cloned m' (h t)) as l"
  shows "map_option h' (List.find (\<lambda>a. covers (h' a) p) as) =
         map_option (\<lambda>t. cloned m' (h t)) (List.find (\<lambda>t. covers (h t) p) l)"
  using assms by (induction rule: list_all2_induct) (auto simp: cloned_def covers_def)

text \<open>
  C29: when memory suffices, \<open>vmmap_clone\<close> returns a new well-formed address space in which every page
  number is looked up to a new area with the same range, offset, protection and flags as in the old
  one and with no memory object; the old address space is as it was.
\<close>

theorem vmmap_clone_same_pages:
  assumes wf: "vmmap_wf H m s" and sl: "slab s = Some m' # map Some as @ rest" and "m' \<noteq> m"
    and as: "length as = length (vmm_list (vmmaps s m))" "distinct as" "set as \<inter> set (vmm_list (vmmaps s m)) = {}"
  shows "\<exists>s'. vmmap_clone m s = Some (m', s') \<and> vmmap_wf H m' s' \<and> vmmap_wf H m s' \<and>
     (\<forall>p. map_option (vmareas s') (vmmap_lookup m' p s') =
          map_option (\<lambda>t. (vmareas s t)\<lparr>vma_obj := None, vma_vmmap := Some m'\<rparr>) (vmmap_lookup m p s)) \<and>
     (\<forall>p. vmmap_lookup m p s' = vmmap_lookup m p s) \<and> vmm_proc (vmmaps s' m') = vmm_proc (vmmaps s m)"
proof -
  define s1 where "s1 = s\<lparr>slab := map Some as @ rest, live := insert m' (live s),
     vmmaps := (vmmaps s)(m' := \<lparr>vmm_list = [], vmm_proc = vmm_proc (vmmaps s m)\<rparr>)\<rparr>"
  have s1: "slab s1 = map Some as @ rest" "vmareas s1 = vmareas s" "vmmaps s1 m = vmmaps s m"
    using assms(3) by (simp_all add: s1_def)
  from vmmap_clone_loop_ok [OF s1(1) as, of m'] obtain s' where
    s': "vmmap_clone_loop m' (vmm_list (vmmaps s m)) s1 = Some s'"
     "vmmaps s' = (vmmaps s1)(m' := (vmmaps s1 m')\<lparr>vmm_list := vmm_list (vmmaps s1 m') @ as\<rparr>)"
     "\<And>x. x \<notin> set as \<Longrightarrow> vmareas s' x = vmareas s x"
     "list_all2 (\<lambda>a t. vmareas s' a = cloned m' (vmareas s t)) as (vmm_list (vmmaps s m))"
    unfolding s1(2) by blast
  have run: "vmmap_clone m s = Some (m', s')"
    using sl s'(1) \<open>m' \<noteq> m\<close>
    by (simp add: vmmap_clone_def vmmap_create_def slab_obj_alloc_def upd_defs s1_def Let_def)
  have new: "vmm_list (vmmaps s' m') = as" "vmm_proc (vmmaps s' m') = vmm_proc (vmmaps s m)"
    using s'(2) by (simp_all add: s1_def)
  have old: "vmmaps s' m = vmmaps s m" "\<And>a. a \<in> set (vmm_list (vmmaps s m)) \<Longrightarrow> vmareas s' a = vmareas s a"
    using s'(2,3) assms(3) as(3) by (auto simp: s1_def)
  have "\<forall>a\<in>set as. vma_vmmap (vmareas s' a) = Some m'"
    using s'(4) by (auto simp: list_all2_conv_all_nth in_set_conv_nth cloned_def)
  then have wf': "vmmap_wf H m' s'"
    using wf as(2) areas_ok_cloned [OF s'(4)] by (simp add: vmmap_wf_def new)
  have "vmmap_wf H m s'"
    using wf areas_ok_cong [of "vmm_list (vmmaps s m)" "vmareas s'" "vmareas s"] by (simp add: vmmap_wf_def old)
  moreover have "vmmap_lookup m p s' = vmmap_lookup m p s" for p
    using old(2) by (simp add: vmmap_lookup_def lookup_loop_find old(1) cong: find_cong)
  moreover have "map_option (vmareas s') (vmmap_lookup m' p s') =
          map_option (\<lambda>t. (vmareas s t)\<lparr>vma_obj := None, vma_vmmap := Some m'\<rparr>) (vmmap_lookup m p s)" for p
    using lookup_cloned [OF s'(4)] by (simp add: vmmap_lookup_def lookup_loop_find new cloned_def)
  ultimately show ?thesis using run wf' new(2) by blast
qed

theorem vmmap_clone_same_pages_witness:
  "\<exists>s'. vmmap_clone 7 two_areas = Some (8, s') \<and> vmmap_wf std_hdr 8 s' \<and>
     map_option (\<lambda>a. vma_end (vmareas s' a)) (vmmap_lookup 8 0x500 s') = Some 0x600"
proof -
  have sl: "slab two_areas = Some 8 # map Some [103, 104] @ []" "length [103, 104] = length (vmm_list (vmmaps two_areas 7))"
    "distinct [103, 104 :: nat]" "set [103, 104] \<inter> set (vmm_list (vmmaps two_areas 7)) = {}"
    by (simp_all add: two_areas_def)
  have old: "map_option (\<lambda>t. vma_end (vmareas two_areas t)) (vmmap_lookup 7 0x500 two_areas) = Some 0x600"
    by (simp add: two_areas_def vmmap_lookup_def blank_vmarea_def)
  from vmmap_clone_same_pages [OF two_areas_wf sl(1) _ sl(2-4)] obtain s' where
    s': "vmmap_clone 7 two_areas = Some (8, s')" "vmmap_wf std_hdr 8 s'"
      "map_option (vmareas s') (vmmap_lookup 8 0x500 s') =
        map_option (\<lambda>t. (vmareas two_areas t)\<lparr>vma_obj := None, vma_vmmap := Some 8\<rparr>) (vmmap_lookup 7 0x500 two_areas)"
    by auto
  have "map_option (\<lambda>a. vma_end (vmareas s' a)) (vmmap_lookup 8 0x500 s') =
      map_option vma_end (map_option (vmareas s') (vmmap_lookup 8 0x500 s'))"
    by (simp add: option.map_comp comp_def)
  also have "\<dots> = Some 0x600" unfolding s'(3) using old by (simp add: option.map_comp comp_def)
  finally show ?thesis using s'(1,2) by blast
qed

end
