(* ===== verification/Pframe.thy ===== *)
theory Pframe
  imports Vmmap
begin

text \<open>
  Page frames (\<open>kernel/mm/pframe.c\<close>), with the creation and the reference counting of the memory
  objects they belong to (\<open>kernel/vm/anon.c\<close>, \<open>kernel/vm/shadow.c\<close>).

  A page frame calls back into its object (\<open>o->mmo_ops->put(o)\<close>, \<open>fillpage\<close>, \<open>dirtypage\<close>,
  \<open>cleanpage\<close>), and the objects call the page frame code: here those operations are arguments, and
  \<open>Shadow\<close> ties the knot.
\<close>

subsection \<open>Creating and referencing memory objects\<close>

definition anon_create :: "ext \<Rightarrow> oaddr option call" where
  "anon_create X s = do {
     (obj, s) \<leftarrow> slab_obj_alloc s;
     (case obj of
        Some ob \<Rightarrow> Some (Some ob, upd_mmobj ob (\<lambda>_. (mmobj_init X Anon_mmobj_ops)\<lparr>mmo_refcount := 1\<rparr>) s)
      | None \<Rightarrow> Some (None, s)) }"

definition anon_ref :: "oaddr \<Rightarrow> proc_call" where
  "anon_ref ob s = do {
     KASSERT (0 < mmo_refcount (mmobjs s ob) \<and> mmo_ops (mmobjs s ob) = Anon_mmobj_ops);
     Some (upd_mmobj ob (\<lambda>m. m\<lparr>mmo_refcount := mmo_refcount m + 1\<rparr>) s) }"

definition shadow_create :: "ext \<Rightarrow> oaddr call" where
  "shadow_create X s = do {
     (newobj, s) \<leftarrow> slab_obj_alloc s;
     newobj \<leftarrow> newobj;
     Some (newobj, upd_mmobj newobj (\<lambda>_. (mmobj_init X Shadow_mmobj_ops)\<lparr>mmo_refcount := 1,
                                          mmo_un := Mmo_bottom_obj None\<rparr>) s) }"

definition shadow_ref :: "oaddr \<Rightarrow> proc_call" where
  "shadow_ref ob s = do {
     KASSERT (0 < mmo_refcount (mmobjs s ob) \<and> mmo_ops (mmobjs s ob) = Shadow_mmobj_ops);
     Some (upd_mmobj ob (\<lambda>m. m\<lparr>mmo_refcount := mmo_refcount m + 1\<rparr>) s) }"

text \<open>\<open>o->mmo_ops->ref(o)\<close>\<close>

definition mmobj_ref :: "ext \<Rightarrow> oaddr \<Rightarrow> proc_call" where
  "mmobj_ref X ob s = (case mmo_ops (mmobjs s ob) of
     Anon_mmobj_ops \<Rightarrow> anon_ref ob s
   | Shadow_mmobj_ops \<Rightarrow> shadow_ref ob s
   | Vnode_mmobj_ops \<Rightarrow> vno_ref X ob s)"

subsection \<open>Page frames\<close>

definition hash_page :: "hdr \<Rightarrow> oaddr option \<Rightarrow> u32 \<Rightarrow> nat" where
  "hash_page H ob pagenum =
     unat ((case ob of None \<Rightarrow> 0 | Some a \<Rightarrow> word_of_nat a) + pagenum) mod PF_HASH_SIZE H"

definition pframe_init :: "ext \<Rightarrow> kernel \<Rightarrow> kernel" where
  "pframe_init X s = (
     let s = s\<lparr>npinned := 0, pinned_list := [], nallocated := 0, alloc_list := [],
               pframe_hash := (\<lambda>_. []),
               nfreepages_target := drop_bit 1 (page_free_count X s), nfreepages_min := 0\<rparr>
     in sched_queue_init Alloc_waitq s)"

definition pframe_get_resident :: "hdr \<Rightarrow> ext \<Rightarrow> oaddr option \<Rightarrow> u32 \<Rightarrow> kernel \<Rightarrow> pfaddr option \<times> kernel" where
  "pframe_get_resident H X ob pagenum s =
     (case List.find (\<lambda>pf. ob = pf_obj (pframes s pf) \<and> pagenum = pf_pagenum (pframes s pf))
             (pframe_hash s (hash_page H ob pagenum)) of
        Some pf \<Rightarrow>
          (Some pf, if \<not> pframe_is_pinned X (pframes s pf)
                    then s\<lparr>alloc_list := remove1 pf (alloc_list s) @ [pf]\<rparr> else s)
      | None \<Rightarrow> (None, s))"

definition pframe_alloc :: "hdr \<Rightarrow> ext \<Rightarrow> oaddr \<Rightarrow> u32 \<Rightarrow> pfaddr option call" where
  "pframe_alloc H X ob pagenum s = do {
     (pf, s) \<leftarrow> slab_obj_alloc s;
     (case pf of
        None \<Rightarrow> Some (None, s)
      | Some pf \<Rightarrow> do {
          (addr, s) \<leftarrow> page_alloc s;
          let s = upd_pframe pf (\<lambda>f. f\<lparr>pf_addr := addr\<rparr>) s;
          if addr = None then Some (None, slab_obj_free pf s)
          else do {
            let s = s\<lparr>nallocated := nallocated s + 1, alloc_list := alloc_list s @ [pf]\<rparr>;
            let s = upd_pframe pf (\<lambda>f. f\<lparr>pf_obj := Some ob, pf_pagenum := pagenum, pf_busy := False,
                                         pf_dirty := False\<rparr>) s;
            let s = sched_queue_init (Pf_waitq pf) s;
            let s = upd_pframe pf (\<lambda>f. f\<lparr>pf_pincount := 0\<rparr>) s;
            let i = hash_page H (Some ob) pagenum;
            let s = s\<lparr>pframe_hash := (pframe_hash s)(i := pf # pframe_hash s i)\<rparr>;
            s \<leftarrow> mmobj_ref X ob s;
            Some (Some pf, upd_mmobj ob (\<lambda>m. m\<lparr>mmo_nrespages := mmo_nrespages m + 1,
                                              mmo_respages := pf # mmo_respages m\<rparr>) s) } }) }"

text \<open>Removing a page from the page tables of the processes that map it: the areas of the bottom object.\<close>

fun remove_from_pts_loop :: "hdr \<Rightarrow> u32 \<Rightarrow> vmaddr list \<Rightarrow> proc_call" where
  "remove_from_pts_loop H pagenum [] s = Some s"
| "remove_from_pts_loop H pagenum (vma # vmas) s = (let v = vmareas s vma in
     if vma_off v \<le> pagenum \<and> pagenum < vma_off v + (vma_end v - vma_start v)
     then do {
       let vaddr = PN_TO_ADDR H (vma_start v + pagenum - vma_off v);
       m \<leftarrow> vma_vmmap v;
       (case vmm_proc (vmmaps s m) of
          Some p \<Rightarrow> remove_from_pts_loop H pagenum vmas (log_hw (Pt_unmap (p_pagedir (procs s p)) vaddr) s)
        | None \<Rightarrow> remove_from_pts_loop H pagenum vmas s) }
     else remove_from_pts_loop H pagenum vmas s)"

text \<open>\<open>mmobj_bottom_vmas\<close>: the list of areas of the bottom object.\<close>

definition mmobj_bottom_vmas :: "ext \<Rightarrow> oaddr \<Rightarrow> kernel \<Rightarrow> vmaddr list option" where
  "mmobj_bottom_vmas X ob s = do {
     b \<leftarrow> mmobj_bottom_obj X ob (mmobjs s ob);
     (case mmo_un (mmobjs s b) of Mmo_vmas l \<Rightarrow> Some l | Mmo_bottom_obj _ \<Rightarrow> None) }"

definition pframe_remove_from_pts :: "hdr \<Rightarrow> ext \<Rightarrow> pfaddr \<Rightarrow> proc_call" where
  "pframe_remove_from_pts H X pf s = do {
     ob \<leftarrow> pf_obj (pframes s pf);
     l \<leftarrow> mmobj_bottom_vmas X ob s;
     remove_from_pts_loop H (pf_pagenum (pframes s pf)) l s }"

definition pframe_free :: "hdr \<Rightarrow> ext \<Rightarrow> (oaddr \<Rightarrow> proc_call) \<Rightarrow> pfaddr \<Rightarrow> proc_call" where
  "pframe_free H X put pf s = do {
     KASSERT (\<not> pframe_is_pinned X (pframes s pf));
     KASSERT (\<not> pframe_is_free X (pframes s pf));
     KASSERT (\<not> pf_busy (pframes s pf));
     let ob = pf_obj (pframes s pf);
     let s = log_hw (Tlb_flush (pf_addr (pframes s pf))) s;
     s \<leftarrow> pframe_remove_from_pts H X pf s;
     let i = hash_page H ob (pf_pagenum (pframes s pf));
     let s = s\<lparr>pframe_hash := (pframe_hash s)(i := remove1 pf (pframe_hash s i))\<rparr>;
     let s = upd_pframe pf (\<lambda>f. f\<lparr>pf_obj := None\<rparr>) s;
     let s = s\<lparr>nallocated := nallocated s - 1, alloc_list := remove1 pf (alloc_list s)\<rparr>;
     addr \<leftarrow> pf_addr (pframes s pf);
     let s = slab_obj_free pf (page_free addr s);
     ob \<leftarrow> ob;
     let s = upd_mmobj ob (\<lambda>m. m\<lparr>mmo_nrespages := mmo_nrespages m - 1,
                               mmo_respages := remove1 pf (mmo_respages m)\<rparr>) s;
     put ob s }"

definition pframe_pin :: "ext \<Rightarrow> pfaddr \<Rightarrow> proc_call" where
  "pframe_pin X pf s = do {
     KASSERT (\<not> pframe_is_free X (pframes s pf));
     KASSERT (pf_pincount (pframes s pf) \<ge> 0);
     let s = upd_pframe pf (\<lambda>f. f\<lparr>pf_pincount := pf_pincount f + 1\<rparr>) s;
     if pf_pincount (pframes s pf) = 1
     then Some (s\<lparr>alloc_list := remove1 pf (alloc_list s), nallocated := nallocated s - 1,
                  pinned_list := pinned_list s @ [pf], npinned := npinned s + 1\<rparr>)
     else Some s }"

definition pframe_unpin :: "ext \<Rightarrow> pfaddr \<Rightarrow> proc_call" where
  "pframe_unpin X pf s = do {
     KASSERT (\<not> pframe_is_free X (pframes s pf));
     KASSERT (pf_pincount (pframes s pf) > 0);
     let s = upd_pframe pf (\<lambda>f. f\<lparr>pf_pincount := pf_pincount f - 1\<rparr>) s;
     if pf_pincount (pframes s pf) = 0
     then Some (s\<lparr>pinned_list := remove1 pf (pinned_list s), npinned := npinned s - 1,
                  alloc_list := alloc_list s @ [pf], nallocated := nallocated s + 1\<rparr>)
     else Some s }"

definition pframe_fill :: "(oaddr \<Rightarrow> pfaddr \<Rightarrow> int call) \<Rightarrow> pfaddr \<Rightarrow> int call" where
  "pframe_fill fillpage pf s = do {
     let s = upd_pframe pf (\<lambda>f. f\<lparr>pf_busy := True\<rparr>) s;
     ob \<leftarrow> pf_obj (pframes s pf);
     (ret, s) \<leftarrow> fillpage ob pf s;
     let s = upd_pframe pf (\<lambda>f. f\<lparr>pf_busy := False\<rparr>) s;
     s \<leftarrow> sched_broadcast_on (Pf_waitq pf) s;
     Some (ret, s) }"

text \<open>
  \<open>pframe_get\<close>: the first argument bounds the rounds of its loop; a round that finds the page busy
  sleeps and tries again. The second component of the result is what the call stores in \<open>*result\<close>.
\<close>

fun pframe_get :: "nat \<Rightarrow> hdr \<Rightarrow> ext \<Rightarrow> (oaddr \<Rightarrow> pfaddr \<Rightarrow> int call) \<Rightarrow> (oaddr \<Rightarrow> proc_call) \<Rightarrow>
    oaddr \<Rightarrow> u32 \<Rightarrow> (int \<times> pfaddr option) call" where
  "pframe_get 0 H X fillpage put ob pagenum s = None"
| "pframe_get (Suc n) H X fillpage put ob pagenum s =
     (case pframe_get_resident H X (Some ob) pagenum s of
        (Some pf, s) \<Rightarrow>
          (if pf_busy (pframes s pf)
           then do {
             s \<leftarrow> sleep_on X (Pf_waitq pf) s;
             pframe_get n H X fillpage put ob pagenum s }
           else Some ((0, Some pf), s))
      | (None, s) \<Rightarrow> do {
          (pf, s) \<leftarrow> pframe_alloc H X ob pagenum s;
          pf \<leftarrow> pf;
          (fill_res, s) \<leftarrow> pframe_fill fillpage pf s;
          if fill_res < 0
          then do { s \<leftarrow> pframe_free H X put pf s; Some ((fill_res, None), s) }
          else do {
            KASSERT (\<not> pf_busy (pframes s pf));
            Some ((0, Some pf), s) } })"

definition pframe_dirty :: "(oaddr \<Rightarrow> pfaddr \<Rightarrow> int call) \<Rightarrow> pfaddr \<Rightarrow> int call" where
  "pframe_dirty dirtypage pf s = do {
     KASSERT (\<not> pf_busy (pframes s pf));
     let s = upd_pframe pf (\<lambda>f. f\<lparr>pf_busy := True\<rparr>) s;
     ob \<leftarrow> pf_obj (pframes s pf);
     (ret, s) \<leftarrow> dirtypage ob pf s;
     let s = (if ret = 0 then upd_pframe pf (\<lambda>f. f\<lparr>pf_dirty := True\<rparr>) s else s);
     let s = upd_pframe pf (\<lambda>f. f\<lparr>pf_busy := False\<rparr>) s;
     s \<leftarrow> sched_broadcast_on (Pf_waitq pf) s;
     Some (ret, s) }"

definition pframe_clean :: "hdr \<Rightarrow> ext \<Rightarrow> (oaddr \<Rightarrow> pfaddr \<Rightarrow> int call) \<Rightarrow> pfaddr \<Rightarrow> int call" where
  "pframe_clean H X cleanpage pf s = do {
     KASSERT (pf_dirty (pframes s pf));
     KASSERT (pf_pincount (pframes s pf) = 0);
     let s = upd_pframe pf (\<lambda>f. f\<lparr>pf_dirty := False\<rparr>) s;
     let s = log_hw (Tlb_flush (pf_addr (pframes s pf))) s;
     s \<leftarrow> pframe_remove_from_pts H X pf s;
     let s = upd_pframe pf (\<lambda>f. f\<lparr>pf_busy := True\<rparr>) s;
     ob \<leftarrow> pf_obj (pframes s pf);
     (ret, s) \<leftarrow> cleanpage ob pf s;
     let s = (if ret < 0 then upd_pframe pf (\<lambda>f. f\<lparr>pf_dirty := True\<rparr>) s else s);
     let s = upd_pframe pf (\<lambda>f. f\<lparr>pf_busy := False\<rparr>) s;
     s \<leftarrow> sched_broadcast_on (Pf_waitq pf) s;
     Some (ret, s) }"

definition pframe_migrate :: "hdr \<Rightarrow> ext \<Rightarrow> (oaddr \<Rightarrow> proc_call) \<Rightarrow> (oaddr \<Rightarrow> pfaddr \<Rightarrow> int call) \<Rightarrow>
    pfaddr \<Rightarrow> oaddr \<Rightarrow> proc_call" where
  "pframe_migrate H X put cleanpage pf dest s = do {
     KASSERT (\<not> pf_busy (pframes s pf));
     (case pframe_get_resident H X (Some dest) (pf_pagenum (pframes s pf)) s of
        (Some _, s) \<Rightarrow> do {
          s \<leftarrow> pframe_unpin X pf s;
          (_, s) \<leftarrow> pframe_clean H X cleanpage pf s;
          pframe_free H X put pf s }
      | (None, s) \<Rightarrow> do {
          src \<leftarrow> pf_obj (pframes s pf);
          let pagenum = pf_pagenum (pframes s pf);
          let s = upd_pframe pf (\<lambda>f. f\<lparr>pf_obj := Some dest\<rparr>) s;
          let i = hash_page H (Some src) pagenum;
          let s = s\<lparr>pframe_hash := (pframe_hash s)(i := remove1 pf (pframe_hash s i))\<rparr>;
          let s = upd_mmobj src (\<lambda>m. m\<lparr>mmo_respages := remove1 pf (mmo_respages m),
                                     mmo_nrespages := mmo_nrespages m - 1\<rparr>) s;
          s \<leftarrow> put src s;
          let j = hash_page H (Some dest) pagenum;
          let s = s\<lparr>pframe_hash := (pframe_hash s)(j := pf # pframe_hash s j)\<rparr>;
          let s = upd_mmobj dest (\<lambda>m. m\<lparr>mmo_respages := pf # mmo_respages m,
                                      mmo_nrespages := mmo_nrespages m + 1\<rparr>) s;
          mmobj_ref X dest s }) }"

text \<open>
  \<open>pframe_clean_all\<close> goes through the allocated list from its head and starts again after every
  sleep and every cleaned page. The first argument bounds the number of starts.
\<close>

fun pframe_clean_all :: "nat \<Rightarrow> hdr \<Rightarrow> ext \<Rightarrow> (oaddr \<Rightarrow> pfaddr \<Rightarrow> int call) \<Rightarrow> proc_call"
  and clean_all_scan :: "nat \<Rightarrow> hdr \<Rightarrow> ext \<Rightarrow> (oaddr \<Rightarrow> pfaddr \<Rightarrow> int call) \<Rightarrow> pfaddr list \<Rightarrow> proc_call" where
  "pframe_clean_all 0 H X cleanpage s = None"
| "pframe_clean_all (Suc n) H X cleanpage s = clean_all_scan n H X cleanpage (alloc_list s) s"
| "clean_all_scan n H X cleanpage [] s = Some s"
| "clean_all_scan n H X cleanpage (pf # pfs) s = do {
     KASSERT (\<not> pframe_is_pinned X (pframes s pf));
     KASSERT (\<not> pframe_is_free X (pframes s pf));
     if pf_busy (pframes s pf)
     then do { s \<leftarrow> sleep_on X (Pf_waitq pf) s; pframe_clean_all n H X cleanpage s }
     else if pf_dirty (pframes s pf)
     then do { (_, s) \<leftarrow> pframe_clean H X cleanpage pf s; pframe_clean_all n H X cleanpage s }
     else clean_all_scan n H X cleanpage pfs s }"

text \<open>
  The inner loop of \<open>pageoutd_run\<close>, which reclaims pages until enough are free: each round works on the
  page at the head of the allocated list. The first argument bounds the rounds.
\<close>

definition pageoutd_target_met :: "ext \<Rightarrow> kernel \<Rightarrow> bool" where
  "pageoutd_target_met X s \<longleftrightarrow> page_free_count X s \<ge> nfreepages_target s"

fun pageoutd_reclaim :: "nat \<Rightarrow> hdr \<Rightarrow> ext \<Rightarrow> (oaddr \<Rightarrow> proc_call) \<Rightarrow> (oaddr \<Rightarrow> pfaddr \<Rightarrow> int call) \<Rightarrow> proc_call" where
  "pageoutd_reclaim 0 H X put cleanpage s = None"
| "pageoutd_reclaim (Suc n) H X put cleanpage s =
     (if \<not> pageoutd_target_met X s \<and> alloc_list s \<noteq> []
      then do {
        let pf = hd (alloc_list s);
        s \<leftarrow> (if pf_busy (pframes s pf) then sleep_on X (Pf_waitq pf) s
              else if pf_dirty (pframes s pf)
              then do { (_, s) \<leftarrow> pframe_clean H X cleanpage pf s; Some s }
              else pframe_free H X put pf s);
        pageoutd_reclaim n H X put cleanpage s }
      else Some s)"

text \<open>
  One round of the outer loop of \<open>pageoutd_run\<close>: reclaim, wake the threads that wait for memory, and
  sleep until the next wakeup. \<open>Inl r\<close> and \<open>Inr ()\<close> are as in \<^const>\<open>sched_cancellable_sleep_on\<close>.
\<close>

definition pageoutd_round :: "nat \<Rightarrow> hdr \<Rightarrow> ext \<Rightarrow> (oaddr \<Rightarrow> proc_call) \<Rightarrow> (oaddr \<Rightarrow> pfaddr \<Rightarrow> int call) \<Rightarrow> (int + unit) call" where
  "pageoutd_round n H X put cleanpage s = do {
     KASSERT (nallocated s \<ge> 0);
     s \<leftarrow> pageoutd_reclaim n H X put cleanpage s;
     s \<leftarrow> sched_broadcast_on Alloc_waitq s;
     sched_cancellable_sleep_on (Err H) (w_irqs X s) Pageoutd_waitq s }"

end
