(* ===== verification/Shadow.thy ===== *)
theory Shadow
  imports Pframe
begin

text \<open>
  Anonymous objects (\<open>kernel/vm/anon.c\<close>) and shadow objects (\<open>kernel/vm/shadow.c\<close>), and the dispatch of
  the object operations \<open>put\<close>, \<open>lookuppage\<close>, \<open>fillpage\<close>, \<open>dirtypage\<close> and \<open>cleanpage\<close> through
  \<open>mmo_ops\<close>. The operations of an object that belongs to a vnode are external.

  The operations call each other: a lookup fills a page, which looks up the bottom object; freeing a
  page puts its object, which frees pages. The first argument of the dispatching functions bounds the
  depth of the nested calls and the length of the shadow chains they walk.
\<close>

subsection \<open>Dropping references\<close>

text \<open>The loop of \<open>anon_put\<close> and \<open>shadow_put\<close> over the resident pages of the object.\<close>

fun free_pages :: "hdr \<Rightarrow> ext \<Rightarrow> (oaddr \<Rightarrow> proc_call) \<Rightarrow> pfaddr list \<Rightarrow> proc_call" where
  "free_pages H X put [] s = Some s"
| "free_pages H X put (pf # pfs) s = do {
     s \<leftarrow> (if pframe_is_pinned X (pframes s pf) then pframe_unpin X pf s else Some s);
     s \<leftarrow> pframe_free H X put pf s;
     free_pages H X put pfs s }"

definition anon_put :: "hdr \<Rightarrow> ext \<Rightarrow> (oaddr \<Rightarrow> proc_call) \<Rightarrow> oaddr \<Rightarrow> proc_call" where
  "anon_put H X put ob s = do {
     KASSERT (0 < mmo_refcount (mmobjs s ob) \<and> mmo_ops (mmobjs s ob) = Anon_mmobj_ops);
     s \<leftarrow> (if mmo_refcount (mmobjs s ob) = mmo_nrespages (mmobjs s ob) + 1
           then do {
             s \<leftarrow> free_pages H X put (mmo_respages (mmobjs s ob)) s;
             Some (slab_obj_free ob s) }
           else Some s);
     Some (upd_mmobj ob (\<lambda>m. m\<lparr>mmo_refcount := mmo_refcount m - 1\<rparr>) s) }"

definition shadow_put :: "hdr \<Rightarrow> ext \<Rightarrow> (oaddr \<Rightarrow> proc_call) \<Rightarrow> oaddr \<Rightarrow> proc_call" where
  "shadow_put H X put ob s = do {
     KASSERT (0 < mmo_refcount (mmobjs s ob) \<and> mmo_ops (mmobjs s ob) = Shadow_mmobj_ops);
     if mmo_nrespages (mmobjs s ob) \<noteq> mmo_refcount (mmobjs s ob) - 1
     then Some (upd_mmobj ob (\<lambda>m. m\<lparr>mmo_refcount := mmo_refcount m - 1\<rparr>) s)
     else do {
       s \<leftarrow> free_pages H X put (mmo_respages (mmobjs s ob)) s;
       let s = upd_mmobj ob (\<lambda>m. m\<lparr>mmo_refcount := mmo_refcount m - 1\<rparr>) s;
       shadowed \<leftarrow> mmo_shadowed (mmobjs s ob);
       s \<leftarrow> put shadowed s;
       bottom \<leftarrow> (case mmo_un (mmobjs s ob) of Mmo_bottom_obj b \<Rightarrow> b | Mmo_vmas _ \<Rightarrow> None);
       s \<leftarrow> put bottom s;
       Some (slab_obj_free ob s) } }"

text \<open>\<open>o->mmo_ops->put(o)\<close>; the first argument bounds the depth of nested calls.\<close>

fun mmobj_put :: "nat \<Rightarrow> hdr \<Rightarrow> ext \<Rightarrow> oaddr \<Rightarrow> proc_call" where
  "mmobj_put 0 H X ob s = None"
| "mmobj_put (Suc n) H X ob s = (case mmo_ops (mmobjs s ob) of
     Anon_mmobj_ops \<Rightarrow> anon_put H X (mmobj_put n H X) ob s
   | Shadow_mmobj_ops \<Rightarrow> shadow_put H X (mmobj_put n H X) ob s
   | Vnode_mmobj_ops \<Rightarrow> vno_put X ob s)"

subsection \<open>Filling, dirtying and cleaning pages\<close>

definition anon_fillpage :: "ext \<Rightarrow> oaddr \<Rightarrow> pfaddr \<Rightarrow> int call" where
  "anon_fillpage X ob pf s = do {
     KASSERT (pf_busy (pframes s pf));
     KASSERT (\<not> pframe_is_pinned X (pframes s pf));
     s \<leftarrow> pframe_pin X pf s;
     addr \<leftarrow> pf_addr (pframes s pf);
     Some (0, s\<lparr>phys := (phys s)(addr := (\<lambda>_. 0))\<rparr>) }"

definition anon_dirtypage :: "oaddr \<Rightarrow> pfaddr \<Rightarrow> int call" where
  "anon_dirtypage ob pf s = Some (0, upd_pframe pf (\<lambda>f. f\<lparr>pf_dirty := True\<rparr>) s)"

definition anon_cleanpage :: "oaddr \<Rightarrow> pfaddr \<Rightarrow> int call" where
  "anon_cleanpage ob pf s = Some (0, s)"

definition shadow_dirtypage :: "oaddr \<Rightarrow> pfaddr \<Rightarrow> int call" where
  "shadow_dirtypage ob pf s = Some (0, s)"

definition shadow_cleanpage :: "oaddr \<Rightarrow> pfaddr \<Rightarrow> int call" where
  "shadow_cleanpage ob pf s = Some (0, s)"

definition mmobj_dirtypage :: "ext \<Rightarrow> oaddr \<Rightarrow> pfaddr \<Rightarrow> int call" where
  "mmobj_dirtypage X ob pf s = (case mmo_ops (mmobjs s ob) of
     Anon_mmobj_ops \<Rightarrow> anon_dirtypage ob pf s
   | Shadow_mmobj_ops \<Rightarrow> shadow_dirtypage ob pf s
   | Vnode_mmobj_ops \<Rightarrow> vno_dirtypage X ob pf s)"

definition mmobj_cleanpage :: "ext \<Rightarrow> oaddr \<Rightarrow> pfaddr \<Rightarrow> int call" where
  "mmobj_cleanpage X ob pf s = (case mmo_ops (mmobjs s ob) of
     Anon_mmobj_ops \<Rightarrow> anon_cleanpage ob pf s
   | Shadow_mmobj_ops \<Rightarrow> shadow_cleanpage ob pf s
   | Vnode_mmobj_ops \<Rightarrow> vno_cleanpage X ob pf s)"

subsection \<open>Looking up pages\<close>

text \<open>The loop of \<open>shadow_lookuppage\<close> down the chain of shadow objects, and that of \<open>shadow_fillpage\<close>.\<close>

fun shadow_lookup_loop :: "nat \<Rightarrow> hdr \<Rightarrow> ext \<Rightarrow> oaddr \<Rightarrow> u32 \<Rightarrow> pfaddr option call" where
  "shadow_lookup_loop 0 H X cur pagenum s = None"
| "shadow_lookup_loop (Suc n) H X cur pagenum s =
     (case mmo_shadowed (mmobjs s cur) of
        None \<Rightarrow> Some (None, s)
      | Some sh \<Rightarrow>
          (case pframe_get_resident H X (Some cur) pagenum s of
             (None, s) \<Rightarrow> shadow_lookup_loop n H X sh pagenum s
           | (Some pf, s) \<Rightarrow> Some (Some pf, s)))"

fun shadow_fill_loop :: "nat \<Rightarrow> hdr \<Rightarrow> ext \<Rightarrow> oaddr option \<Rightarrow> u32 \<Rightarrow> pfaddr option call" where
  "shadow_fill_loop n H X None pagenum s = Some (None, s)"
| "shadow_fill_loop 0 H X (Some cur) pagenum s = None"
| "shadow_fill_loop (Suc n) H X (Some cur) pagenum s =
     (case pframe_get_resident H X (mmo_shadowed (mmobjs s cur)) pagenum s of
        (None, s) \<Rightarrow> shadow_fill_loop n H X (mmo_shadowed (mmobjs s cur)) pagenum s
      | (Some pf, s) \<Rightarrow> Some (Some pf, s))"

definition shadow_bottom :: "oaddr \<Rightarrow> kernel \<Rightarrow> oaddr option" where
  "shadow_bottom ob s = (case mmo_un (mmobjs s ob) of Mmo_bottom_obj b \<Rightarrow> b | Mmo_vmas _ \<Rightarrow> None)"

definition shadow_lookuppage ::
  "nat \<Rightarrow> hdr \<Rightarrow> ext \<Rightarrow> (oaddr \<Rightarrow> u32 \<Rightarrow> bool \<Rightarrow> (int \<times> pfaddr option) call) \<Rightarrow> (oaddr \<Rightarrow> pfaddr \<Rightarrow> int call) \<Rightarrow>
    (oaddr \<Rightarrow> proc_call) \<Rightarrow> oaddr \<Rightarrow> u32 \<Rightarrow> bool \<Rightarrow> (int \<times> pfaddr option) call" where
  "shadow_lookuppage n H X lookuppage fillpage put ob pagenum forwrite s = do {
     ((err, pf), s) \<leftarrow>
       (if \<not> forwrite
        then do {
          (tempPf, s) \<leftarrow> shadow_lookup_loop n H X ob pagenum s;
          (case tempPf of
             Some pf \<Rightarrow> Some ((0, Some pf), s)
           | None \<Rightarrow> do { bottom \<leftarrow> shadow_bottom ob s; lookuppage bottom pagenum False s }) }
        else (case pframe_get_resident H X (Some ob) pagenum s of
            (Some pf, s) \<Rightarrow> Some ((0, Some pf), s)
          | (None, s) \<Rightarrow> do {
              ((err, pf), s) \<leftarrow> pframe_get n H X fillpage put ob pagenum s;
              if err < 0 then Some ((err, pf), s)
              else do {
                pf' \<leftarrow> pf;
                (_, s) \<leftarrow> pframe_dirty (mmobj_dirtypage X) pf' s;
                Some ((err, pf), s) } }));
     if err < 0 then Some ((err, pf), s)
     else do {
       pf' \<leftarrow> pf;
       KASSERT (pagenum = pf_pagenum (pframes s pf') \<and> \<not> pf_busy (pframes s pf'));
       Some ((0, pf), s) } }"

definition shadow_fillpage ::
  "nat \<Rightarrow> hdr \<Rightarrow> ext \<Rightarrow> (oaddr \<Rightarrow> u32 \<Rightarrow> bool \<Rightarrow> (int \<times> pfaddr option) call) \<Rightarrow> oaddr \<Rightarrow> pfaddr \<Rightarrow> int call" where
  "shadow_fillpage n H X lookuppage ob pf s = do {
     KASSERT (pf_busy (pframes s pf));
     KASSERT (\<not> pframe_is_pinned X (pframes s pf));
     (shadowpf, s) \<leftarrow> shadow_fill_loop n H X (Some ob) (pf_pagenum (pframes s pf)) s;
     (case shadowpf of
        Some shadowpf \<Rightarrow> do {
          dst \<leftarrow> pf_addr (pframes s pf);
          src \<leftarrow> pf_addr (pframes s shadowpf);
          s \<leftarrow> pframe_pin X pf (s\<lparr>phys := (phys s)(dst := phys s src)\<rparr>);
          Some (0, s) }
      | None \<Rightarrow> do {
          bottom \<leftarrow> shadow_bottom ob s;
          ((err, shadowpf), s) \<leftarrow> lookuppage bottom (pf_pagenum (pframes s pf)) False s;
          if err \<ge> 0
          then do {
            shadowpf \<leftarrow> shadowpf;
            dst \<leftarrow> pf_addr (pframes s pf);
            src \<leftarrow> pf_addr (pframes s shadowpf);
            s \<leftarrow> pframe_pin X pf (s\<lparr>phys := (phys s)(dst := phys s src)\<rparr>);
            Some (0, s) }
          else Some (err, s) }) }"

definition anon_lookuppage :: "nat \<Rightarrow> hdr \<Rightarrow> ext \<Rightarrow> (oaddr \<Rightarrow> pfaddr \<Rightarrow> int call) \<Rightarrow> (oaddr \<Rightarrow> proc_call) \<Rightarrow>
    oaddr \<Rightarrow> u32 \<Rightarrow> bool \<Rightarrow> (int \<times> pfaddr option) call" where
  "anon_lookuppage n H X fillpage put ob pagenum forwrite s = pframe_get n H X fillpage put ob pagenum s"

text \<open>\<open>o->mmo_ops->fillpage(o, pf)\<close> and \<open>o->mmo_ops->lookuppage(o, pagenum, forwrite, pf)\<close>.\<close>

fun mmobj_fillpage and mmobj_lookuppage where
  "mmobj_fillpage 0 H X ob pf s = (None :: (int \<times> kernel) option)"
| "mmobj_fillpage (Suc n) H X ob pf s = (case mmo_ops (mmobjs s ob) of
     Anon_mmobj_ops \<Rightarrow> anon_fillpage X ob pf s
   | Shadow_mmobj_ops \<Rightarrow> shadow_fillpage (Suc n) H X (mmobj_lookuppage n H X) ob pf s
   | Vnode_mmobj_ops \<Rightarrow> vno_fillpage X ob pf s)"
| "mmobj_lookuppage 0 H X ob pagenum forwrite s = (None :: ((int \<times> pfaddr option) \<times> kernel) option)"
| "mmobj_lookuppage (Suc n) H X ob pagenum forwrite s = (case mmo_ops (mmobjs s ob) of
     Anon_mmobj_ops \<Rightarrow>
       anon_lookuppage (Suc n) H X (mmobj_fillpage n H X) (mmobj_put (Suc n) H X) ob pagenum forwrite s
   | Shadow_mmobj_ops \<Rightarrow>
       shadow_lookuppage (Suc n) H X (mmobj_lookuppage n H X) (mmobj_fillpage n H X) (mmobj_put (Suc n) H X)
         ob pagenum forwrite s
   | Vnode_mmobj_ops \<Rightarrow> vno_lookuppage X ob pagenum forwrite s)"

definition pframe_lookup :: "nat \<Rightarrow> hdr \<Rightarrow> ext \<Rightarrow> oaddr option \<Rightarrow> u32 \<Rightarrow> bool \<Rightarrow> (int \<times> pfaddr option) call" where
  "pframe_lookup n H X ob pagenum forwrite s = do {
     ob \<leftarrow> ob;
     mmobj_lookuppage n H X ob pagenum forwrite s }"
end
