(* ===== verification/Page_Cache.thy ===== *)
theory Page_Cache
  imports Shadow "HOL-Library.Multiset"
begin

text \<open>
  The page cache: the allocated and pinned lists, the hash table and the resident pages of the
  objects describe one set of pages, each of which has one identity (an object and a page number).
  The invariant \<open>cache_inv\<close> says so, and the operations of \<open>pframe.c\<close> keep it.
\<close>

subsection \<open>The invariant\<close>

definition in_use :: "kernel \<Rightarrow> pfaddr set" where
  "in_use s = set (alloc_list s) \<union> set (pinned_list s)"

definition resident :: "kernel \<Rightarrow> oaddr \<Rightarrow> u32 \<Rightarrow> pfaddr \<Rightarrow> bool" where
  "resident s ob pn pf \<longleftrightarrow> pf \<in> in_use s \<and> pf_obj (pframes s pf) = Some ob \<and> pf_pagenum (pframes s pf) = pn"

definition lists_inv :: "kernel \<Rightarrow> bool" where
  "lists_inv s \<longleftrightarrow> distinct (alloc_list s @ pinned_list s) \<and>
     nallocated s = int (length (alloc_list s)) \<and> npinned s = int (length (pinned_list s)) \<and>
     (\<forall>pf\<in>set (alloc_list s). pf_pincount (pframes s pf) = 0) \<and>
     (\<forall>pf\<in>set (pinned_list s). 0 < pf_pincount (pframes s pf))"

definition ident_inv :: "kernel \<Rightarrow> bool" where
  "ident_inv s \<longleftrightarrow>
     (\<forall>pf\<in>in_use s. pf_obj (pframes s pf) \<noteq> None \<and> pf_addr (pframes s pf) \<noteq> None) \<and>
     (\<forall>pf\<in>in_use s. \<forall>pf'\<in>in_use s. pf_obj (pframes s pf) = pf_obj (pframes s pf') \<and>
        pf_pagenum (pframes s pf) = pf_pagenum (pframes s pf') \<longrightarrow> pf = pf') \<and>
     (\<forall>pf\<in>in_use s. \<forall>pf'\<in>in_use s. pf_addr (pframes s pf) = pf_addr (pframes s pf') \<longrightarrow> pf = pf')"

definition hash_inv :: "hdr \<Rightarrow> kernel \<Rightarrow> bool" where
  "hash_inv H s \<longleftrightarrow> (\<forall>i. distinct (pframe_hash s i) \<and> set (pframe_hash s i) =
     {pf \<in> in_use s. hash_page H (pf_obj (pframes s pf)) (pf_pagenum (pframes s pf)) = i})"

definition respages_inv :: "kernel \<Rightarrow> bool" where
  "respages_inv s \<longleftrightarrow> (\<forall>ob. distinct (mmo_respages (mmobjs s ob)) \<and>
     set (mmo_respages (mmobjs s ob)) = {pf \<in> in_use s. pf_obj (pframes s pf) = Some ob} \<and>
     mmo_nrespages (mmobjs s ob) = int (length (mmo_respages (mmobjs s ob))))"

definition cache_inv :: "hdr \<Rightarrow> kernel \<Rightarrow> bool" where
  "cache_inv H s \<longleftrightarrow> lists_inv s \<and> ident_inv s \<and> hash_inv H s \<and> respages_inv s"

lemmas cache_inv_defs = cache_inv_def lists_inv_def ident_inv_def hash_inv_def respages_inv_def

lemma resident_unique: "cache_inv H s \<Longrightarrow> resident s ob pn pf \<Longrightarrow> resident s ob pn pf' \<Longrightarrow> pf = pf'"
  by (simp add: cache_inv_def ident_inv_def resident_def)

lemma cache_inv_page:
  assumes "cache_inv H s" and "pf \<in> in_use s"
  obtains ob a where "pf_obj (pframes s pf) = Some ob" and "pf_addr (pframes s pf) = Some a"
  using assms by (auto simp: cache_inv_def ident_inv_def)

subsection \<open>Finding resident pages\<close>

lemma pframe_get_resident_find:
  assumes "cache_inv H s"
  shows "fst (pframe_get_resident H X ob pn s) = Some pf \<longleftrightarrow>
     pf \<in> in_use s \<and> pf_obj (pframes s pf) = ob \<and> pf_pagenum (pframes s pf) = pn"
proof -
  let ?P = "\<lambda>pf. ob = pf_obj (pframes s pf) \<and> pn = pf_pagenum (pframes s pf)"
  have chain: "set (pframe_hash s (hash_page H ob pn)) =
     {pf \<in> in_use s. hash_page H (pf_obj (pframes s pf)) (pf_pagenum (pframes s pf)) = hash_page H ob pn}"
    using assms by (simp add: cache_inv_def hash_inv_def)
  have uniq: "a = b" if "a \<in> set (pframe_hash s (hash_page H ob pn))"
     "b \<in> set (pframe_hash s (hash_page H ob pn))" "?P a" "?P b" for a b
  proof -
    have "a \<in> in_use s" "b \<in> in_use s" using that(1,2) by (simp_all add: chain)
    moreover have "pf_obj (pframes s a) = pf_obj (pframes s b)" "pf_pagenum (pframes s a) = pf_pagenum (pframes s b)"
      using that(3,4) by simp_all
    ultimately show "a = b" using assms by (simp add: cache_inv_def ident_inv_def)
  qed
  have "List.find ?P (pframe_hash s (hash_page H ob pn)) = Some pf \<longleftrightarrow>
     pf \<in> set (pframe_hash s (hash_page H ob pn)) \<and> ?P pf"
    by (rule find_unique) (rule uniq)
  moreover have "fst (pframe_get_resident H X ob pn s) = List.find ?P (pframe_hash s (hash_page H ob pn))"
    by (simp add: pframe_get_resident_def split: option.split)
  ultimately show ?thesis by (auto simp: chain)
qed

lemma pframe_get_resident_None:
  assumes "cache_inv H s"
  shows "fst (pframe_get_resident H X (Some ob) pn s) = None \<longleftrightarrow> (\<forall>pf. \<not> resident s ob pn pf)"
proof (cases "fst (pframe_get_resident H X (Some ob) pn s)")
  case None
  then have "\<not> resident s ob pn pf" for pf
    using pframe_get_resident_find [OF assms, of X "Some ob" pn pf] by (simp add: resident_def)
  then show ?thesis using None by simp
next
  case (Some pf)
  then have "resident s ob pn pf"
    using pframe_get_resident_find [OF assms, of X "Some ob" pn pf] by (simp add: resident_def)
  then show ?thesis using Some by auto
qed

lemma pframe_get_resident_null:
  assumes "cache_inv H s"
  shows "fst (pframe_get_resident H X None pn s) = None"
proof (cases "fst (pframe_get_resident H X None pn s)")
  case (Some pf)
  then have pf: "pf \<in> in_use s" "pf_obj (pframes s pf) = None"
    using pframe_get_resident_find [OF assms, of X None pn pf] by simp_all
  from cache_inv_page [OF assms pf(1)] pf(2) show ?thesis by simp
qed simp

text \<open>Its effect on the state: a page that is not pinned moves to the end of the allocated list.\<close>

definition touched :: "kernel \<Rightarrow> kernel \<Rightarrow> bool" where
  "touched s s' \<longleftrightarrow> (\<exists>l. s' = s\<lparr>alloc_list := l\<rparr> \<and> mset l = mset (alloc_list s))"

lemma touched_refl [simp]: "touched s s"
  unfolding touched_def by (intro exI [of _ "alloc_list s"]) simp

lemma touched_trans: "touched s s' \<Longrightarrow> touched s' s'' \<Longrightarrow> touched s s''"
  by (auto simp: touched_def)

lemma touched_simps:
  assumes "touched s s'"
  shows "in_use s' = in_use s" "pframes s' = pframes s" "mmobjs s' = mmobjs s" "phys s' = phys s"
    "slab s' = slab s" "pages s' = pages s" "queues s' = queues s" "pframe_hash s' = pframe_hash s"
    "live s' = live s" "vmareas s' = vmareas s" "vmmaps s' = vmmaps s" "procs s' = procs s"
    "pinned_list s' = pinned_list s" "set (alloc_list s') = set (alloc_list s)" "resident s' = resident s"
proof -
  obtain l where l: "s' = s\<lparr>alloc_list := l\<rparr>" "mset l = mset (alloc_list s)" using assms by (auto simp: touched_def)
  have "set l = set (alloc_list s)" using l(2) by (rule mset_eq_setD)
  then show "in_use s' = in_use s" "pframes s' = pframes s" "mmobjs s' = mmobjs s" "phys s' = phys s"
    "slab s' = slab s" "pages s' = pages s" "queues s' = queues s" "pframe_hash s' = pframe_hash s"
    "live s' = live s" "vmareas s' = vmareas s" "vmmaps s' = vmmaps s" "procs s' = procs s"
    "pinned_list s' = pinned_list s" "set (alloc_list s') = set (alloc_list s)" "resident s' = resident s"
    using l(1) by (simp_all add: in_use_def resident_def fun_eq_iff)
qed

lemma cache_inv_touched: "touched s s' \<Longrightarrow> cache_inv H s \<Longrightarrow> cache_inv H s'"
proof -
  assume t: "touched s s'" and inv: "cache_inv H s"
  obtain l where l: "s' = s\<lparr>alloc_list := l\<rparr>" "mset l = mset (alloc_list s)" using t by (auto simp: touched_def)
  have "distinct l = distinct (alloc_list s)" "length l = length (alloc_list s)" "set l = set (alloc_list s)"
    using l(2) by (blast dest: mset_eq_imp_distinct_iff, blast dest: mset_eq_length, blast dest: mset_eq_setD)
  then show ?thesis using inv l(1) by (simp add: cache_inv_defs in_use_def)
qed

lemma pframe_get_resident_Some:
  assumes "mm_api_ok X" and "fst (pframe_get_resident H X ob pn s) = Some pf"
  shows "snd (pframe_get_resident H X ob pn s) =
    (if \<not> 0 < pf_pincount (pframes s pf) then s\<lparr>alloc_list := remove1 pf (alloc_list s) @ [pf]\<rparr> else s)"
proof -
  let ?f = "List.find (\<lambda>pf. ob = pf_obj (pframes s pf) \<and> pn = pf_pagenum (pframes s pf))
     (pframe_hash s (hash_page H ob pn))"
  have "?f = Some pf" using assms(2) unfolding pframe_get_resident_def by (cases ?f) simp_all
  then show ?thesis unfolding pframe_get_resident_def mm_api_simps(3) [OF assms(1)]
    by (simp only: option.case snd_conv)
qed

lemma pframe_get_resident_same:
  assumes "fst (pframe_get_resident H X ob pn s) = None"
  shows "snd (pframe_get_resident H X ob pn s) = s"
proof -
  let ?f = "List.find (\<lambda>pf. ob = pf_obj (pframes s pf) \<and> pn = pf_pagenum (pframes s pf))
     (pframe_hash s (hash_page H ob pn))"
  have "?f = None" using assms unfolding pframe_get_resident_def by (cases ?f) simp_all
  then show ?thesis unfolding pframe_get_resident_def by (simp only: option.case snd_conv)
qed

lemma touched_move:
  "pf \<in> set (alloc_list s) \<Longrightarrow> touched s (s\<lparr>alloc_list := remove1 pf (alloc_list s) @ [pf]\<rparr>)"
  unfolding touched_def by (rule exI [of _ "remove1 pf (alloc_list s) @ [pf]"]) simp

lemma pframe_get_resident_touched:
  assumes "cache_inv H s" and "mm_api_ok X"
  shows "touched s (snd (pframe_get_resident H X ob pn s))"
proof (cases "fst (pframe_get_resident H X ob pn s)")
  case None
  then show ?thesis by (simp add: pframe_get_resident_same)
next
  case (Some pf)
  then have use: "pf \<in> in_use s" using pframe_get_resident_find [OF assms(1), of X ob pn pf] by simp
  have "pf \<in> set (alloc_list s)" if "\<not> 0 < pf_pincount (pframes s pf)"
    using use assms(1) that by (auto simp: cache_inv_def lists_inv_def in_use_def)
  then show ?thesis using touched_move [of pf s] unfolding pframe_get_resident_Some [OF assms(2) Some] by simp
qed

text \<open>Only the identities of the pages matter to the parts of the invariant other than the two lists.\<close>

definition same_pages :: "kernel \<Rightarrow> kernel \<Rightarrow> bool" where
  "same_pages s s' \<longleftrightarrow> in_use s' = in_use s \<and> pframe_hash s' = pframe_hash s \<and>
     (\<forall>pf. pf_obj (pframes s' pf) = pf_obj (pframes s pf) \<and> pf_pagenum (pframes s' pf) = pf_pagenum (pframes s pf) \<and>
           pf_addr (pframes s' pf) = pf_addr (pframes s pf)) \<and>
     (\<forall>ob. mmo_respages (mmobjs s' ob) = mmo_respages (mmobjs s ob) \<and> mmo_nrespages (mmobjs s' ob) = mmo_nrespages (mmobjs s ob))"

lemma same_pagesD:
  assumes "same_pages s s'"
  shows "in_use s' = in_use s" "pframe_hash s' = pframe_hash s" "pf_obj (pframes s' pf) = pf_obj (pframes s pf)"
    "pf_pagenum (pframes s' pf) = pf_pagenum (pframes s pf)" "pf_addr (pframes s' pf) = pf_addr (pframes s pf)"
    "mmo_respages (mmobjs s' ob) = mmo_respages (mmobjs s ob)" "mmo_nrespages (mmobjs s' ob) = mmo_nrespages (mmobjs s ob)"
  using assms by (simp_all add: same_pages_def)

lemma cache_inv_same_pages:
  assumes "same_pages s s'" and "cache_inv H s" and "lists_inv s'"
  shows "cache_inv H s'"
  using assms(2,3) unfolding cache_inv_def ident_inv_def hash_inv_def respages_inv_def same_pagesD [OF assms(1)]
  by blast

lemma resident_same_pages: "same_pages s s' \<Longrightarrow> resident s' = resident s"
  by (intro ext) (simp add: resident_def same_pagesD)

subsection \<open>Allocating\<close>

definition refable :: "kernel \<Rightarrow> oaddr \<Rightarrow> bool" where
  "refable s ob \<longleftrightarrow> 0 < mmo_refcount (mmobjs s ob) \<and> mmo_ops (mmobjs s ob) \<noteq> Vnode_mmobj_ops"

lemma mmobj_ref_eq:
  "refable s ob \<Longrightarrow>
    mmobj_ref X ob s = Some (s\<lparr>mmobjs := (mmobjs s)(ob := (mmobjs s ob)\<lparr>mmo_refcount := mmo_refcount (mmobjs s ob) + 1\<rparr>)\<rparr>)"
  by (cases "mmo_ops (mmobjs s ob)")
    (simp_all add: refable_def mmobj_ref_def anon_ref_def shadow_ref_def upd_mmobj_def)

definition cached :: "hdr \<Rightarrow> oaddr \<Rightarrow> u32 \<Rightarrow> pfaddr \<Rightarrow> nat \<Rightarrow> kernel \<Rightarrow> kernel" where
  "cached H ob pn pf a s = (let i = hash_page H (Some ob) pn; m = mmobjs s ob in
     s\<lparr>slab := tl (slab s), pages := tl (pages s), live := insert a (insert pf (live s)),
       nallocated := nallocated s + 1, alloc_list := alloc_list s @ [pf],
       pframes := (pframes s)(pf := \<lparr>pf_addr = Some a, pf_obj = Some ob, pf_pagenum = pn, pf_busy = False,
                                     pf_dirty = False, pf_pincount = 0\<rparr>),
       queues := (queues s)(Pf_waitq pf := \<lparr>tq_list = [], tq_size = 0\<rparr>),
       pframe_hash := (pframe_hash s)(i := pf # pframe_hash s i),
       mmobjs := (mmobjs s)(ob := m\<lparr>mmo_refcount := mmo_refcount m + 1,
          mmo_nrespages := mmo_nrespages m + 1, mmo_respages := pf # mmo_respages m\<rparr>)\<rparr>)"

lemma pframe_fields:
  "f\<lparr>pf_addr := Some a, pf_obj := Some ob, pf_pagenum := pn, pf_busy := False, pf_dirty := False, pf_pincount := 0\<rparr> =
   \<lparr>pf_addr = Some a, pf_obj = Some ob, pf_pagenum = pn, pf_busy = False, pf_dirty = False, pf_pincount = 0\<rparr>"
  by simp

lemma pframe_alloc_eq:
  assumes "slab s = Some pf # ps" and "pages s = Some a # as" and "refable s ob"
  shows "pframe_alloc H X ob pn s = Some (Some pf, cached H ob pn pf a s)"
proof -
  have ref: "refable s1 ob" if "mmobjs s1 = mmobjs s" for s1
    using assms(3) that by (simp add: refable_def)
  show ?thesis using assms(1,2)
    by (simp add: pframe_alloc_def slab_obj_alloc_def page_alloc_def upd_pframe_def upd_mmobj_def
        sched_queue_init_def mmobj_ref_eq ref cached_def Let_def pframe_fields)
qed

lemma in_use_cached [simp]: "in_use (cached H ob pn pf a s) = insert pf (in_use s)"
  by (auto simp: in_use_def cached_def Let_def)

lemma cache_inv_cached:
  assumes inv: "cache_inv H s" and pf: "pf \<notin> in_use s" and a: "\<forall>x\<in>in_use s. pf_addr (pframes s x) \<noteq> Some a"
    and nr: "\<forall>x. \<not> resident s ob pn x"
  shows "cache_inv H (cached H ob pn pf a s)"
proof -
  let ?s = "cached H ob pn pf a s"
  have fr: "pframes ?s x = pframes s x" if "x \<in> in_use s" for x
    using that pf by (auto simp: cached_def Let_def)
  have new: "pframes ?s pf = \<lparr>pf_addr = Some a, pf_obj = Some ob, pf_pagenum = pn, pf_busy = False, pf_dirty = False, pf_pincount = 0\<rparr>"
    by (simp add: cached_def Let_def)
  have lists: "alloc_list ?s = alloc_list s @ [pf]" "pinned_list ?s = pinned_list s"
    "nallocated ?s = nallocated s + 1" "npinned ?s = npinned s" by (simp_all add: cached_def Let_def)
  have "lists_inv ?s"
    using inv pf fr by (auto simp: cache_inv_def lists_inv_def lists new in_use_def)
  moreover have "ident_inv ?s"
    using inv a nr by (auto simp: cache_inv_def ident_inv_def fr new resident_def)
  moreover have "hash_inv H ?s"
  proof -
    have "pframe_hash ?s i = (if i = hash_page H (Some ob) pn then pf # pframe_hash s i else pframe_hash s i)" for i
      by (simp add: cached_def Let_def)
    moreover have "{x \<in> insert pf (in_use s). hash_page H (pf_obj (pframes ?s x)) (pf_pagenum (pframes ?s x)) = i} =
       (if i = hash_page H (Some ob) pn then {pf} else {}) \<union>
       {x \<in> in_use s. hash_page H (pf_obj (pframes s x)) (pf_pagenum (pframes s x)) = i}" for i
      using fr new by auto
    ultimately show ?thesis using inv pf by (auto simp: cache_inv_def hash_inv_def)
  qed
  moreover have "respages_inv ?s"
  proof -
    have m: "mmobjs ?s x = (if x = ob then (mmobjs s ob)\<lparr>mmo_refcount := mmo_refcount (mmobjs s ob) + 1,
          mmo_nrespages := mmo_nrespages (mmobjs s ob) + 1, mmo_respages := pf # mmo_respages (mmobjs s ob)\<rparr>
        else mmobjs s x)" for x
      by (simp add: cached_def Let_def)
    have "{x \<in> insert pf (in_use s). pf_obj (pframes ?s x) = Some ob'} =
       (if ob' = ob then {pf} else {}) \<union> {x \<in> in_use s. pf_obj (pframes s x) = Some ob'}" for ob'
      using fr new by auto
    then show ?thesis using inv pf by (auto simp: cache_inv_def respages_inv_def m)
  qed
  ultimately show ?thesis by (simp add: cache_inv_def)
qed

subsection \<open>Pinning\<close>

definition pinned_state :: "pfaddr \<Rightarrow> kernel \<Rightarrow> kernel" where
  "pinned_state pf s = s\<lparr>pframes := (pframes s)(pf := (pframes s pf)\<lparr>pf_pincount := 1\<rparr>),
      alloc_list := remove1 pf (alloc_list s), nallocated := nallocated s - 1,
      pinned_list := pinned_list s @ [pf], npinned := npinned s + 1\<rparr>"

lemma pframe_pin_first:
  assumes "mm_api_ok X" and "pf_obj (pframes s pf) \<noteq> None" and "pf_pincount (pframes s pf) = 0"
  shows "pframe_pin X pf s = Some (pinned_state pf s)"
  using assms(2,3) by (simp add: pframe_pin_def mm_api_simps [OF assms(1)] upd_pframe_def pinned_state_def)

lemma pinned_state_simps:
  "pframes (pinned_state pf s) x = (if x = pf then (pframes s pf)\<lparr>pf_pincount := 1\<rparr> else pframes s x)"
  "mmobjs (pinned_state pf s) = mmobjs s" "phys (pinned_state pf s) = phys s"
  "pframe_hash (pinned_state pf s) = pframe_hash s" "queues (pinned_state pf s) = queues s"
  "slab (pinned_state pf s) = slab s" "pages (pinned_state pf s) = pages s" "live (pinned_state pf s) = live s"
  by (simp_all add: pinned_state_def)

lemma in_use_pinned: "lists_inv s \<Longrightarrow> pf \<in> set (alloc_list s) \<Longrightarrow> in_use (pinned_state pf s) = in_use s"
  by (auto simp: in_use_def pinned_state_def lists_inv_def)

lemma cache_inv_pinned:
  assumes inv: "cache_inv H s" and pf: "pf \<in> set (alloc_list s)"
  shows "cache_inv H (pinned_state pf s)"
proof (rule cache_inv_same_pages [OF _ inv])
  have l: "lists_inv s" using inv by (simp add: cache_inv_def)
  then show "same_pages s (pinned_state pf s)"
    using pf by (simp add: same_pages_def in_use_pinned pinned_state_simps)
  show "lists_inv (pinned_state pf s)"
    using l pf by (auto simp: lists_inv_def pinned_state_def int_length_remove1)
qed

definition unpinned_state :: "pfaddr \<Rightarrow> kernel \<Rightarrow> kernel" where
  "unpinned_state pf s = s\<lparr>pframes := (pframes s)(pf := (pframes s pf)\<lparr>pf_pincount := 0\<rparr>),
      pinned_list := remove1 pf (pinned_list s), npinned := npinned s - 1,
      alloc_list := alloc_list s @ [pf], nallocated := nallocated s + 1\<rparr>"

lemma pframe_unpin_last:
  assumes "mm_api_ok X" and "pf_obj (pframes s pf) \<noteq> None" and "pf_pincount (pframes s pf) = 1"
  shows "pframe_unpin X pf s = Some (unpinned_state pf s)"
  using assms(2,3) by (simp add: pframe_unpin_def mm_api_simps [OF assms(1)] upd_pframe_def unpinned_state_def)

lemma unpinned_state_simps:
  "pframes (unpinned_state pf s) x = (if x = pf then (pframes s pf)\<lparr>pf_pincount := 0\<rparr> else pframes s x)"
  "mmobjs (unpinned_state pf s) = mmobjs s" "phys (unpinned_state pf s) = phys s"
  "pframe_hash (unpinned_state pf s) = pframe_hash s" "queues (unpinned_state pf s) = queues s"
  "slab (unpinned_state pf s) = slab s" "pages (unpinned_state pf s) = pages s" "live (unpinned_state pf s) = live s"
  "vmareas (unpinned_state pf s) = vmareas s" "vmmaps (unpinned_state pf s) = vmmaps s" "procs (unpinned_state pf s) = procs s"
  "set (alloc_list (unpinned_state pf s)) = insert pf (set (alloc_list s))"
  by (auto simp: unpinned_state_def)

lemma in_use_unpinned: "lists_inv s \<Longrightarrow> pf \<in> set (pinned_list s) \<Longrightarrow> in_use (unpinned_state pf s) = in_use s"
  by (auto simp: in_use_def unpinned_state_def lists_inv_def)

lemma cache_inv_unpinned:
  assumes inv: "cache_inv H s" and pf: "pf \<in> set (pinned_list s)"
  shows "cache_inv H (unpinned_state pf s)"
proof (rule cache_inv_same_pages [OF _ inv])
  have l: "lists_inv s" using inv by (simp add: cache_inv_def)
  then show "same_pages s (unpinned_state pf s)"
    using pf by (simp add: same_pages_def in_use_unpinned unpinned_state_simps)
  show "lists_inv (unpinned_state pf s)"
    using l pf by (auto simp: lists_inv_def unpinned_state_def int_length_remove1)
qed

text \<open>A pin or an unpin that does not change the list only changes the count.\<close>

lemma cache_inv_pincount:
  assumes inv: "cache_inv H s" and pf: "pf \<in> set (pinned_list s)" and "0 < c"
  shows "cache_inv H (s\<lparr>pframes := (pframes s)(pf := (pframes s pf)\<lparr>pf_pincount := c\<rparr>)\<rparr>)"
proof (rule cache_inv_same_pages [OF _ inv])
  show "same_pages s (s\<lparr>pframes := (pframes s)(pf := (pframes s pf)\<lparr>pf_pincount := c\<rparr>)\<rparr>)"
    by (simp add: same_pages_def in_use_def)
  show "lists_inv (s\<lparr>pframes := (pframes s)(pf := (pframes s pf)\<lparr>pf_pincount := c\<rparr>)\<rparr>)"
    using inv assms(2,3) by (auto simp: cache_inv_def lists_inv_def)
qed

lemma pframe_pin_keeps:
  assumes "cache_inv H s" and "mm_api_ok X" and "pf \<in> in_use s"
  shows "\<exists>s'. pframe_pin X pf s = Some s' \<and> cache_inv H s' \<and> in_use s' = in_use s \<and>
     pf \<in> set (pinned_list s') \<and> pf_pincount (pframes s' pf) = pf_pincount (pframes s pf) + 1"
proof (cases "pf \<in> set (alloc_list s)")
  case True
  then have "pf_pincount (pframes s pf) = 0" "lists_inv s" "pf_obj (pframes s pf) \<noteq> None"
    using assms(1,3) by (auto simp: cache_inv_def lists_inv_def ident_inv_def)
  then show ?thesis
    using pframe_pin_first [OF assms(2), of s pf] cache_inv_pinned [OF assms(1) True] in_use_pinned [of s pf] True
    by (simp add: pinned_state_def)
next
  case False
  then have pf: "pf \<in> set (pinned_list s)" "0 < pf_pincount (pframes s pf)" "pf_obj (pframes s pf) \<noteq> None"
    using assms(1,3) by (auto simp: cache_inv_def lists_inv_def ident_inv_def in_use_def)
  then show ?thesis
    using cache_inv_pincount [OF assms(1) pf(1), of "pf_pincount (pframes s pf) + 1"]
    by (simp add: pframe_pin_def mm_api_simps [OF assms(2)] upd_pframe_def in_use_def)
qed

lemma pframe_unpin_keeps:
  assumes "cache_inv H s" and "mm_api_ok X" and "pf \<in> set (pinned_list s)"
  shows "\<exists>s'. pframe_unpin X pf s = Some s' \<and> cache_inv H s' \<and> in_use s' = in_use s \<and>
     pf_pincount (pframes s' pf) = pf_pincount (pframes s pf) - 1 \<and>
     (pf \<in> set (alloc_list s') \<longleftrightarrow> pf_pincount (pframes s pf) = 1)"
proof -
  have pf: "0 < pf_pincount (pframes s pf)" "pf_obj (pframes s pf) \<noteq> None" "pf \<notin> set (alloc_list s)" "lists_inv s"
    using assms(1,3) by (auto simp: cache_inv_def lists_inv_def ident_inv_def in_use_def)
  show ?thesis
  proof (cases "pf_pincount (pframes s pf) = 1")
    case True
    then show ?thesis
      using pframe_unpin_last [OF assms(2) pf(2) True] cache_inv_unpinned [OF assms(1,3)] in_use_unpinned [OF pf(4) assms(3)]
      by (simp add: unpinned_state_simps)
  next
    case False
    then show ?thesis
      using cache_inv_pincount [OF assms(1,3), of "pf_pincount (pframes s pf) - 1"] pf
      by (simp add: pframe_unpin_def mm_api_simps [OF assms(2)] upd_pframe_def in_use_def)
  qed
qed

subsection \<open>Freeing\<close>

definition pts_ok :: "ext \<Rightarrow> kernel \<Rightarrow> oaddr \<Rightarrow> bool" where
  "pts_ok X s ob \<longleftrightarrow> (\<exists>l. mmobj_bottom_vmas X ob s = Some l \<and> (\<forall>v\<in>set l. vma_vmmap (vmareas s v) \<noteq> None))"

lemma remove_from_pts_loop_hw:
  "(\<forall>v\<in>set l. vma_vmmap (vmareas s v) \<noteq> None) \<Longrightarrow> \<exists>w. remove_from_pts_loop H pn l s = Some (s\<lparr>hw := w\<rparr>)"
proof (induction l arbitrary: s)
  case Nil
  show ?case by (rule exI [of _ "hw s"]) simp
next
  case (Cons v l)
  then obtain m where m: "vma_vmmap (vmareas s v) = Some m" by auto
  have IH: "\<exists>w. remove_from_pts_loop H pn l (log_hw c s) = Some (s\<lparr>hw := w\<rparr>)" for c
    using Cons.IH [of "log_hw c s"] Cons.prems by (simp add: log_hw_def)
  have "\<exists>w. remove_from_pts_loop H pn l s = Some (s\<lparr>hw := w\<rparr>)" using Cons by simp
  then show ?case using IH m by (simp add: Let_def split: option.split)
qed

lemma pframe_remove_from_pts_hw:
  assumes "pf_obj (pframes s pf) = Some ob" and "pts_ok X s ob"
  shows "\<exists>w. pframe_remove_from_pts H X pf s = Some (s\<lparr>hw := w\<rparr>)"
  using assms remove_from_pts_loop_hw [of _ s H "pf_pagenum (pframes s pf)"]
  by (auto simp: pframe_remove_from_pts_def pts_ok_def)

definition uncached :: "hdr \<Rightarrow> oaddr \<Rightarrow> pfaddr \<Rightarrow> nat \<Rightarrow> kernel \<Rightarrow> kernel" where
  "uncached H ob pf a s = (let i = hash_page H (Some ob) (pf_pagenum (pframes s pf)); m = mmobjs s ob in
     s\<lparr>pframe_hash := (pframe_hash s)(i := remove1 pf (pframe_hash s i)),
       pframes := (pframes s)(pf := (pframes s pf)\<lparr>pf_obj := None\<rparr>),
       nallocated := nallocated s - 1, alloc_list := remove1 pf (alloc_list s),
       live := live s - {a} - {pf},
       mmobjs := (mmobjs s)(ob := m\<lparr>mmo_nrespages := mmo_nrespages m - 1, mmo_respages := remove1 pf (mmo_respages m)\<rparr>)\<rparr>)"

lemma pframe_free_eq:
  assumes "mm_api_ok X" and "pf_obj (pframes s pf) = Some ob" and "pf_addr (pframes s pf) = Some a"
    and "pf_pincount (pframes s pf) = 0" and "\<not> pf_busy (pframes s pf)" and "pts_ok X s ob"
  shows "\<exists>w. pframe_free H X put pf s = put ob (uncached H ob pf a (s\<lparr>hw := w\<rparr>))"
proof -
  let ?s1 = "log_hw (Tlb_flush (Some a)) s"
  have "pts_ok X ?s1 ob" using assms(6) by (simp add: pts_ok_def mmobj_bottom_vmas_def log_hw_def)
  moreover have "pf_obj (pframes ?s1 pf) = Some ob" using assms(2) by (simp add: log_hw_def)
  ultimately obtain w where w: "pframe_remove_from_pts H X pf ?s1 = Some (s\<lparr>hw := w\<rparr>)"
    using pframe_remove_from_pts_hw [of ?s1 pf ob X H] by (auto simp: log_hw_def)
  have "pframe_free H X put pf s = put ob (uncached H ob pf a (s\<lparr>hw := w\<rparr>))"
    using assms(2-5) w
    by (simp add: pframe_free_def mm_api_simps [OF assms(1)] upd_pframe_def upd_mmobj_def page_free_def
        slab_obj_free_def uncached_def Let_def)
  then show ?thesis by blast
qed

lemma in_use_uncached:
  "lists_inv s \<Longrightarrow> pf \<in> set (alloc_list s) \<Longrightarrow> in_use (uncached H ob pf a s) = in_use s - {pf}"
  by (auto simp: in_use_def uncached_def Let_def lists_inv_def)

lemma uncached_simps:
  "pframes (uncached H ob pf a s) x = (if x = pf then (pframes s pf)\<lparr>pf_obj := None\<rparr> else pframes s x)"
  "mmobjs (uncached H ob pf a s) x = (if x = ob then (mmobjs s ob)\<lparr>mmo_nrespages := mmo_nrespages (mmobjs s ob) - 1,
      mmo_respages := remove1 pf (mmo_respages (mmobjs s ob))\<rparr> else mmobjs s x)"
  "phys (uncached H ob pf a s) = phys s" "queues (uncached H ob pf a s) = queues s"
  "vmareas (uncached H ob pf a s) = vmareas s" "vmmaps (uncached H ob pf a s) = vmmaps s"
  "procs (uncached H ob pf a s) = procs s" "live (uncached H ob pf a s) = live s - {a} - {pf}"
  "slab (uncached H ob pf a s) = slab s" "pages (uncached H ob pf a s) = pages s"
  by (simp_all add: uncached_def Let_def)

lemma cache_inv_uncached:
  assumes inv: "cache_inv H s" and pf: "pf \<in> set (alloc_list s)" and ob: "pf_obj (pframes s pf) = Some ob"
  shows "cache_inv H (uncached H ob pf a s)"
proof -
  let ?s = "uncached H ob pf a s"
  have l: "lists_inv s" using inv by (simp add: cache_inv_def)
  note u = in_use_uncached [OF l pf, of H ob a]
  have use: "pf \<in> in_use s" using pf by (simp add: in_use_def)
  have "lists_inv ?s"
    using l pf by (auto simp: lists_inv_def uncached_def Let_def int_length_remove1)
  moreover have "ident_inv ?s"
    using inv by (simp add: cache_inv_def ident_inv_def u uncached_simps)
  moreover have "hash_inv H ?s"
  proof -
    let ?h = "hash_page H (Some ob) (pf_pagenum (pframes s pf))"
    have h: "pframe_hash ?s i = (if i = ?h then remove1 pf (pframe_hash s i) else pframe_hash s i)" for i
      by (simp add: uncached_def Let_def)
    have "distinct (pframe_hash s i)" "set (pframe_hash s i) =
       {x \<in> in_use s. hash_page H (pf_obj (pframes s x)) (pf_pagenum (pframes s x)) = i}" for i
      using inv by (simp_all add: cache_inv_def hash_inv_def)
    moreover have "{x \<in> in_use s - {pf}. hash_page H (pf_obj (pframes ?s x)) (pf_pagenum (pframes ?s x)) = i} =
       {x \<in> in_use s. hash_page H (pf_obj (pframes s x)) (pf_pagenum (pframes s x)) = i} - {pf}" for i
      by (auto simp: uncached_simps)
    ultimately show ?thesis using ob by (auto simp: hash_inv_def h u)
  qed
  moreover have "respages_inv ?s"
  proof -
    have r: "distinct (mmo_respages (mmobjs s o'))" "set (mmo_respages (mmobjs s o')) = {x \<in> in_use s. pf_obj (pframes s x) = Some o'}"
       "mmo_nrespages (mmobjs s o') = int (length (mmo_respages (mmobjs s o')))" for o'
      using inv by (simp_all add: cache_inv_def respages_inv_def)
    have "{x \<in> in_use s - {pf}. pf_obj (pframes ?s x) = Some o'} = {x \<in> in_use s. pf_obj (pframes s x) = Some o'} - {pf}" for o'
      by (auto simp: uncached_simps)
    moreover have "pf \<in> set (mmo_respages (mmobjs s ob))" using use ob by (simp add: r)
    ultimately show ?thesis using r ob by (auto simp: respages_inv_def u uncached_simps int_length_remove1)
  qed
  ultimately show ?thesis by (simp add: cache_inv_def)
qed

lemma cache_inv_hw [simp]: "cache_inv H (s\<lparr>hw := w\<rparr>) = cache_inv H s"
  by (simp add: cache_inv_def lists_inv_def ident_inv_def hash_inv_def respages_inv_def in_use_def)

text \<open>Writing the reference count of an object.\<close>

lemma cache_inv_refcount:
  "cache_inv H s \<Longrightarrow> cache_inv H (upd_mmobj ob (\<lambda>m. m\<lparr>mmo_refcount := r\<rparr>) s)"
  by (rule cache_inv_same_pages [of s])
    (simp_all add: same_pages_def upd_mmobj_def in_use_def cache_inv_def lists_inv_def)

subsection \<open>Dropping a reference that is not the last\<close>

lemma mmobj_put_nonlast:
  assumes "refable s ob" and "mmo_refcount (mmobjs s ob) \<noteq> mmo_nrespages (mmobjs s ob) + 1"
  shows "mmobj_put (Suc n) H X ob s = Some (upd_mmobj ob (\<lambda>m. m\<lparr>mmo_refcount := mmo_refcount m - 1\<rparr>) s)"
  using assms by (cases "mmo_ops (mmobjs s ob)") (auto simp: refable_def anon_put_def shadow_put_def)

text \<open>Freeing the pages of an object: \<open>droppable\<close> pages are not busy and pinned at most once.\<close>

definition droppable :: "kernel \<Rightarrow> pfaddr \<Rightarrow> bool" where
  "droppable s pf \<longleftrightarrow> \<not> pf_busy (pframes s pf) \<and> pf_pincount (pframes s pf) \<le> 1"

definition dropped :: "oaddr \<Rightarrow> pfaddr list \<Rightarrow> kernel \<Rightarrow> kernel \<Rightarrow> bool" where
  "dropped ob pfs s s' \<longleftrightarrow>
     in_use s' = in_use s - set pfs \<and> (\<forall>x. x \<notin> set pfs \<longrightarrow> pframes s' x = pframes s x) \<and>
     (\<forall>o'. o' \<noteq> ob \<longrightarrow> mmobjs s' o' = mmobjs s o') \<and>
     mmo_refcount (mmobjs s' ob) = mmo_refcount (mmobjs s ob) - int (length pfs) \<and>
     mmo_nrespages (mmobjs s' ob) = mmo_nrespages (mmobjs s ob) - int (length pfs) \<and>
     mmo_ops (mmobjs s' ob) = mmo_ops (mmobjs s ob) \<and> mmo_shadowed (mmobjs s' ob) = mmo_shadowed (mmobjs s ob) \<and>
     mmo_un (mmobjs s' ob) = mmo_un (mmobjs s ob) \<and>
     phys s' = phys s \<and> vmareas s' = vmareas s \<and> vmmaps s' = vmmaps s \<and> queues s' = queues s \<and>
     live s' = live s - set pfs - {a. \<exists>pf\<in>set pfs. pf_addr (pframes s pf) = Some a}"

lemma free_page_ok:
  assumes inv: "cache_inv H s" and api: "mm_api_ok X" and r: "resident s ob pn pf" and d: "droppable s pf"
    and pts: "pts_ok X s ob" and ref: "refable s ob"
    and last: "mmo_refcount (mmobjs s ob) \<noteq> mmo_nrespages (mmobjs s ob)"
  shows "\<exists>s1 s'. (if pframe_is_pinned X (pframes s pf) then pframe_unpin X pf s else Some s) = Some s1 \<and>
     pframe_free H X (mmobj_put (Suc n) H X) pf s1 = Some s' \<and> cache_inv H s' \<and> dropped ob [pf] s s' \<and>
     mmo_respages (mmobjs s' ob) = remove1 pf (mmo_respages (mmobjs s ob))"
proof -
  have use: "pf \<in> in_use s" and ob: "pf_obj (pframes s pf) = Some ob" using r by (simp_all add: resident_def)
  obtain a where a: "pf_addr (pframes s pf) = Some a" using cache_inv_page [OF inv use] by metis
  have l: "lists_inv s" using inv by (simp add: cache_inv_def)
  define s1 where "s1 = (if 0 < pf_pincount (pframes s pf) then unpinned_state pf s else s)"
  have pin: "(if pframe_is_pinned X (pframes s pf) then pframe_unpin X pf s else Some s) = Some s1"
    using d ob pframe_unpin_last [OF api, of s pf] by (auto simp: s1_def mm_api_simps(3) [OF api] droppable_def)
  have pinned: "pf \<in> set (pinned_list s)" if "0 < pf_pincount (pframes s pf)"
    using l use that by (auto simp: lists_inv_def in_use_def)
  have al: "pf \<in> set (alloc_list s)" if "\<not> 0 < pf_pincount (pframes s pf)"
    using l use that by (auto simp: lists_inv_def in_use_def)
  have same: "(pframes s)(pf := (pframes s pf)\<lparr>pf_pincount := 0\<rparr>) = pframes s" if "\<not> 0 < pf_pincount (pframes s pf)"
  proof -
    have "pf_pincount (pframes s pf) = 0" using l al [OF that] by (simp add: lists_inv_def)
    then have "(pframes s pf)\<lparr>pf_pincount := 0\<rparr> = pframes s pf" by (metis pframe.update_convs(6) pframe.surjective pframe.select_convs(6))
    then show ?thesis by simp
  qed
  have s1: "cache_inv H s1" "in_use s1 = in_use s" "pf \<in> set (alloc_list s1)"
     "pframes s1 = (pframes s)(pf := (pframes s pf)\<lparr>pf_pincount := 0\<rparr>)"
     "mmobjs s1 = mmobjs s" "phys s1 = phys s" "vmareas s1 = vmareas s" "vmmaps s1 = vmmaps s" "queues s1 = queues s" "live s1 = live s"
    using cache_inv_unpinned [OF inv pinned] in_use_unpinned [OF l pinned] inv al same
    by (auto simp: s1_def unpinned_state_simps fun_eq_iff)
  have "pts_ok X s1 ob" using pts by (simp add: pts_ok_def mmobj_bottom_vmas_def s1)
  with a ob d obtain w where
    w: "pframe_free H X (mmobj_put (Suc n) H X) pf s1 = mmobj_put (Suc n) H X ob (uncached H ob pf a (s1\<lparr>hw := w\<rparr>))"
    using pframe_free_eq [OF api, of s1 pf ob a H "mmobj_put (Suc n) H X"] by (auto simp: s1(4) droppable_def)
  let ?s2 = "uncached H ob pf a (s1\<lparr>hw := w\<rparr>)"
  have inv2: "cache_inv H ?s2" using s1 ob by (intro cache_inv_uncached) simp_all
  have "refable ?s2 ob" "mmo_refcount (mmobjs ?s2 ob) \<noteq> mmo_nrespages (mmobjs ?s2 ob) + 1"
    using ref last by (simp_all add: refable_def uncached_simps s1(5))
  then have put: "mmobj_put (Suc n) H X ob ?s2 = Some (upd_mmobj ob (\<lambda>m. m\<lparr>mmo_refcount := mmo_refcount m - 1\<rparr>) ?s2)"
    by (rule mmobj_put_nonlast)
  let ?s3 = "upd_mmobj ob (\<lambda>m. m\<lparr>mmo_refcount := mmo_refcount m - 1\<rparr>) ?s2"
  have "cache_inv H ?s3"
    using cache_inv_refcount [OF inv2, of ob "mmo_refcount (mmobjs ?s2 ob) - 1"] by (simp add: upd_mmobj_def)
  moreover have "dropped ob [pf] s ?s3"
  proof -
    have "in_use ?s3 = in_use s - {pf}"
      using in_use_uncached [of "s1\<lparr>hw := w\<rparr>" pf H ob a] s1(1-3)
      by (simp add: in_use_def upd_mmobj_def cache_inv_def lists_inv_def)
    then show ?thesis
      using a by (auto simp: dropped_def upd_mmobj_def uncached_simps s1)
  qed
  moreover have "mmo_respages (mmobjs ?s3 ob) = remove1 pf (mmo_respages (mmobjs s ob))"
    by (simp add: upd_mmobj_def uncached_simps s1(5))
  ultimately show ?thesis using pin w put by auto
qed

lemma dropped_obj:
  assumes "dropped ob pfs s s'"
  shows "mmo_ops (mmobjs s' o') = mmo_ops (mmobjs s o')" "mmo_shadowed (mmobjs s' o') = mmo_shadowed (mmobjs s o')"
    "mmo_un (mmobjs s' o') = mmo_un (mmobjs s o')" "vmareas s' = vmareas s"
  using assms by (cases "o' = ob"; simp add: dropped_def)+

lemma dropped_counts:
  assumes "dropped ob pfs s s'"
  shows "mmo_refcount (mmobjs s' ob) = mmo_refcount (mmobjs s ob) - int (length pfs)"
    "mmo_nrespages (mmobjs s' ob) = mmo_nrespages (mmobjs s ob) - int (length pfs)"
  using assms by (simp_all add: dropped_def)

lemma dropped_step:
  assumes 1: "dropped ob [pf] s s1" and 2: "dropped ob pfs s1 s'" and "pf \<notin> set pfs"
  shows "dropped ob (pf # pfs) s s'"
proof -
  have "pf_addr (pframes s1 x) = pf_addr (pframes s x)" if "x \<in> set pfs" for x
  proof -
    have "x \<noteq> pf" using that assms(3) by blast
    then show ?thesis using 1 by (simp add: dropped_def)
  qed
  then have "{a. \<exists>x\<in>set pfs. pf_addr (pframes s1 x) = Some a} = {a. \<exists>x\<in>set pfs. pf_addr (pframes s x) = Some a}"
    by auto
  then show ?thesis using 1 2 unfolding dropped_def by auto
qed

lemma free_pages_ok:
  assumes "cache_inv H s" and "mm_api_ok X" and "pts_ok X s ob" and "refable s ob"
    and "mmo_respages (mmobjs s ob) = pfs" and "mmo_refcount (mmobjs s ob) = int (length pfs) + 1"
    and "\<forall>pf\<in>set pfs. droppable s pf"
  shows "\<exists>s'. free_pages H X (mmobj_put (Suc n) H X) pfs s = Some s' \<and> cache_inv H s' \<and> dropped ob pfs s s' \<and>
     mmo_respages (mmobjs s' ob) = []"
  using assms
proof (induction pfs arbitrary: s)
  case Nil
  then show ?case by (simp add: dropped_def)
next
  case (Cons pf pfs)
  have res: "distinct (mmo_respages (mmobjs s ob))" "pf \<in> in_use s \<and> pf_obj (pframes s pf) = Some ob"
    "mmo_nrespages (mmobjs s ob) = int (length (pf # pfs))"
  proof -
    have "distinct (mmo_respages (mmobjs s ob))" "set (mmo_respages (mmobjs s ob)) = {pf \<in> in_use s. pf_obj (pframes s pf) = Some ob}"
      "mmo_nrespages (mmobjs s ob) = int (length (mmo_respages (mmobjs s ob)))"
      using Cons.prems(1) by (simp_all add: cache_inv_def respages_inv_def)
    then show "distinct (mmo_respages (mmobjs s ob))" "pf \<in> in_use s \<and> pf_obj (pframes s pf) = Some ob"
      "mmo_nrespages (mmobjs s ob) = int (length (pf # pfs))"
      using Cons.prems(5) by auto
  qed
  then have r: "resident s ob (pf_pagenum (pframes s pf)) pf" by (simp add: resident_def)
  have d: "droppable s pf" and last: "mmo_refcount (mmobjs s ob) \<noteq> mmo_nrespages (mmobjs s ob)"
    using Cons.prems res by simp_all
  obtain s1 s2 where s2: "(if pframe_is_pinned X (pframes s pf) then pframe_unpin X pf s else Some s) = Some s1"
     "pframe_free H X (mmobj_put (Suc n) H X) pf s1 = Some s2" "cache_inv H s2" "dropped ob [pf] s s2"
     "mmo_respages (mmobjs s2 ob) = remove1 pf (mmo_respages (mmobjs s ob))"
    using free_page_ok [OF Cons.prems(1,2) r d Cons.prems(3,4) last] by blast
  have pfn: "pf \<notin> set pfs" using res(1) Cons.prems(5) by simp
  have "pts_ok X s2 ob"
  proof -
    have "mmobj_bottom_vmas X ob s2 = mmobj_bottom_vmas X ob s"
      using dropped_obj [OF s2(4)] by (simp add: mmobj_bottom_vmas_def mm_api_simps [OF Cons.prems(2)])
    then show ?thesis using Cons.prems(3) dropped_obj(4) [OF s2(4)] by (simp add: pts_ok_def)
  qed
  moreover have "refable s2 ob" "mmo_refcount (mmobjs s2 ob) = int (length pfs) + 1"
    using Cons.prems(4,6) dropped_obj(1) [OF s2(4)] dropped_counts [OF s2(4)] by (simp_all add: refable_def)
  moreover have "\<forall>x\<in>set pfs. droppable s2 x"
    using Cons.prems(7) s2(4) pfn by (auto simp: dropped_def droppable_def)
  moreover have "mmo_respages (mmobjs s2 ob) = pfs" using s2(5) Cons.prems(5) by simp
  ultimately obtain s' where s': "free_pages H X (mmobj_put (Suc n) H X) pfs s2 = Some s'" "cache_inv H s'"
     "dropped ob pfs s2 s'" "mmo_respages (mmobjs s' ob) = []"
    using Cons.IH [OF s2(3) Cons.prems(2)] by blast
  have "free_pages H X (mmobj_put (Suc n) H X) (pf # pfs) s = Some s'"
    using s2(1,2) s'(1) by simp
  then show ?case using s' dropped_step [OF s2(4) s'(3) pfn] by blast
qed

subsection \<open>Dropping the last reference to an anonymous object\<close>

text \<open>
  C30: when the last reference to an anonymous object is dropped, \<open>anon_put\<close> returns, and has unpinned
  and freed every page of the object and the object itself; the pages and the counts of every other
  object are as they were and the cache invariant holds. Freeing the pages calls \<open>anon_put\<close> again for
  the same object: a depth of two calls is enough.
\<close>

theorem anon_put_last_reference:
  assumes "cache_inv H s" and "mm_api_ok X" and "pts_ok X s ob"
    and "mmo_ops (mmobjs s ob) = Anon_mmobj_ops"
    and "mmo_refcount (mmobjs s ob) = mmo_nrespages (mmobjs s ob) + 1"
    and "\<forall>pf\<in>set (mmo_respages (mmobjs s ob)). droppable s pf"
  shows "\<exists>s'. mmobj_put (Suc (Suc n)) H X ob s = Some s' \<and> cache_inv H s' \<and>
     in_use s' = in_use s - set (mmo_respages (mmobjs s ob)) \<and> (\<forall>pn pf. \<not> resident s' ob pn pf) \<and>
     ob \<notin> live s' \<and> (\<forall>pf\<in>set (mmo_respages (mmobjs s ob)). pf \<notin> live s') \<and>
     mmo_refcount (mmobjs s' ob) = 0 \<and> (\<forall>o'. o' \<noteq> ob \<longrightarrow> mmobjs s' o' = mmobjs s o') \<and>
     (\<forall>o' pn pf. o' \<noteq> ob \<longrightarrow> resident s' o' pn pf = resident s o' pn pf) \<and> phys s' = phys s"
proof -
  let ?pfs = "mmo_respages (mmobjs s ob)"
  have cnt: "mmo_nrespages (mmobjs s ob) = int (length ?pfs)"
    and set: "set ?pfs = {pf \<in> in_use s. pf_obj (pframes s pf) = Some ob}"
    using assms(1) by (simp_all add: cache_inv_def respages_inv_def)
  have ref: "refable s ob" using assms(4,5) cnt by (simp add: refable_def)
  obtain s1 where s1: "free_pages H X (mmobj_put (Suc n) H X) ?pfs s = Some s1" "cache_inv H s1" "dropped ob ?pfs s s1"
     "mmo_respages (mmobjs s1 ob) = []"
    using free_pages_ok [OF assms(1-3) ref refl _ assms(6)] assms(5) cnt by auto
  let ?s2 = "upd_mmobj ob (\<lambda>m. m\<lparr>mmo_refcount := mmo_refcount m - 1\<rparr>) (slab_obj_free ob s1)"
  have run: "mmobj_put (Suc (Suc n)) H X ob s = Some ?s2"
    using assms(4,5) s1(1) cnt by (simp add: anon_put_def)
  have inv: "cache_inv H ?s2"
  proof (rule cache_inv_same_pages [OF _ s1(2)])
    show "same_pages s1 ?s2" by (simp add: same_pages_def upd_mmobj_def slab_obj_free_def in_use_def)
    show "lists_inv ?s2" using s1(2) by (simp add: cache_inv_def lists_inv_def upd_mmobj_def slab_obj_free_def)
  qed
  have use: "in_use ?s2 = in_use s - set ?pfs"
    using s1(3) by (simp add: dropped_def in_use_def upd_mmobj_def slab_obj_free_def)
  have fr: "pframes ?s2 = pframes s1" "live ?s2 = live s1 - {ob}" "phys ?s2 = phys s1"
    by (simp_all add: upd_mmobj_def slab_obj_free_def)
  have pfr: "pframes s1 x = pframes s x" if "x \<notin> set ?pfs" for x using s1(3) that by (simp add: dropped_def)
  have mem: "pf \<in> set ?pfs \<longleftrightarrow> pf \<in> in_use s \<and> pf_obj (pframes s pf) = Some ob" for pf by (simp add: set)
  have res: "resident ?s2 o' pn pf \<longleftrightarrow> resident s o' pn pf \<and> pf \<notin> set ?pfs" for o' pn pf
    by (cases "pf \<in> set ?pfs") (simp_all add: resident_def use fr(1) pfr)
  have "\<not> resident ?s2 ob pn pf" for pn pf
    unfolding res mem by (simp add: resident_def)
  moreover have "resident ?s2 o' pn pf = resident s o' pn pf" if "o' \<noteq> ob" for o' pn pf
    unfolding res mem using that by (auto simp: resident_def)
  moreover have "mmo_refcount (mmobjs ?s2 ob) = 0"
    using dropped_counts(1) [OF s1(3)] assms(5) cnt by (simp add: upd_mmobj_def slab_obj_free_def)
  moreover have "\<forall>o'. o' \<noteq> ob \<longrightarrow> mmobjs ?s2 o' = mmobjs s o'" "phys ?s2 = phys s"
    "\<forall>pf\<in>set ?pfs. pf \<notin> live ?s2" "ob \<notin> live ?s2"
    using s1(3) by (auto simp: dropped_def upd_mmobj_def slab_obj_free_def)
  ultimately show ?thesis using run inv use by blast
qed

text \<open>
  An example: the shadow object 50 over the anonymous object 60, whose page 5 is resident (frame 70 at
  address 80).
\<close>

definition shadowed_page :: kernel where
  "shadowed_page = boot\<lparr>
     mmobjs := (\<lambda>_. blank_mmobj)(
       60 := blank_mmobj\<lparr>mmo_refcount := 2, mmo_nrespages := 1, mmo_respages := [70]\<rparr>,
       50 := blank_mmobj\<lparr>mmo_ops := Shadow_mmobj_ops, mmo_refcount := 1, mmo_shadowed := Some 60,
                         mmo_un := Mmo_bottom_obj (Some 60)\<rparr>),
     pframes := (\<lambda>_. blank_pframe)(70 := blank_pframe\<lparr>pf_addr := Some 80, pf_obj := Some 60, pf_pagenum := 5\<rparr>),
     alloc_list := [70], nallocated := 1,
     pframe_hash := (\<lambda>_. [])(hash_page std_hdr (Some 60) 5 := [70]),
     phys := (\<lambda>_ _. 0)(80 := (\<lambda>_. 7)),
     slab := [Some 71, Some 72], pages := [Some 81, Some 82], live := {50, 60, 70, 80}\<rparr>"

lemma shadowed_page_fields:
  "in_use shadowed_page = {70}" "pframes shadowed_page 70 = \<lparr>pf_addr = Some 80, pf_obj = Some 60, pf_pagenum = 5,
      pf_busy = False, pf_dirty = False, pf_pincount = 0\<rparr>"
  "mmobjs shadowed_page ob = (if ob = 50 then blank_mmobj\<lparr>mmo_ops := Shadow_mmobj_ops, mmo_refcount := 1, mmo_shadowed := Some 60,
                         mmo_un := Mmo_bottom_obj (Some 60)\<rparr>
     else if ob = 60 then blank_mmobj\<lparr>mmo_refcount := 2, mmo_nrespages := 1, mmo_respages := [70]\<rparr> else blank_mmobj)"
  "alloc_list shadowed_page = [70]" "pinned_list shadowed_page = []" "nallocated shadowed_page = 1" "npinned shadowed_page = 0"
  "pframe_hash shadowed_page i = (if i = hash_page std_hdr (Some 60) 5 then [70] else [])"
  "slab shadowed_page = [Some 71, Some 72]" "pages shadowed_page = [Some 81, Some 82]"
  by (simp_all add: shadowed_page_def boot_def blank_pframe_def in_use_def)

lemma shadowed_page_inv: "cache_inv std_hdr shadowed_page"
proof -
  have "lists_inv shadowed_page" by (simp add: lists_inv_def shadowed_page_fields)
  moreover have "ident_inv shadowed_page" by (simp add: ident_inv_def shadowed_page_fields)
  moreover have "hash_inv std_hdr shadowed_page" by (auto simp: hash_inv_def shadowed_page_fields)
  moreover have "respages_inv shadowed_page" by (auto simp: respages_inv_def shadowed_page_fields blank_mmobj_def)
  ultimately show ?thesis by (simp add: cache_inv_def)
qed

theorem anon_put_last_reference_witness:
  "mmo_respages (mmobjs shadowed_page 60) = [70] \<and>
   (\<exists>s'. mmobj_put 2 std_hdr std_ext 60 shadowed_page = Some s' \<and> in_use s' = {} \<and> 60 \<notin> live s' \<and> 70 \<notin> live s')"
proof -
  have pts: "pts_ok std_ext shadowed_page 60"
    by (simp add: pts_ok_def mmobj_bottom_vmas_def mm_api_simps [OF std_ext_mm_api_ok] shadowed_page_fields blank_mmobj_def)
  have ops: "mmo_ops (mmobjs shadowed_page 60) = Anon_mmobj_ops" "mmo_refcount (mmobjs shadowed_page 60) = mmo_nrespages (mmobjs shadowed_page 60) + 1"
    "mmo_respages (mmobjs shadowed_page 60) = [70]"
    by (simp_all add: shadowed_page_fields blank_mmobj_def)
  have "\<forall>pf\<in>set (mmo_respages (mmobjs shadowed_page 60)). droppable shadowed_page pf"
    by (simp add: ops droppable_def shadowed_page_fields)
  from anon_put_last_reference [OF shadowed_page_inv std_ext_mm_api_ok pts ops(1,2) this, of 0]
  show ?thesis unfolding ops(3) numeral_2_eq_2 shadowed_page_fields(1) by auto
qed

end
