(* ===== verification/Cow.thy ===== *)
theory Cow
  imports Page_Cache
begin

text \<open>
  Copy on write. \<open>obj_chain\<close> says that an object stands over a chain of shadow objects which ends in
  an anonymous object, as \<open>fork\<close> builds them; \<open>view\<close> is the specification of what such an object shows
  at a page number: the first page found down the chain, or zeros. The lookups of \<open>anon.c\<close> and
  \<open>shadow.c\<close>, through \<open>pframe_get\<close> and \<open>pframe_fill\<close>, return a page that holds exactly this and
  change what no object shows.
\<close>

subsection \<open>Chains of objects and what they show\<close>

inductive obj_chain :: "kernel \<Rightarrow> oaddr \<Rightarrow> nat \<Rightarrow> oaddr \<Rightarrow> bool" for s where
  bottom: "mmo_ops (mmobjs s b) = Anon_mmobj_ops \<Longrightarrow> mmo_shadowed (mmobjs s b) = None \<Longrightarrow>
     0 < mmo_refcount (mmobjs s b) \<Longrightarrow> obj_chain s b 0 b"
| shadow: "mmo_ops (mmobjs s ob) = Shadow_mmobj_ops \<Longrightarrow> mmo_shadowed (mmobjs s ob) = Some sh \<Longrightarrow>
     mmo_un (mmobjs s ob) = Mmo_bottom_obj (Some b) \<Longrightarrow> 0 < mmo_refcount (mmobjs s ob) \<Longrightarrow>
     obj_chain s sh n b \<Longrightarrow> obj_chain s ob (Suc n) b"

inductive_cases obj_chain_0E: "obj_chain s ob 0 b"
inductive_cases obj_chain_SucE: "obj_chain s ob (Suc n) b"

inductive view :: "kernel \<Rightarrow> u32 \<Rightarrow> oaddr \<Rightarrow> (nat \<Rightarrow> 8 word) \<Rightarrow> bool" for s pn where
  here: "resident s ob pn pf \<Longrightarrow> pf_addr (pframes s pf) = Some a \<Longrightarrow> view s pn ob (phys s a)"
| below: "\<forall>pf. \<not> resident s ob pn pf \<Longrightarrow> mmo_shadowed (mmobjs s ob) = Some sh \<Longrightarrow> view s pn sh c \<Longrightarrow>
     view s pn ob c"
| zero: "\<forall>pf. \<not> resident s ob pn pf \<Longrightarrow> mmo_shadowed (mmobjs s ob) = None \<Longrightarrow>
     mmo_ops (mmobjs s ob) = Anon_mmobj_ops \<Longrightarrow> view s pn ob (\<lambda>_. 0)"

lemma obj_chain_refable: "obj_chain s ob n b \<Longrightarrow> refable s ob"
  by (cases rule: obj_chain.cases) (auto simp: refable_def)

lemma obj_chain_unique: "obj_chain s ob n b \<Longrightarrow> obj_chain s ob m b' \<Longrightarrow> n = m \<and> b = b'"
proof (induction arbitrary: m rule: obj_chain.induct)
  case (bottom b)
  then show ?case by (cases rule: obj_chain.cases [OF bottom(4)]) auto
next
  case (shadow ob sh b n)
  from shadow.prems shadow.IH shadow.hyps(1,2) show ?case
    by (cases rule: obj_chain.cases [OF shadow.prems]) auto
qed

lemma obj_chain_bottom: "obj_chain s ob n b \<Longrightarrow> obj_chain s b 0 b"
  by (induction rule: obj_chain.induct) (auto intro: obj_chain.bottom)

lemma view_resident:
  assumes "cache_inv H s" and "resident s ob pn pf" and "pf_addr (pframes s pf) = Some a" and "view s pn ob c"
  shows "c = phys s a"
  using assms(4)
proof cases
  case (here pf' a')
  then show ?thesis using assms resident_unique [OF assms(1,2) here(2)] by simp
qed (use assms(2) in auto)

lemma view_unique:
  assumes "cache_inv H s" and "view s pn ob c" and "view s pn ob c'"
  shows "c = c'"
  using assms(2,3)
proof (induction arbitrary: c')
  case (here ob pf a)
  then show ?case using view_resident [OF assms(1) here(1,2,3)] by simp
next
  case (below ob sh c)
  from below.prems show ?case
  proof cases
    case (here pf a)
    then show ?thesis using below.hyps(1) by blast
  next
    case (below sh')
    then have "sh' = sh" using below.hyps(2) by simp
    then show ?thesis using below.IH \<open>view s pn sh' c'\<close> by blast
  next
    case zero
    then show ?thesis using below.hyps(2) by simp
  qed
next
  case (zero ob)
  from zero.prems show ?case
  proof cases
    case (here pf a)
    then show ?thesis using zero.hyps(1) by blast
  next
    case (below sh')
    then show ?thesis using zero.hyps(2) by simp
  qed simp
qed

lemma view_exists: "cache_inv H s \<Longrightarrow> obj_chain s ob n b \<Longrightarrow> \<exists>c. view s pn ob c"
proof -
  assume inv: "cache_inv H s" and "obj_chain s ob n b"
  have res: "\<exists>c. view s pn o' c" if r: "resident s o' pn pf" for o' pf
  proof -
    obtain a where "pf_addr (pframes s pf) = Some a" using cache_inv_page [OF inv, of pf] r by (auto simp: resident_def)
    then show ?thesis using view.here [OF r] by blast
  qed
  show ?thesis using \<open>obj_chain s ob n b\<close>
  proof induction
    case (bottom b)
    then show ?case using res view.zero by blast
  next
    case (shadow ob sh b n)
    then show ?case using res view.below by blast
  qed
qed

text \<open>
  \<open>keeps s t\<close>: the pages in use in \<open>s\<close> are untouched in \<open>t\<close>, and the objects are linked as they were.
  \<open>grows s t\<close>: moreover every page that is new in \<open>t\<close> holds what its object showed in \<open>s\<close>.
\<close>

definition keeps :: "kernel \<Rightarrow> kernel \<Rightarrow> bool" where
  "keeps s t \<longleftrightarrow> in_use s \<subseteq> in_use t \<and>
     (\<forall>x\<in>in_use s. pframes t x = pframes s x \<and> queues t (Pf_waitq x) = queues s (Pf_waitq x) \<and>
        (\<forall>a. pf_addr (pframes s x) = Some a \<longrightarrow> phys t a = phys s a)) \<and>
     (\<forall>ob. mmo_ops (mmobjs t ob) = mmo_ops (mmobjs s ob) \<and> mmo_shadowed (mmobjs t ob) = mmo_shadowed (mmobjs s ob) \<and>
        mmo_un (mmobjs t ob) = mmo_un (mmobjs s ob) \<and> mmo_refcount (mmobjs s ob) \<le> mmo_refcount (mmobjs t ob))"

definition grows :: "kernel \<Rightarrow> kernel \<Rightarrow> bool" where
  "grows s t \<longleftrightarrow> keeps s t \<and>
     (\<forall>x\<in>in_use t - in_use s. \<exists>ob a. pf_obj (pframes t x) = Some ob \<and> pf_addr (pframes t x) = Some a \<and>
        (\<forall>c. view s (pf_pagenum (pframes t x)) ob c \<longrightarrow> c = phys t a))"

lemma keepsD:
  assumes "keeps s t"
  shows "x \<in> in_use s \<Longrightarrow> x \<in> in_use t" "x \<in> in_use s \<Longrightarrow> pframes t x = pframes s x"
    "x \<in> in_use s \<Longrightarrow> queues t (Pf_waitq x) = queues s (Pf_waitq x)"
    "x \<in> in_use s \<Longrightarrow> pf_addr (pframes s x) = Some a \<Longrightarrow> phys t a = phys s a"
    "mmo_ops (mmobjs t ob) = mmo_ops (mmobjs s ob)" "mmo_shadowed (mmobjs t ob) = mmo_shadowed (mmobjs s ob)"
    "mmo_un (mmobjs t ob) = mmo_un (mmobjs s ob)" "mmo_refcount (mmobjs s ob) \<le> mmo_refcount (mmobjs t ob)"
  using assms unfolding keeps_def by blast+

lemma keeps_trans: "keeps r s \<Longrightarrow> keeps s t \<Longrightarrow> keeps r t"
proof -
  assume a: "keeps r s" and b: "keeps s t"
  have "mmo_refcount (mmobjs r ob) \<le> mmo_refcount (mmobjs t ob)" for ob
    using keepsD(8) [OF a, of ob] keepsD(8) [OF b, of ob] by linarith
  moreover have "pframes t x = pframes r x" "queues t (Pf_waitq x) = queues r (Pf_waitq x)" "x \<in> in_use t"
    "pf_addr (pframes r x) = Some y \<Longrightarrow> phys t y = phys r y" if "x \<in> in_use r" for x y
    using that keepsD(1-3) [OF a that] keepsD(1-3) [OF b, of x] keepsD(4) [OF a that, of y] keepsD(4) [OF b, of x y]
    by simp_all
  ultimately show ?thesis unfolding keeps_def
    by (auto simp: keepsD(5-7) [OF a] keepsD(5-7) [OF b])
qed

lemma keeps_resident: "keeps s t \<Longrightarrow> resident s ob pn pf \<Longrightarrow> resident t ob pn pf"
  by (simp add: resident_def keepsD(1,2))

lemma grows_keeps: "grows s t \<Longrightarrow> keeps s t"
  by (simp add: grows_def)

lemma grows_new:
  assumes "grows s s'" and "\<forall>pf. \<not> resident s ob pn pf" and "resident s' ob pn pf" and "view s pn ob c"
  shows "view s' pn ob c"
proof -
  have "pf \<notin> in_use s"
  proof
    assume "pf \<in> in_use s"
    then have "resident s ob pn pf" using keepsD(2) [OF grows_keeps [OF assms(1)]] assms(3) by (simp add: resident_def)
    then show False using assms(2) by blast
  qed
  then have "pf \<in> in_use s' - in_use s" using assms(3) by (simp add: resident_def)
  then obtain ob' a where "pf_obj (pframes s' pf) = Some ob'" "pf_addr (pframes s' pf) = Some a"
      "\<And>c. view s (pf_pagenum (pframes s' pf)) ob' c \<Longrightarrow> c = phys s' a"
    using assms(1) unfolding grows_def by blast
  then have "pf_addr (pframes s' pf) = Some a" "c = phys s' a"
    using assms(3,4) by (simp_all add: resident_def)
  then show ?thesis using view.here [OF assms(3)] by simp
qed

lemma view_grow:
  assumes g: "grows s s'" and v: "view s pn ob c"
  shows "view s' pn ob c"
  using v
proof induction
  note k = grows_keeps [OF g]
  case (here ob pf a)
  have use: "pf \<in> in_use s" using here(1) by (simp add: resident_def)
  have addr: "pf_addr (pframes s' pf) = Some a" using keepsD(2) [OF k use] here(2) by simp
  have "phys s' a = phys s a" by (rule keepsD(4) [OF k use here(2)])
  then show ?case using view.here [OF keeps_resident [OF k here(1)] addr] by simp
next
  case (below ob sh c)
  show ?case
  proof (cases "\<exists>pf. resident s' ob pn pf")
    case False
    then have "\<forall>pf. \<not> resident s' ob pn pf" by blast
    moreover have "mmo_shadowed (mmobjs s' ob) = Some sh" unfolding keepsD(6) [OF grows_keeps [OF g]] by (rule below.hyps(2))
    ultimately show ?thesis using below.IH by (rule view.below)
  next
    case True
    then obtain pf where "resident s' ob pn pf" by blast
    then show ?thesis by (rule grows_new [OF g below.hyps(1) _ view.below [OF below.hyps]])
  qed
next
  case (zero ob)
  show ?case
  proof (cases "\<exists>pf. resident s' ob pn pf")
    case False
    then have "\<forall>pf. \<not> resident s' ob pn pf" by blast
    moreover have "mmo_shadowed (mmobjs s' ob) = None" unfolding keepsD(6) [OF grows_keeps [OF g]] by (rule zero.hyps(2))
    moreover have "mmo_ops (mmobjs s' ob) = Anon_mmobj_ops" unfolding keepsD(5) [OF grows_keeps [OF g]] by (rule zero.hyps(3))
    ultimately show ?thesis by (rule view.zero)
  next
    case True
    then obtain pf where "resident s' ob pn pf" by blast
    then show ?thesis by (rule grows_new [OF g zero.hyps(1) _ view.zero [OF zero.hyps]])
  qed
qed

lemma obj_chain_cong:
  assumes "obj_chain s ob n b"
    and "\<And>o'. mmo_ops (mmobjs s' o') = mmo_ops (mmobjs s o') \<and> mmo_shadowed (mmobjs s' o') = mmo_shadowed (mmobjs s o') \<and>
        mmo_un (mmobjs s' o') = mmo_un (mmobjs s o') \<and> mmo_refcount (mmobjs s o') \<le> mmo_refcount (mmobjs s' o')"
  shows "obj_chain s' ob n b"
  using assms(1)
proof induction
  case (bottom b)
  then show ?case using assms(2) [of b] by (intro obj_chain.bottom) auto
next
  case (shadow ob sh b n)
  then show ?case using assms(2) [of ob] by (intro obj_chain.shadow) auto
qed

lemma touched_keeps: "touched s s' \<Longrightarrow> keeps s s'"
  unfolding keeps_def by (simp add: touched_simps)

lemma touched_grows: "touched s s' \<Longrightarrow> grows s s'"
  unfolding grows_def by (simp add: touched_keeps) (simp add: touched_simps)

lemma touched_sym: "touched s s' \<Longrightarrow> touched s' s"
proof -
  assume "touched s s'"
  then obtain l where l: "s' = s\<lparr>alloc_list := l\<rparr>" "mset l = mset (alloc_list s)" unfolding touched_def by blast
  then have "s = s'\<lparr>alloc_list := alloc_list s\<rparr>" "mset (alloc_list s) = mset (alloc_list s')" by simp_all
  then show ?thesis unfolding touched_def by blast
qed

lemma touched_view: "touched s s' \<Longrightarrow> view s' pn ob c \<longleftrightarrow> view s pn ob c"
  using view_grow touched_grows touched_sym by metis

lemma keeps_chain:
  assumes k: "keeps s t" and c: "obj_chain s ob n b"
  shows "obj_chain t ob n b"
  by (rule obj_chain_cong [OF c]) (simp add: keepsD(5-8) [OF k])

subsection \<open>Walking down a chain\<close>

lemma get_resident_cases:
  assumes "cache_inv H s" and "mm_api_ok X"
  obtains (found) pf s' where "pframe_get_resident H X (Some ob) pn s = (Some pf, s')" and "resident s ob pn pf" and "touched s s'"
        | (absent) "pframe_get_resident H X (Some ob) pn s = (None, s)" and "\<forall>pf. \<not> resident s ob pn pf"
proof (cases "fst (pframe_get_resident H X (Some ob) pn s)")
  case None
  then show ?thesis
    using absent pframe_get_resident_same [OF None] pframe_get_resident_None [OF assms(1)]
    by (metis prod.collapse)
next
  case (Some pf)
  then have "resident s ob pn pf"
    using pframe_get_resident_find [OF assms(1), of X "Some ob" pn pf] by (simp add: resident_def)
  then show ?thesis
    using found [of pf "snd (pframe_get_resident H X (Some ob) pn s)"] Some pframe_get_resident_touched [OF assms, of "Some ob" pn]
    by (metis prod.collapse)
qed

lemma get_resident_null:
  assumes "cache_inv H s"
  shows "pframe_get_resident H X None pn s = (None, s)"
  using pframe_get_resident_null [OF assms, of X pn] pframe_get_resident_same [of H X None pn s]
  by (metis prod.collapse)

lemma shadow_lookup_loop_ok:
  assumes "obj_chain s ob n b" and "cache_inv H s" and "mm_api_ok X" and "n < k"
  shows "\<exists>r s'. shadow_lookup_loop k H X ob pn s = Some (r, s') \<and> touched s s' \<and>
     (case r of
        Some pf \<Rightarrow> \<exists>ow a. resident s ow pn pf \<and> pf_addr (pframes s pf) = Some a \<and> view s pn ob (phys s a)
      | None \<Rightarrow> \<forall>c. view s pn b c \<longrightarrow> view s pn ob c)"
  using assms
proof (induction arbitrary: k rule: obj_chain.induct)
  case (bottom b)
  then obtain k' where "k = Suc k'" by (cases k) auto
  then show ?case using bottom by simp
next
  case (shadow ob sh b n)
  then obtain k' where k: "k = Suc k'" "n < k'" by (cases k) auto
  from shadow.prems(1,2) show ?case
  proof (cases rule: get_resident_cases [of H s X ob pn])
    case (found pf s')
    obtain a where a: "pf_addr (pframes s pf) = Some a"
      using cache_inv_page [OF shadow.prems(1), of pf] found(2) by (auto simp: resident_def)
    then show ?thesis using found k shadow.hyps(2) view.here [OF found(2) a] by (auto intro!: exI [of _ ob])
  next
    case absent
    obtain r s' where r: "shadow_lookup_loop k' H X sh pn s = Some (r, s')" "touched s s'"
      "case r of Some pf \<Rightarrow> \<exists>ow a. resident s ow pn pf \<and> pf_addr (pframes s pf) = Some a \<and> view s pn sh (phys s a)
         | None \<Rightarrow> \<forall>c. view s pn b c \<longrightarrow> view s pn sh c"
      using shadow.IH [OF shadow.prems(1,2) k(2)] by blast
    have up: "view s pn sh c \<Longrightarrow> view s pn ob c" for c by (rule view.below [OF absent(2) shadow.hyps(2)])
    have "shadow_lookup_loop k H X ob pn s = Some (r, s')" using k absent(1) shadow.hyps(2) r(1) by simp
    then show ?thesis using r(2,3) up by (intro exI [of _ r] exI [of _ s']) (cases r; auto)
  qed
qed

lemma shadow_fill_loop_ok:
  assumes "obj_chain s ob n b" and "cache_inv H s" and "mm_api_ok X" and "n < k"
  shows "\<exists>r s'. shadow_fill_loop k H X (Some ob) pn s = Some (r, s') \<and> touched s s' \<and>
     (case r of
        Some pf \<Rightarrow> \<exists>ow a sh. resident s ow pn pf \<and> pf_addr (pframes s pf) = Some a \<and>
                      mmo_shadowed (mmobjs s ob) = Some sh \<and> view s pn sh (phys s a)
      | None \<Rightarrow> \<forall>sh c. mmo_shadowed (mmobjs s ob) = Some sh \<longrightarrow> view s pn b c \<longrightarrow> view s pn sh c)"
  using assms
proof (induction arbitrary: k rule: obj_chain.induct)
  case (bottom b)
  then obtain k' where "k = Suc k'" by (cases k) auto
  then show ?case using bottom get_resident_null [OF bottom.prems(1)] by simp
next
  case (shadow ob sh b n)
  then obtain k' where k: "k = Suc k'" "n < k'" by (cases k) auto
  from shadow.prems(1,2) show ?case
  proof (cases rule: get_resident_cases [of H s X sh pn])
    case (found pf s')
    obtain a where a: "pf_addr (pframes s pf) = Some a"
      using cache_inv_page [OF shadow.prems(1), of pf] found(2) by (auto simp: resident_def)
    then show ?thesis using found k shadow.hyps(2) view.here [OF found(2) a] by (auto intro!: exI [of _ sh])
  next
    case absent
    obtain r s' where r: "shadow_fill_loop k' H X (Some sh) pn s = Some (r, s')" "touched s s'"
      "case r of
        Some pf \<Rightarrow> \<exists>ow a sh'. resident s ow pn pf \<and> pf_addr (pframes s pf) = Some a \<and>
                      mmo_shadowed (mmobjs s sh) = Some sh' \<and> view s pn sh' (phys s a)
      | None \<Rightarrow> \<forall>sh' c. mmo_shadowed (mmobjs s sh) = Some sh' \<longrightarrow> view s pn b c \<longrightarrow> view s pn sh' c"
      using shadow.IH [OF shadow.prems(1,2) k(2)] by blast
    have run: "shadow_fill_loop k H X (Some ob) pn s = Some (r, s')" using k absent(1) shadow.hyps(2) r(1) by simp
    have up: "view s pn sh' c \<Longrightarrow> view s pn sh c" if "mmo_shadowed (mmobjs s sh) = Some sh'" for c sh'
      by (rule view.below [OF absent(2) that])
    have bot: "view s pn b c \<Longrightarrow> view s pn sh c" if "mmo_shadowed (mmobjs s sh) = None" for c
      using shadow.hyps(5) that by cases auto
    show ?thesis
    proof (cases r)
      case None
      then have "view s pn sh c" if "view s pn b c" for c
        using r(3) that up bot by (cases "mmo_shadowed (mmobjs s sh)") auto
      then show ?thesis using run r(2) None shadow.hyps(2) by auto
    next
      case (Some pf)
      then obtain ow a sh' where "resident s ow pn pf" "pf_addr (pframes s pf) = Some a"
        "mmo_shadowed (mmobjs s sh) = Some sh'" "view s pn sh' (phys s a)" using r(3) by auto
      then show ?thesis using run r(2) up [of sh'] shadow.hyps(2) Some
        by (intro exI [of _ r] exI [of _ s']) auto
    qed
  qed
qed

subsection \<open>A new page\<close>

declare pframe_get.simps [simp del] mmobj_fillpage.simps [simp del] mmobj_lookuppage.simps [simp del]

lemma sched_broadcast_on_empty [simp]:
  "tq_list (queues s q) = [] \<Longrightarrow> tq_size (queues s q) = 0 \<Longrightarrow> sched_broadcast_on q s = Some s"
  by (simp add: sched_broadcast_on_def sched_queue_empty_def)

text \<open>
  \<open>fresh_page\<close> is the state in which a new page is filled, \<open>filled\<close> the state after: the page is pinned
  and holds \<open>c\<close>.
\<close>

definition fresh_page :: "hdr \<Rightarrow> oaddr \<Rightarrow> u32 \<Rightarrow> pfaddr \<Rightarrow> nat \<Rightarrow> kernel \<Rightarrow> kernel" where
  "fresh_page H ob pn pf a s = upd_pframe pf (\<lambda>f. f\<lparr>pf_busy := True\<rparr>) (cached H ob pn pf a s)"

definition filled :: "pfaddr \<Rightarrow> nat \<Rightarrow> (nat \<Rightarrow> 8 word) \<Rightarrow> kernel \<Rightarrow> kernel" where
  "filled pf a c t = upd_pframe pf (\<lambda>f. f\<lparr>pf_busy := False\<rparr>) (pinned_state pf (t\<lparr>phys := (phys t)(a := c)\<rparr>))"

definition can_alloc :: "kernel \<Rightarrow> pfaddr \<Rightarrow> nat \<Rightarrow> bool" where
  "can_alloc s pf a \<longleftrightarrow> (\<exists>ps as. slab s = Some pf # ps \<and> pages s = Some a # as) \<and>
     pf \<notin> in_use s \<and> (\<forall>x\<in>in_use s. pf_addr (pframes s x) \<noteq> Some a)"

lemma pframe_get_new:
  assumes "cache_inv H s" and "mm_api_ok X" and nr: "\<forall>x. \<not> resident s ob pn x" and "can_alloc s pf a"
    and "refable s ob"
    and fill: "fillpage ob pf (fresh_page H ob pn pf a s) = Some (0, s2)"
    and q: "queues s2 (Pf_waitq pf) = \<lparr>tq_list = [], tq_size = 0\<rparr>"
  shows "pframe_get (Suc k) H X fillpage put ob pn s =
     Some ((0, Some pf), upd_pframe pf (\<lambda>f. f\<lparr>pf_busy := False\<rparr>) s2)"
proof -
  have "pframe_get_resident H X (Some ob) pn s = (None, s)"
    using get_resident_cases [OF assms(1,2), of ob pn] nr by metis
  moreover have "pframe_alloc H X ob pn s = Some (Some pf, cached H ob pn pf a s)"
    using assms(4,5) by (auto simp: can_alloc_def intro: pframe_alloc_eq)
  moreover have "pf_obj (pframes (cached H ob pn pf a s) pf) = Some ob" by (simp add: cached_def Let_def)
  moreover have "sched_broadcast_on (Pf_waitq pf) (upd_pframe pf (\<lambda>f. f\<lparr>pf_busy := False\<rparr>) s2) =
      Some (upd_pframe pf (\<lambda>f. f\<lparr>pf_busy := False\<rparr>) s2)"
    using q by (intro sched_broadcast_on_empty) (simp_all add: upd_pframe_def)
  ultimately show ?thesis using fill
    by (simp add: pframe_get.simps pframe_fill_def fresh_page_def upd_pframe_def)
qed

lemma fresh_page_simps:
  "in_use (fresh_page H ob pn pf a s) = insert pf (in_use s)"
  "pframes (fresh_page H ob pn pf a s) = (pframes s)(pf := \<lparr>pf_addr = Some a, pf_obj = Some ob, pf_pagenum = pn,
      pf_busy = True, pf_dirty = False, pf_pincount = 0\<rparr>)"
  "phys (fresh_page H ob pn pf a s) = phys s"
  "queues (fresh_page H ob pn pf a s) = (queues s)(Pf_waitq pf := \<lparr>tq_list = [], tq_size = 0\<rparr>)"
  "slab (fresh_page H ob pn pf a s) = tl (slab s)" "pages (fresh_page H ob pn pf a s) = tl (pages s)"
  "mmo_ops (mmobjs (fresh_page H ob pn pf a s) o') = mmo_ops (mmobjs s o')"
  "mmo_shadowed (mmobjs (fresh_page H ob pn pf a s) o') = mmo_shadowed (mmobjs s o')"
  "mmo_un (mmobjs (fresh_page H ob pn pf a s) o') = mmo_un (mmobjs s o')"
  "mmo_refcount (mmobjs (fresh_page H ob pn pf a s) o') = mmo_refcount (mmobjs s o') + (if o' = ob then 1 else 0)"
  using in_use_cached [of H ob pn pf a s] unfolding in_use_def
  by (simp_all add: fresh_page_def cached_def Let_def upd_pframe_def)

lemma keeps_fresh_page: "pf \<notin> in_use s \<Longrightarrow> keeps s (fresh_page H ob pn pf a s)"
  unfolding keeps_def by (auto simp: fresh_page_simps)

lemma cache_inv_fresh_page:
  assumes "cache_inv H s" and "can_alloc s pf a" and "\<forall>x. \<not> resident s ob pn x"
  shows "cache_inv H (fresh_page H ob pn pf a s)"
proof -
  have inv: "cache_inv H (cached H ob pn pf a s)"
    using assms by (intro cache_inv_cached) (auto simp: can_alloc_def)
  show ?thesis
  proof (rule cache_inv_same_pages [OF _ inv])
    show "same_pages (cached H ob pn pf a s) (fresh_page H ob pn pf a s)"
      by (simp add: same_pages_def fresh_page_def upd_pframe_def in_use_def)
    show "lists_inv (fresh_page H ob pn pf a s)"
      using inv by (simp add: cache_inv_def lists_inv_def fresh_page_def upd_pframe_def)
  qed
qed

lemma filled_simps:
  "pframes (filled pf a c t) = (pframes t)(pf := (pframes t pf)\<lparr>pf_pincount := 1, pf_busy := False\<rparr>)"
  "phys (filled pf a c t) = (phys t)(a := c)" "mmobjs (filled pf a c t) = mmobjs t"
  "queues (filled pf a c t) = queues t" "slab (filled pf a c t) = slab t" "pages (filled pf a c t) = pages t"
  by (simp_all add: filled_def pinned_state_def upd_pframe_def)

lemma cache_inv_filled:
  assumes inv: "cache_inv H t" and use: "pf \<in> in_use t" and "pf_pincount (pframes t pf) = 0"
  shows "cache_inv H (filled pf a c t)" and "in_use (filled pf a c t) = in_use t"
proof -
  let ?t = "t\<lparr>phys := (phys t)(a := c)\<rparr>"
  have l: "lists_inv t" using inv by (simp add: cache_inv_def)
  then have al: "pf \<in> set (alloc_list t)" using use assms(3) by (auto simp: lists_inv_def in_use_def)
  have inv': "cache_inv H ?t"
    by (rule cache_inv_same_pages [OF _ inv]) (use l in \<open>simp_all add: same_pages_def in_use_def lists_inv_def\<close>)
  have inv2: "cache_inv H (pinned_state pf ?t)" using al by (intro cache_inv_pinned [OF inv']) simp
  show "cache_inv H (filled pf a c t)"
  proof (rule cache_inv_same_pages [OF _ inv2])
    show "same_pages (pinned_state pf ?t) (filled pf a c t)"
      by (simp add: same_pages_def filled_def upd_pframe_def in_use_def)
    show "lists_inv (filled pf a c t)"
      using inv2 by (simp add: cache_inv_def lists_inv_def filled_def upd_pframe_def)
  qed
  have "in_use (filled pf a c t) = in_use (pinned_state pf ?t)" by (simp add: filled_def upd_pframe_def in_use_def)
  also have "\<dots> = in_use t" using in_use_pinned [of ?t pf] l al by (simp add: lists_inv_def in_use_def)
  finally show "in_use (filled pf a c t) = in_use t" .
qed

lemma keeps_filled:
  assumes k: "keeps s t" and "pf \<notin> in_use s" and "\<forall>x\<in>in_use s. pf_addr (pframes s x) \<noteq> Some a"
    and "in_use (filled pf a c t) = in_use t"
  shows "keeps s (filled pf a c t)"
  using assms(2-4) keepsD(1-4) [OF k] unfolding keeps_def
  by (auto simp: filled_simps keepsD(5-8) [OF k])

text \<open>What the objects below \<open>ob\<close> show is not affected by a page of \<open>ob\<close>.\<close>

lemma fresh_not_resident:
  assumes k: "keeps s t" and use: "in_use t = insert pf (in_use s)" and ob: "pf_obj (pframes t pf) = Some ob"
    and top: "obj_chain s ob N b" and ch: "obj_chain s o' n b" and n: "n < N" and nr: "\<forall>x. \<not> resident s o' pn x"
  shows "\<forall>x. \<not> resident t o' pn x"
proof (intro allI notI)
  fix x assume r: "resident t o' pn x"
  have "o' \<noteq> ob"
  proof
    assume "o' = ob"
    then have "obj_chain s ob n b" using ch by simp
    then show False using obj_chain_unique [OF top] n by blast
  qed
  then have "x \<noteq> pf" using r ob by (auto simp: resident_def)
  then have "x \<in> in_use s" using r use by (simp add: resident_def)
  then have "resident s o' pn x" using r keepsD(2) [OF k] by (simp add: resident_def)
  then show False using nr by blast
qed

lemma view_fresh:
  assumes k: "keeps s t" and use: "in_use t = insert pf (in_use s)" and ob: "pf_obj (pframes t pf) = Some ob"
    and top: "obj_chain s ob N b" and v: "view s pn o' c" and ch: "obj_chain s o' n b" and n: "n < N"
  shows "view t pn o' c"
  using v ch n
proof (induction arbitrary: n rule: view.induct)
  case (here o' x a)
  have x: "x \<in> in_use s" using here(1) by (simp add: resident_def)
  have "pf_addr (pframes t x) = Some a" "phys t a = phys s a"
    using keepsD(2,4) [OF k x] here(2) by simp_all
  then show ?case using view.here [OF keeps_resident [OF k here(1)]] by simp
next
  case (below o' sh c)
  have "\<forall>x. \<not> resident t o' pn x" by (rule fresh_not_resident [OF k use ob top below.prems below.hyps(1)])
  moreover have "mmo_shadowed (mmobjs t o') = Some sh" using below.hyps(2) by (simp add: keepsD(6) [OF k])
  moreover have "view t pn sh c"
  proof -
    from below.prems(1) below.hyps(2) obtain m where "n = Suc m" "obj_chain s sh m b"
      by (cases rule: obj_chain.cases) auto
    then show ?thesis using below.IH below.prems(2) by simp
  qed
  ultimately show ?case by (rule view.below)
next
  case (zero o')
  have "\<forall>x. \<not> resident t o' pn x" by (rule fresh_not_resident [OF k use ob top zero.prems zero.hyps(1)])
  then show ?case by (rule view.zero) (use zero.hyps(2,3) in \<open>simp_all add: keepsD(5,6) [OF k]\<close>)
qed

lemma filled_fresh_grows:
  assumes inv: "cache_inv H s" and al: "can_alloc s pf a" and nr: "\<forall>x. \<not> resident s ob pn x"
    and inv': "cache_inv H t" and k: "keeps (fresh_page H ob pn pf a s) t"
    and new: "\<forall>x\<in>in_use t - insert pf (in_use s). \<exists>o' a'. pf_obj (pframes t x) = Some o' \<and>
        pf_addr (pframes t x) = Some a' \<and> (\<forall>d. view s (pf_pagenum (pframes t x)) o' d \<longrightarrow> d = phys t a')"
    and c: "\<forall>d. view s pn ob d \<longrightarrow> d = c"
  shows "cache_inv H (filled pf a c t)" "grows s (filled pf a c t)" "resident (filled pf a c t) ob pn pf"
    "pf_addr (pframes (filled pf a c t) pf) = Some a" "phys (filled pf a c t) a = c"
    "\<not> pf_busy (pframes (filled pf a c t) pf)" "in_use (filled pf a c t) = in_use t"
    "queues (filled pf a c t) (Pf_waitq pf) = \<lparr>tq_list = [], tq_size = 0\<rparr>"
proof -
  let ?f = "fresh_page H ob pn pf a s" and ?u = "filled pf a c t"
  have pf: "pf \<in> in_use ?f" "pf \<notin> in_use s" using al by (simp_all add: fresh_page_simps can_alloc_def)
  have frame: "pframes t pf = \<lparr>pf_addr = Some a, pf_obj = Some ob, pf_pagenum = pn, pf_busy = True, pf_dirty = False, pf_pincount = 0\<rparr>"
    using keepsD(2) [OF k pf(1)] by (simp add: fresh_page_simps)
  have use: "pf \<in> in_use t" by (rule keepsD(1) [OF k pf(1)])
  show inv_u: "cache_inv H ?u" and use_u: "in_use ?u = in_use t"
    using cache_inv_filled [OF inv' use] by (simp_all add: frame)
  have upf: "pframes ?u pf = \<lparr>pf_addr = Some a, pf_obj = Some ob, pf_pagenum = pn, pf_busy = False, pf_dirty = False, pf_pincount = 1\<rparr>"
    by (simp add: filled_simps frame)
  show "resident ?u ob pn pf" "pf_addr (pframes ?u pf) = Some a" "phys ?u a = c" "\<not> pf_busy (pframes ?u pf)"
    using use_u use upf by (simp_all add: resident_def filled_simps)
  show "queues ?u (Pf_waitq pf) = \<lparr>tq_list = [], tq_size = 0\<rparr>"
    using keepsD(3) [OF k pf(1)] by (simp add: filled_simps fresh_page_simps)
  have ks: "keeps s t" using keeps_fresh_page [OF pf(2)] k by (rule keeps_trans)
  have ku: "keeps s ?u" using al by (intro keeps_filled [OF ks pf(2) _ use_u]) (simp add: can_alloc_def)
  have "\<exists>o' a'. pf_obj (pframes ?u x) = Some o' \<and> pf_addr (pframes ?u x) = Some a' \<and>
        (\<forall>d. view s (pf_pagenum (pframes ?u x)) o' d \<longrightarrow> d = phys ?u a')" if x: "x \<in> in_use ?u - in_use s" for x
  proof (cases "x = pf")
    case True
    then show ?thesis using upf c by (simp add: filled_simps)
  next
    case False
    then obtain o' a' where o': "pf_obj (pframes t x) = Some o'" "pf_addr (pframes t x) = Some a'"
       "\<forall>d. view s (pf_pagenum (pframes t x)) o' d \<longrightarrow> d = phys t a'" using new x use_u by blast
    have "a' \<noteq> a"
    proof
      assume "a' = a"
      then have "pf_addr (pframes t x) = pf_addr (pframes t pf)" using o'(2) frame by simp
      then show False using inv' x use use_u False by (simp add: cache_inv_def ident_inv_def)
    qed
    then show ?thesis using o' False by (simp add: filled_simps)
  qed
  then show "grows s ?u" using ku unfolding grows_def by blast
qed

text \<open>The bottom object: its page is found, or a page of zeros is made.\<close>

lemma anon_fillpage_fresh:
  assumes "mm_api_ok X"
  shows "anon_fillpage X ob pf (fresh_page H ob pn pf a s) =
     Some (0, pinned_state pf ((fresh_page H ob pn pf a s)\<lparr>phys := (phys s)(a := (\<lambda>_. 0))\<rparr>))"
proof -
  let ?f = "fresh_page H ob pn pf a s"
  have frame: "pframes ?f pf = \<lparr>pf_addr = Some a, pf_obj = Some ob, pf_pagenum = pn, pf_busy = True, pf_dirty = False, pf_pincount = 0\<rparr>"
    by (simp add: fresh_page_simps)
  have "pframe_pin X pf ?f = Some (pinned_state pf ?f)"
    by (rule pframe_pin_first [OF assms]) (simp_all add: frame)
  then show ?thesis
    by (simp add: anon_fillpage_def mm_api_simps(3) [OF assms] frame pinned_state_def fresh_page_simps(3))
qed

lemma view_absent_anon:
  "\<forall>x. \<not> resident s b pn x \<Longrightarrow> mmo_shadowed (mmobjs s b) = None \<Longrightarrow> view s pn b d \<Longrightarrow> d = (\<lambda>_. 0)"
  by (cases rule: view.cases) auto

lemma anon_get_ok:
  assumes inv: "cache_inv H s" and api: "mm_api_ok X" and ch: "obj_chain s b 0 b"
    and busy: "\<forall>x. resident s b pn x \<longrightarrow> \<not> pf_busy (pframes s x)" and al: "can_alloc s pf2 a2"
  shows "\<exists>pf a s'. pframe_get (Suc k) H X (mmobj_fillpage (Suc n) H X) put b pn s = Some ((0, Some pf), s') \<and>
     cache_inv H s' \<and> grows s s' \<and> in_use s' \<subseteq> insert pf (in_use s) \<and> resident s' b pn pf \<and>
     pf_addr (pframes s' pf) = Some a \<and> \<not> pf_busy (pframes s' pf) \<and> view s pn b (phys s' a)"
  using inv api
proof (cases rule: get_resident_cases [of H s X b pn])
  case (found pf s')
  obtain a where a: "pf_addr (pframes s pf) = Some a"
    using cache_inv_page [OF inv, of pf] found(2) by (auto simp: resident_def)
  have "\<not> pf_busy (pframes s' pf)" using busy found(2) touched_simps(2) [OF found(3)] by simp
  then have "pframe_get (Suc k) H X (mmobj_fillpage (Suc n) H X) put b pn s = Some ((0, Some pf), s')"
    using found(1) by (simp add: pframe_get.simps)
  then show ?thesis
    using cache_inv_touched [OF found(3) inv] touched_grows [OF found(3)] found(2) a busy view.here [OF found(2) a]
    by (intro exI [of _ pf] exI [of _ a] exI [of _ s']) (auto simp: touched_simps [OF found(3)])
next
  case absent
  let ?f = "fresh_page H b pn pf2 a2 s"
  have b: "mmo_ops (mmobjs s b) = Anon_mmobj_ops" "mmo_shadowed (mmobjs s b) = None"
    using obj_chain_0E [OF ch] by auto
  have z: "\<forall>d. view s pn b d \<longrightarrow> d = (\<lambda>_. 0)" using view_absent_anon [OF absent(2) b(2)] by blast
  have pf2: "pf2 \<notin> in_use s" using al by (simp add: can_alloc_def)
  have fill: "mmobj_fillpage (Suc n) H X b pf2 ?f = Some (0, pinned_state pf2 (?f\<lparr>phys := (phys s)(a2 := (\<lambda>_. 0))\<rparr>))"
    using b(1) anon_fillpage_fresh [OF api] by (simp add: mmobj_fillpage.simps fresh_page_simps(7))
  have run: "pframe_get (Suc k) H X (mmobj_fillpage (Suc n) H X) put b pn s = Some ((0, Some pf2), filled pf2 a2 (\<lambda>_. 0) ?f)"
    using pframe_get_new [where fillpage = "mmobj_fillpage (Suc n) H X", OF inv api absent(2) al obj_chain_refable [OF ch] fill]
    by (simp add: pinned_state_simps filled_def fresh_page_simps(3,4))
  have k: "keeps ?f ?f" by (simp add: keeps_def)
  note u = filled_fresh_grows [OF inv al absent(2) cache_inv_fresh_page [OF inv al absent(2)] k _ z]
  have "\<forall>x\<in>in_use ?f - insert pf2 (in_use s). P x" for P by (simp add: fresh_page_simps)
  note u = u [OF this]
  show ?thesis
    using run u view.zero [OF absent(2) b(2,1)]
    by (intro exI [of _ pf2] exI [of _ a2] exI [of _ "filled pf2 a2 (\<lambda>_. 0) ?f"]) (simp add: fresh_page_simps)
qed

definition two_free :: "kernel \<Rightarrow> pfaddr \<Rightarrow> nat \<Rightarrow> pfaddr \<Rightarrow> nat \<Rightarrow> bool" where
  "two_free s pf a pf2 a2 \<longleftrightarrow> (\<exists>ps as. slab s = Some pf # Some pf2 # ps \<and> pages s = Some a # Some a2 # as) \<and>
     pf \<noteq> pf2 \<and> a \<noteq> a2 \<and> pf \<notin> in_use s \<and> pf2 \<notin> in_use s \<and>
     (\<forall>x\<in>in_use s. pf_addr (pframes s x) \<noteq> Some a \<and> pf_addr (pframes s x) \<noteq> Some a2)"

lemma two_free_alloc: "two_free s pf a pf2 a2 \<Longrightarrow> can_alloc s pf a"
  by (auto simp: two_free_def can_alloc_def)

lemma two_free_fresh: "two_free s pf a pf2 a2 \<Longrightarrow> can_alloc (fresh_page H ob pn pf a s) pf2 a2"
  by (auto simp: two_free_def can_alloc_def fresh_page_simps)

lemma can_alloc_touched: "touched s t \<Longrightarrow> can_alloc t pf a = can_alloc s pf a"
  by (simp add: can_alloc_def touched_simps)

text \<open>Copying into the new page of a shadow object.\<close>

lemma shadow_fillpage_fresh:
  assumes inv: "cache_inv H s" and api: "mm_api_ok X" and ch: "obj_chain s ob (Suc n) b"
    and nr: "\<forall>x. \<not> resident s ob pn x" and busy: "\<forall>x\<in>in_use s. \<not> pf_busy (pframes s x)"
    and sup: "two_free s pf a pf2 a2" and m: "Suc n < k"
  shows "\<exists>c t. shadow_fillpage k H X (mmobj_lookuppage (Suc (Suc m)) H X) ob pf (fresh_page H ob pn pf a s) =
       Some (0, pinned_state pf (t\<lparr>phys := (phys t)(a := c)\<rparr>)) \<and> view s pn ob c \<and>
     cache_inv H t \<and> keeps (fresh_page H ob pn pf a s) t \<and>
     (\<forall>x\<in>in_use t - insert pf (in_use s). \<not> pf_busy (pframes t x) \<and> (\<exists>o' a'. pf_obj (pframes t x) = Some o' \<and>
        pf_addr (pframes t x) = Some a' \<and> (\<forall>d. view s (pf_pagenum (pframes t x)) o' d \<longrightarrow> d = phys t a')))"
proof -
  let ?f = "fresh_page H ob pn pf a s"
  note al = two_free_alloc [OF sup]
  have pf: "pf \<notin> in_use s" "pf \<in> in_use ?f" using al by (simp_all add: can_alloc_def fresh_page_simps)
  note k1 = keeps_fresh_page [OF pf(1), of H ob pn a]
  note inv1 = cache_inv_fresh_page [OF inv al nr]
  have frame: "pframes ?f pf = \<lparr>pf_addr = Some a, pf_obj = Some ob, pf_pagenum = pn, pf_busy = True, pf_dirty = False, pf_pincount = 0\<rparr>"
    by (simp add: fresh_page_simps)
  have obf: "pf_obj (pframes ?f pf) = Some ob" by (simp add: frame)
  obtain sh where sh: "mmo_shadowed (mmobjs s ob) = Some sh" "mmo_un (mmobjs s ob) = Mmo_bottom_obj (Some b)" "obj_chain s sh n b"
    using obj_chain_SucE [OF ch] by metis
  obtain c where c: "view s pn sh c" using view_exists [OF inv sh(3)] by blast
  have cob: "view s pn ob c" by (rule view.below [OF nr sh(1) c])
  have vf: "view ?f pn o' d" if "view s pn o' d" "obj_chain s o' i b" "i < Suc n" for o' d i
    by (rule view_fresh [OF k1 fresh_page_simps(1) obf ch that])
  have cf: "view ?f pn sh c" by (rule vf [OF c sh(3)]) simp
  have pin: "pframe_pin X pf (t\<lparr>phys := d\<rparr>) = Some (pinned_state pf (t\<lparr>phys := d\<rparr>))"
    if "pframes t pf = pframes ?f pf" for t d
    by (rule pframe_pin_first [OF api]) (simp_all add: that frame)
  obtain r t where r: "shadow_fill_loop k H X (Some ob) pn ?f = Some (r, t)" "touched ?f t"
    "case r of
        Some x \<Rightarrow> \<exists>ow y sh. resident ?f ow pn x \<and> pf_addr (pframes ?f x) = Some y \<and>
                      mmo_shadowed (mmobjs ?f ob) = Some sh \<and> view ?f pn sh (phys ?f y)
      | None \<Rightarrow> \<forall>sh c. mmo_shadowed (mmobjs ?f ob) = Some sh \<longrightarrow> view ?f pn b c \<longrightarrow> view ?f pn sh c"
    using shadow_fill_loop_ok [OF keeps_chain [OF k1 ch] inv1 api m, of pn] by blast
  have tf: "pframes t pf = pframes ?f pf" by (simp add: touched_simps [OF r(2)])
  have unk: "\<not> pframe_is_pinned X (pframes ?f pf)" by (simp add: mm_api_simps(3) [OF api] frame)
  show ?thesis
  proof (cases r)
    case (Some x)
    then obtain y where y: "pf_addr (pframes ?f x) = Some y" "view ?f pn sh (phys ?f y)"
      using r(3) sh(1) unfolding Some by (simp add: fresh_page_simps(8)) blast
    then have "phys ?f y = c" using view_unique [OF inv1 cf] by blast
    then have "phys t y = c" by (simp add: touched_simps [OF r(2)])
    then have "shadow_fillpage k H X (mmobj_lookuppage (Suc (Suc m)) H X) ob pf ?f =
       Some (0, pinned_state pf (t\<lparr>phys := (phys t)(a := c)\<rparr>))"
      using r(1) Some y(1) unk
      by (simp add: shadow_fillpage_def frame pin [OF tf] touched_simps(2) [OF r(2)])
    moreover have "cache_inv H t" "keeps ?f t" "in_use t - insert pf (in_use s) = ({} :: pfaddr set)"
      using cache_inv_touched [OF r(2) inv1] touched_keeps [OF r(2)]
      by (simp_all add: touched_simps(1) [OF r(2)] fresh_page_simps(1))
    ultimately show ?thesis using cob by (intro exI [of _ c] exI [of _ t]) (simp only: ball_empty simp_thms)
  next
    case None
    have cb: "obj_chain t b 0 b"
      by (rule keeps_chain [OF touched_keeps [OF r(2)] keeps_chain [OF k1 obj_chain_bottom [OF ch]]])
    have anon: "mmo_ops (mmobjs t b) = Anon_mmobj_ops" using obj_chain_0E [OF cb] by metis
    have nbusy: "\<forall>x. resident t b pn x \<longrightarrow> \<not> pf_busy (pframes t x)"
    proof (intro allI impI)
      fix x assume "resident t b pn x"
      then have rx: "resident ?f b pn x" by (simp add: touched_simps(15) [OF r(2)])
      have "b \<noteq> ob"
      proof
        assume "b = ob"
        then have "obj_chain s ob 0 b" using obj_chain_bottom [OF ch] by simp
        then have "Suc n = 0" using obj_chain_unique [OF ch] by blast
        then show False by simp
      qed
      then have "x \<noteq> pf" using rx obf by (auto simp: resident_def)
      then have "x \<in> in_use s" using rx by (simp add: resident_def fresh_page_simps(1))
      then show "\<not> pf_busy (pframes t x)"
        using busy \<open>x \<noteq> pf\<close> by (simp add: touched_simps(2) [OF r(2)] fresh_page_simps(2))
    qed
    have alt: "can_alloc t pf2 a2" using two_free_fresh [OF sup] by (simp add: can_alloc_touched [OF r(2)])
    have invt: "cache_inv H t" by (rule cache_inv_touched [OF r(2) inv1])
    obtain x y u where u: "pframe_get (Suc (Suc m)) H X (mmobj_fillpage (Suc m) H X) (mmobj_put (Suc (Suc m)) H X) b pn t = Some ((0, Some x), u)"
       "cache_inv H u" "grows t u" "in_use u \<subseteq> insert x (in_use t)" "resident u b pn x"
       "pf_addr (pframes u x) = Some y" "\<not> pf_busy (pframes u x)" "view t pn b (phys u y)"
      using anon_get_ok [OF invt api cb nbusy alt] by blast
    have look: "mmobj_lookuppage (Suc (Suc m)) H X b pn False t = Some ((0, Some x), u)"
      using u(1) anon by (simp add: mmobj_lookuppage.simps anon_lookuppage_def)
    have "view ?f pn b (phys u y)" using u(8) touched_view [OF r(2)] by simp
    then have "view ?f pn sh (phys u y)" using r(3) None sh(1) by (simp add: fresh_page_simps(8))
    then have cy: "phys u y = c" using view_unique [OF inv1 cf] by blast
    have bt: "shadow_bottom ob t = Some b"
      using sh(2) by (simp add: shadow_bottom_def touched_simps(3) [OF r(2)] fresh_page_simps(9))
    have ku: "keeps ?f u" by (rule keeps_trans [OF touched_keeps [OF r(2)] grows_keeps [OF u(3)]])
    have uf: "pframes u pf = pframes ?f pf" by (rule keepsD(2) [OF ku pf(2)])
    have run: "shadow_fillpage k H X (mmobj_lookuppage (Suc (Suc m)) H X) ob pf ?f =
       Some (0, pinned_state pf (u\<lparr>phys := (phys u)(a := c)\<rparr>))"
      using r(1) None unk look bt u(6) cy
      by (simp add: shadow_fillpage_def frame tf uf pin [OF uf])
    have "\<not> pf_busy (pframes u z) \<and> (\<exists>o' a'. pf_obj (pframes u z) = Some o' \<and>
        pf_addr (pframes u z) = Some a' \<and> (\<forall>d. view s (pf_pagenum (pframes u z)) o' d \<longrightarrow> d = phys u a'))"
      if z: "z \<in> in_use u - insert pf (in_use s)" for z
    proof -
      have "z = x" using z u(4) by (auto simp: touched_simps(1) [OF r(2)] fresh_page_simps(1))
      moreover have "d = phys u y" if "view s pn b d" for d
      proof -
        have "view ?f pn b d" by (rule vf [OF that obj_chain_bottom [OF ch]]) simp
        then show ?thesis using \<open>view ?f pn b (phys u y)\<close> view_unique [OF inv1] by blast
      qed
      ultimately show ?thesis using u(5-7) by (simp add: resident_def)
    qed
    then show ?thesis using run cob u(2) ku by blast
  qed
qed

lemma obj_chain_ops: "obj_chain s ob n b \<Longrightarrow> mmo_ops (mmobjs s ob) = (if n = 0 then Anon_mmobj_ops else Shadow_mmobj_ops)"
  by (cases rule: obj_chain.cases) auto

text \<open>Marking the new page dirty changes only its flags.\<close>

lemma pframe_dirty_shadow:
  assumes "\<not> pf_busy (pframes s pf)" and ob: "pf_obj (pframes s pf) = Some ob"
    and ops: "mmo_ops (mmobjs s ob) = Shadow_mmobj_ops" and q: "queues s (Pf_waitq pf) = \<lparr>tq_list = [], tq_size = 0\<rparr>"
  shows "pframe_dirty (mmobj_dirtypage X) pf s = Some (0, upd_pframe pf (\<lambda>f. f\<lparr>pf_dirty := True, pf_busy := False\<rparr>) s)"
proof -
  let ?b = "upd_pframe pf (\<lambda>f. f\<lparr>pf_busy := True\<rparr>) s" and ?t = "upd_pframe pf (\<lambda>f. f\<lparr>pf_dirty := True, pf_busy := False\<rparr>) s"
  have dirty: "mmobj_dirtypage X ob pf ?b = Some (0, ?b)"
    by (simp add: mmobj_dirtypage_def shadow_dirtypage_def upd_pframe_def ops)
  have wake: "sched_broadcast_on (Pf_waitq pf) ?t = Some ?t"
    by (intro sched_broadcast_on_empty) (simp_all add: upd_pframe_def q)
  have eq: "upd_pframe pf (\<lambda>f. f\<lparr>pf_busy := False\<rparr>) (upd_pframe pf (\<lambda>f. f\<lparr>pf_dirty := True\<rparr>) ?b) = ?t"
    by (simp add: upd_pframe_def)
  have ob': "pf_obj (pframes ?b pf) = Some ob" by (simp add: upd_pframe_def ob)
  show ?thesis
    by (simp add: pframe_dirty_def Let_def assms(1) ob' dirty eq wake del: sched_broadcast_on_empty)
qed

lemma grows_flags:
  assumes inv: "cache_inv H t" and g: "grows s t" and pf: "pf \<notin> in_use s"
  shows "cache_inv H (upd_pframe pf (\<lambda>f. f\<lparr>pf_dirty := d, pf_busy := b\<rparr>) t)"
    "grows s (upd_pframe pf (\<lambda>f. f\<lparr>pf_dirty := d, pf_busy := b\<rparr>) t)"
    "in_use (upd_pframe pf (\<lambda>f. f\<lparr>pf_dirty := d, pf_busy := b\<rparr>) t) = in_use t"
    "resident (upd_pframe pf (\<lambda>f. f\<lparr>pf_dirty := d, pf_busy := b\<rparr>) t) = resident t"
proof -
  let ?t = "upd_pframe pf (\<lambda>f. f\<lparr>pf_dirty := d, pf_busy := b\<rparr>) t"
  show use: "in_use ?t = in_use t" by (simp add: in_use_def upd_pframe_def)
  have same: "same_pages t ?t" by (simp add: same_pages_def in_use_def upd_pframe_def)
  then show "resident ?t = resident t" by (rule resident_same_pages)
  show "cache_inv H ?t"
    by (rule cache_inv_same_pages [OF same inv]) (use inv in \<open>simp add: cache_inv_def lists_inv_def upd_pframe_def\<close>)
  have k: "keeps s t" by (rule grows_keeps [OF g])
  have "keeps s ?t"
  proof -
    have "pframes ?t x = pframes t x" if "x \<in> in_use s" for x using that pf by (auto simp: upd_pframe_def)
    moreover have "mmobjs ?t = mmobjs t" "queues ?t = queues t" "phys ?t = phys t" by (simp_all add: upd_pframe_def)
    ultimately show ?thesis using k unfolding keeps_def use by simp
  qed
  moreover have "pf_obj (pframes ?t x) = pf_obj (pframes t x)" "pf_addr (pframes ?t x) = pf_addr (pframes t x)"
    "pf_pagenum (pframes ?t x) = pf_pagenum (pframes t x)" "phys ?t = phys t" for x
    by (simp_all add: upd_pframe_def)
  ultimately show "grows s ?t" using g unfolding grows_def use by simp
qed

lemma shadow_get_ok:
  assumes inv: "cache_inv H s" and api: "mm_api_ok X" and ch: "obj_chain s ob (Suc n) b"
    and nr: "\<forall>x. \<not> resident s ob pn x" and busy: "\<forall>x\<in>in_use s. \<not> pf_busy (pframes s x)"
    and sup: "two_free s pf a pf2 a2" and m: "n < Suc (Suc m)"
  shows "\<exists>u. pframe_get (Suc k) H X (mmobj_fillpage (Suc (Suc (Suc m))) H X) put ob pn s = Some ((0, Some pf), u) \<and>
     cache_inv H u \<and> grows s u \<and> resident u ob pn pf \<and> pf_addr (pframes u pf) = Some a \<and>
     (\<forall>x\<in>in_use u. \<not> pf_busy (pframes u x)) \<and> queues u (Pf_waitq pf) = \<lparr>tq_list = [], tq_size = 0\<rparr> \<and>
     view s pn ob (phys u a)"
proof -
  let ?f = "fresh_page H ob pn pf a s"
  note al = two_free_alloc [OF sup]
  have m': "Suc n < Suc (Suc (Suc m))" using m by simp
  obtain c t where t: "shadow_fillpage (Suc (Suc (Suc m))) H X (mmobj_lookuppage (Suc (Suc m)) H X) ob pf ?f =
       Some (0, pinned_state pf (t\<lparr>phys := (phys t)(a := c)\<rparr>))" "view s pn ob c" "cache_inv H t" "keeps ?f t"
     "\<forall>x\<in>in_use t - insert pf (in_use s). \<not> pf_busy (pframes t x) \<and> (\<exists>o' a'. pf_obj (pframes t x) = Some o' \<and>
        pf_addr (pframes t x) = Some a' \<and> (\<forall>d. view s (pf_pagenum (pframes t x)) o' d \<longrightarrow> d = phys t a'))"
    using shadow_fillpage_fresh [OF inv api ch nr busy sup m', of m] by blast
  have new: "\<forall>x\<in>in_use t - insert pf (in_use s). \<exists>o' a'. pf_obj (pframes t x) = Some o' \<and>
        pf_addr (pframes t x) = Some a' \<and> (\<forall>d. view s (pf_pagenum (pframes t x)) o' d \<longrightarrow> d = phys t a')"
    using t(5) by blast
  have c: "\<forall>d. view s pn ob d \<longrightarrow> d = c" using t(2) view_unique [OF inv] by blast
  note u = filled_fresh_grows [OF inv al nr t(3,4) new c]
  have fill: "mmobj_fillpage (Suc (Suc (Suc m))) H X ob pf ?f = Some (0, pinned_state pf (t\<lparr>phys := (phys t)(a := c)\<rparr>))"
    using t(1) obj_chain_ops [OF ch] by (simp add: mmobj_fillpage.simps fresh_page_simps(7))
  have "queues (pinned_state pf (t\<lparr>phys := (phys t)(a := c)\<rparr>)) (Pf_waitq pf) = \<lparr>tq_list = [], tq_size = 0\<rparr>"
    using u(8) by (simp add: filled_simps pinned_state_simps)
  then have run: "pframe_get (Suc k) H X (mmobj_fillpage (Suc (Suc (Suc m))) H X) put ob pn s = Some ((0, Some pf), filled pf a c t)"
    using pframe_get_new [where fillpage = "mmobj_fillpage (Suc (Suc (Suc m))) H X", OF inv api nr al obj_chain_refable [OF ch] fill]
    by (simp add: filled_def)
  have "\<not> pf_busy (pframes (filled pf a c t) x)" if x: "x \<in> in_use (filled pf a c t)" for x
  proof (cases "x = pf")
    case True
    then show ?thesis using u(6) by simp
  next
    case False
    then have eq: "pframes (filled pf a c t) x = pframes t x" by (simp add: filled_simps)
    show ?thesis
    proof (cases "x \<in> in_use s")
      case True
      then have "pframes t x = pframes ?f x" using keepsD(2) [OF t(4), of x] by (simp add: fresh_page_simps(1))
      then show ?thesis using busy True False eq by (simp add: fresh_page_simps(2))
    next
      case False
      then show ?thesis using t(5) x u(7) eq \<open>x \<noteq> pf\<close> by simp
    qed
  qed
  then show ?thesis using run u(1-5,8) t(2) by (intro exI [of _ "filled pf a c t"]) simp
qed

text \<open>The three ways to look up a page.\<close>

definition looked_up :: "hdr \<Rightarrow> kernel \<Rightarrow> oaddr \<Rightarrow> u32 \<Rightarrow> bool \<Rightarrow> pfaddr \<Rightarrow> kernel \<Rightarrow> bool" where
  "looked_up H s ob pn forwrite pf s' \<longleftrightarrow> cache_inv H s' \<and> grows s s' \<and>
     (\<exists>ow a. resident s' ow pn pf \<and> (forwrite \<longrightarrow> ow = ob) \<and> pf_addr (pframes s' pf) = Some a \<and> view s pn ob (phys s' a)) \<and>
     \<not> pf_busy (pframes s' pf) \<and> (\<forall>x\<in>in_use s' - in_use s. \<not> pf_busy (pframes s' x))"

lemma looked_up_anon:
  assumes inv: "cache_inv H s" and api: "mm_api_ok X" and ch: "obj_chain s b 0 b"
    and busy: "\<forall>x\<in>in_use s. \<not> pf_busy (pframes s x)" and al: "can_alloc s pf2 a2"
  shows "\<exists>pf s'. mmobj_lookuppage (Suc (Suc m)) H X b pn w s = Some ((0, Some pf), s') \<and> looked_up H s b pn w pf s'"
proof -
  have nb: "\<forall>x. resident s b pn x \<longrightarrow> \<not> pf_busy (pframes s x)" using busy by (simp add: resident_def)
  obtain pf a s' where u: "pframe_get (Suc (Suc m)) H X (mmobj_fillpage (Suc m) H X) (mmobj_put (Suc (Suc m)) H X) b pn s = Some ((0, Some pf), s')"
     "cache_inv H s'" "grows s s'" "in_use s' \<subseteq> insert pf (in_use s)" "resident s' b pn pf"
     "pf_addr (pframes s' pf) = Some a" "\<not> pf_busy (pframes s' pf)" "view s pn b (phys s' a)"
    using anon_get_ok [OF inv api ch nb al] by blast
  have "mmobj_lookuppage (Suc (Suc m)) H X b pn w s = Some ((0, Some pf), s')"
    using u(1) obj_chain_ops [OF ch] by (simp add: mmobj_lookuppage.simps anon_lookuppage_def)
  then show ?thesis using u unfolding looked_up_def by blast
qed

lemma looked_up_read:
  assumes inv: "cache_inv H s" and api: "mm_api_ok X" and ch: "obj_chain s ob (Suc n) b"
    and busy: "\<forall>x\<in>in_use s. \<not> pf_busy (pframes s x)" and al: "can_alloc s pf2 a2" and m: "Suc n < Suc (Suc (Suc m))"
  shows "\<exists>pf s'. mmobj_lookuppage (Suc (Suc (Suc m))) H X ob pn False s = Some ((0, Some pf), s') \<and>
     looked_up H s ob pn False pf s'"
proof -
  obtain r t where r: "shadow_lookup_loop (Suc (Suc (Suc m))) H X ob pn s = Some (r, t)" "touched s t"
     "case r of
        Some pf \<Rightarrow> \<exists>ow a. resident s ow pn pf \<and> pf_addr (pframes s pf) = Some a \<and> view s pn ob (phys s a)
      | None \<Rightarrow> \<forall>c. view s pn b c \<longrightarrow> view s pn ob c"
    using shadow_lookup_loop_ok [OF ch inv api m, of pn] by blast
  have inv_t: "cache_inv H t" by (rule cache_inv_touched [OF r(2) inv])
  have kt: "keeps s t" and gt: "grows s t" using r(2) by (rule touched_keeps, rule touched_grows)
  have un: "mmo_un (mmobjs s ob) = Mmo_bottom_obj (Some b)" using obj_chain_SucE [OF ch] by metis
  have bot: "shadow_bottom ob t = Some b" by (simp add: shadow_bottom_def keepsD(7) [OF kt] un)
  show ?thesis
  proof (cases r)
    case (Some pf)
    then obtain ow a where a: "resident s ow pn pf" "pf_addr (pframes s pf) = Some a" "view s pn ob (phys s a)"
      using r(3) by auto
    have nb: "\<not> pf_busy (pframes s pf)" "pf_pagenum (pframes s pf) = pn" using a(1) busy by (simp_all add: resident_def)
    have "mmobj_lookuppage (Suc (Suc (Suc m))) H X ob pn False s = Some ((0, Some pf), t)"
      using r(1) Some nb obj_chain_ops [OF ch]
      by (simp add: mmobj_lookuppage.simps shadow_lookuppage_def touched_simps(2) [OF r(2)] del: shadow_lookup_loop.simps)
    moreover have "looked_up H s ob pn False pf t"
      using inv_t gt a nb unfolding looked_up_def by (simp add: touched_simps [OF r(2)]) blast
    ultimately show ?thesis by blast
  next
    case None
    have busy_t: "\<forall>x\<in>in_use t. \<not> pf_busy (pframes t x)" using busy by (simp add: touched_simps [OF r(2)])
    have al_t: "can_alloc t pf2 a2" using al by (simp add: can_alloc_touched [OF r(2)])
    obtain pf u where u: "mmobj_lookuppage (Suc (Suc m)) H X b pn False t = Some ((0, Some pf), u)"
       "looked_up H t b pn False pf u"
      using looked_up_anon [OF inv_t api keeps_chain [OF kt obj_chain_bottom [OF ch]] busy_t al_t] by blast
    have nb: "\<not> pf_busy (pframes u pf)" "pf_pagenum (pframes u pf) = pn" using u(2) by (auto simp: looked_up_def resident_def)
    have "mmobj_lookuppage (Suc (Suc (Suc m))) H X ob pn False s = Some ((0, Some pf), u)"
      using r(1) None nb bot u(1) obj_chain_ops [OF ch]
      by (simp add: mmobj_lookuppage.simps(2) [of "Suc (Suc m)"] shadow_lookuppage_def del: shadow_lookup_loop.simps)
    moreover have "grows s u"
      using u(2) kt keeps_trans [OF kt, of u]
      by (simp add: looked_up_def grows_def touched_simps(1) [OF r(2)] touched_view [OF r(2)])
    moreover have "view s pn b c \<Longrightarrow> view s pn ob c" for c using r(3) None by simp
    ultimately show ?thesis
      using u(2) unfolding looked_up_def touched_simps(1) [OF r(2)] touched_view [OF r(2)] by blast
  qed
qed

lemma looked_up_write:
  assumes inv: "cache_inv H s" and api: "mm_api_ok X" and ch: "obj_chain s ob (Suc n) b"
    and busy: "\<forall>x\<in>in_use s. \<not> pf_busy (pframes s x)" and sup: "two_free s pf1 a1 pf2 a2" and m: "n < Suc (Suc m)"
  shows "\<exists>pf s'. mmobj_lookuppage (Suc (Suc (Suc (Suc m)))) H X ob pn True s = Some ((0, Some pf), s') \<and>
     looked_up H s ob pn True pf s'"
  using inv api
proof (cases rule: get_resident_cases [of H s X ob pn])
  case (found pf t)
  have nb: "\<not> pf_busy (pframes s pf)" "pf_pagenum (pframes s pf) = pn" using found(2) busy by (simp_all add: resident_def)
  obtain a where a: "pf_addr (pframes s pf) = Some a"
    using cache_inv_page [OF inv, of pf] found(2) by (auto simp: resident_def)
  have "mmobj_lookuppage (Suc (Suc (Suc (Suc m)))) H X ob pn True s = Some ((0, Some pf), t)"
    using found(1) nb obj_chain_ops [OF ch]
    by (simp add: mmobj_lookuppage.simps shadow_lookuppage_def touched_simps(2) [OF found(3)])
  moreover have "looked_up H s ob pn True pf t"
    using cache_inv_touched [OF found(3) inv] touched_grows [OF found(3)] found(2) a nb view.here [OF found(2) a]
    unfolding looked_up_def by (simp add: touched_simps [OF found(3)])
  ultimately show ?thesis by blast
next
  case absent
  obtain u where u: "pframe_get (Suc (Suc (Suc (Suc m)))) H X (mmobj_fillpage (Suc (Suc (Suc m))) H X)
       (mmobj_put (Suc (Suc (Suc (Suc m)))) H X) ob pn s = Some ((0, Some pf1), u)"
     "cache_inv H u" "grows s u" "resident u ob pn pf1" "pf_addr (pframes u pf1) = Some a1"
     "\<forall>x\<in>in_use u. \<not> pf_busy (pframes u x)" "queues u (Pf_waitq pf1) = \<lparr>tq_list = [], tq_size = 0\<rparr>"
     "view s pn ob (phys u a1)"
    using shadow_get_ok [OF inv api ch absent(2) busy sup m] by blast
  let ?u = "upd_pframe pf1 (\<lambda>f. f\<lparr>pf_dirty := True, pf_busy := False\<rparr>) u"
  have pf1: "pf1 \<notin> in_use s" using sup by (simp add: two_free_def)
  note g = grows_flags [where d = True and b = False, OF u(2,3) pf1]
  have obj: "pf_obj (pframes u pf1) = Some ob" "pf_pagenum (pframes u pf1) = pn" "\<not> pf_busy (pframes u pf1)"
    using u(4,6) by (simp_all add: resident_def)
  have "mmo_ops (mmobjs u ob) = Shadow_mmobj_ops"
    using obj_chain_ops [OF ch] by (simp add: keepsD(5) [OF grows_keeps [OF u(3)]])
  note dirty = pframe_dirty_shadow [OF obj(3,1) this u(7), of X]
  have fr: "pframes ?u = (pframes u)(pf1 := (pframes u pf1)\<lparr>pf_dirty := True, pf_busy := False\<rparr>)" "phys ?u = phys u"
    by (simp_all add: upd_pframe_def)
  have "mmobj_lookuppage (Suc (Suc (Suc (Suc m)))) H X ob pn True s = Some ((0, Some pf1), ?u)"
    using absent(1) u(1) dirty obj obj_chain_ops [OF ch]
    by (simp add: mmobj_lookuppage.simps(2) [of "Suc (Suc (Suc m))"] shadow_lookuppage_def fr)
  moreover have "looked_up H s ob pn True pf1 ?u"
    using g(1,2) u(4-6,8) unfolding looked_up_def g(3,4) by (simp add: fr)
  ultimately show ?thesis by blast
qed


lemma pframe_lookup_looked_up:
  assumes "cache_inv H s" and "mm_api_ok X" and "obj_chain s ob n b"
    and "\<forall>x\<in>in_use s. \<not> pf_busy (pframes s x)" and "two_free s pf1 a1 pf2 a2" and "n + 3 \<le> k"
  shows "\<exists>pf s'. pframe_lookup k H X (Some ob) pn forwrite s = Some ((0, Some pf), s') \<and> looked_up H s ob pn forwrite pf s'"
proof -
  note al = two_free_alloc [OF assms(5)]
  obtain pf s' where "mmobj_lookuppage k H X ob pn forwrite s = Some ((0, Some pf), s')"
    and "looked_up H s ob pn forwrite pf s'"
  proof (cases n)
    case 0
    then have "b = ob" and ch: "obj_chain s b 0 b" using assms(3) obj_chain_bottom obj_chain_0E by metis+
    obtain m where "k = Suc (Suc m)" using assms(6) by (auto dest: le_Suc_ex)
    then show ?thesis using that looked_up_anon [OF assms(1,2) ch assms(4) al] \<open>b = ob\<close> by blast
  next
    case (Suc n')
    then have ch: "obj_chain s ob (Suc n') b" using assms(3) by simp
    obtain m where k: "k = Suc (Suc (Suc (Suc m)))" "n' \<le> m" using assms(6) Suc by (auto dest: le_Suc_ex)
    then have m: "n' < Suc (Suc m)" "Suc n' < Suc (Suc (Suc (Suc m)))" by simp_all
    have "\<exists>pf s'. mmobj_lookuppage k H X ob pn forwrite s = Some ((0, Some pf), s') \<and> looked_up H s ob pn forwrite pf s'"
      using looked_up_write [OF assms(1,2) ch assms(4,5) m(1), of pn] looked_up_read [OF assms(1,2) ch assms(4) al m(2), of pn]
      unfolding k(1) by (cases forwrite) simp_all
    then show ?thesis using that by blast
  qed
  then show ?thesis unfolding pframe_lookup_def by (intro exI [of _ pf] exI [of _ s']) simp
qed

text \<open>
  C2: copy on write. Let \<open>ob\<close> be an object over a chain of \<open>n\<close> shadow objects that ends in an
  anonymous object, no page be busy and the allocators have two free pages. Then looking up a page of
  \<open>ob\<close>, for reading or for writing, returns a page that holds what \<open>ob\<close> shows at this page number:
  its own page, or else the page of the nearest object below that has one, or else zeros. Looked up for
  writing, the page belongs to \<open>ob\<close> itself, so that a write to it is seen by no object below. What any
  object shows at any page number is as it was, no page that was in use is touched, and the invariant of
  the page cache holds. A depth of \<open>n + 3\<close> calls is enough.
\<close>

theorem lookuppage_copies_on_write:
  assumes "cache_inv H s" and "mm_api_ok X" and "obj_chain s ob n b"
    and "\<forall>x\<in>in_use s. \<not> pf_busy (pframes s x)" and "two_free s pf1 a1 pf2 a2" and "n + 3 \<le> k"
  shows "\<exists>pf a ow s'. pframe_lookup k H X (Some ob) pn forwrite s = Some ((0, Some pf), s') \<and>
     resident s' ow pn pf \<and> (forwrite \<longrightarrow> ow = ob) \<and> pf_addr (pframes s' pf) = Some a \<and>
     view s pn ob (phys s' a) \<and> (\<forall>pn' o' c. view s pn' o' c \<longrightarrow> view s' pn' o' c) \<and>
     (\<forall>x\<in>in_use s. x \<in> in_use s' \<and> pframes s' x = pframes s x) \<and>
     cache_inv H s' \<and> (\<forall>x\<in>in_use s'. \<not> pf_busy (pframes s' x))"
proof -
  obtain pf s' where run: "pframe_lookup k H X (Some ob) pn forwrite s = Some ((0, Some pf), s')"
    and l: "looked_up H s ob pn forwrite pf s'"
    using pframe_lookup_looked_up [OF assms] by blast
  obtain ow a where a: "resident s' ow pn pf" "forwrite \<longrightarrow> ow = ob" "pf_addr (pframes s' pf) = Some a" "view s pn ob (phys s' a)"
    and g: "grows s s'" and inv: "cache_inv H s'" and nb: "\<forall>x\<in>in_use s' - in_use s. \<not> pf_busy (pframes s' x)"
    using l unfolding looked_up_def by blast
  have same: "\<forall>x\<in>in_use s. x \<in> in_use s' \<and> pframes s' x = pframes s x" using keepsD(1,2) [OF grows_keeps [OF g]] by blast
  have "\<not> pf_busy (pframes s' x)" if "x \<in> in_use s'" for x
    using nb assms(4) same that by (cases "x \<in> in_use s") simp_all
  then show ?thesis using run a inv same view_grow [OF g]
    by (intro exI [of _ pf] exI [of _ a] exI [of _ ow] exI [of _ s']) simp
qed

theorem lookuppage_copies_on_write_witness:
  "view shadowed_page 5 50 (\<lambda>_. 7) \<and>
   (\<exists>pf a s'. pframe_lookup 4 std_hdr std_ext (Some 50) 5 True shadowed_page = Some ((0, Some pf), s') \<and>
     resident s' 50 5 pf \<and> pf_addr (pframes s' pf) = Some a \<and> phys s' a = (\<lambda>_. 7) \<and> view s' 5 60 (\<lambda>_. 7))"
proof -
  have b: "obj_chain shadowed_page 60 0 60"
    by (rule obj_chain.bottom) (simp_all add: shadowed_page_fields blank_mmobj_def)
  have ch: "obj_chain shadowed_page 50 (Suc 0) 60"
    by (rule obj_chain.shadow [OF _ _ _ _ b]) (simp_all add: shadowed_page_fields blank_mmobj_def)
  have busy: "\<forall>x\<in>in_use shadowed_page. \<not> pf_busy (pframes shadowed_page x)" by (simp add: shadowed_page_fields)
  have free: "two_free shadowed_page 71 81 72 82" by (simp add: two_free_def shadowed_page_fields)
  have r: "resident shadowed_page 60 5 70" by (simp add: resident_def shadowed_page_fields)
  have "phys shadowed_page 80 = (\<lambda>_. 7)" by (simp add: shadowed_page_def)
  then have v60: "view shadowed_page 5 60 (\<lambda>_. 7)"
    using view.here [OF r, of 80] by (simp add: shadowed_page_fields)
  have "\<forall>pf. \<not> resident shadowed_page 50 5 pf" "mmo_shadowed (mmobjs shadowed_page 50) = Some 60"
    by (auto simp: resident_def shadowed_page_fields)
  from view.below [OF this v60] have v50: "view shadowed_page 5 50 (\<lambda>_. 7)" .
  have "Suc 0 + 3 \<le> (4 :: nat)" by simp
  from lookuppage_copies_on_write [OF shadowed_page_inv std_ext_mm_api_ok ch busy free this, of 5 True]
  obtain pf a s' where "pframe_lookup 4 std_hdr std_ext (Some 50) 5 True shadowed_page = Some ((0, Some pf), s')"
     "resident s' 50 5 pf" "pf_addr (pframes s' pf) = Some a" "view shadowed_page 5 50 (phys s' a)"
     "\<forall>pn' o' c. view shadowed_page pn' o' c \<longrightarrow> view s' pn' o' c" by auto
  then show ?thesis using v50 v60 view_unique [OF shadowed_page_inv v50] by metis
qed

end
