(* ===== verification/Vn_Special.thy ===== *)
theory Vn_Special
  imports Kernel_Examples
begin

text \<open>
  Special files (\<open>kernel/fs/vn_special.c\<close>) and the dispatch of the vnode operations through
  \<open>vn_ops\<close>. A vnode belongs to a byte device, a block device or a file system; the operations of the
  file systems and of the devices are external. An entry of an operations table is an \<open>option\<close>: a
  call through a \<open>NULL\<close> entry does not return.

  The contents of the buffers that \<open>stat\<close> and \<open>readdir\<close> fill are not modelled, their results are.
\<close>

subsection \<open>Special files\<close>

definition init_special_vnode :: "hdr \<Rightarrow> ext \<Rightarrow> vaddr \<Rightarrow> proc_call" where
  "init_special_vnode H X vn s = (
     if S_ISCHR H (vn_mode (vnodes s vn))
     then Some (upd_vnode vn (\<lambda>v. v\<lparr>vn_ops := Bytedev_spec_vops, vn_cdev := bytedev_lookup X (vn_devid v)\<rparr>) s)
     else do {
       KASSERT (S_ISBLK H (vn_mode (vnodes s vn)));
       Some (upd_vnode vn (\<lambda>v. v\<lparr>vn_ops := Blockdev_spec_vops, vn_bdev := blockdev_lookup X (vn_devid v)\<rparr>) s) })"

text \<open>
  \<open>special_file_stat\<close> calls the \<open>stat\<close> entry of the root of the vnode's file system. Were that entry
  \<open>special_file_stat\<close> itself, the call would repeat itself with the same arguments for ever.
\<close>

definition special_file_stat :: "ext \<Rightarrow> vaddr \<Rightarrow> int call" where
  "special_file_stat X vn s = do {
     root \<leftarrow> vn_fs_root (vnodes s vn);
     (case vn_ops (vnodes s root) of
        Fs_vops i \<Rightarrow> do { stat \<leftarrow> fs_stat X i; stat vn s }
      | _ \<Rightarrow> None) }"

text \<open>Whether the entries \<open>read\<close> and \<open>write\<close> of an operations table are \<open>NULL\<close>.\<close>

definition read_is_null :: "ext \<Rightarrow> vnode_ops \<Rightarrow> bool" where
  "read_is_null X ops = (case ops of
     Bytedev_spec_vops \<Rightarrow> False | Blockdev_spec_vops \<Rightarrow> True | Fs_vops i \<Rightarrow> fs_read X i = None)"

definition write_is_null :: "ext \<Rightarrow> vnode_ops \<Rightarrow> bool" where
  "write_is_null X ops = (case ops of
     Bytedev_spec_vops \<Rightarrow> False | Blockdev_spec_vops \<Rightarrow> True | Fs_vops i \<Rightarrow> fs_write X i = None)"

definition special_file_read :: "hdr \<Rightarrow> ext \<Rightarrow> vaddr \<Rightarrow> int \<Rightarrow> nat \<Rightarrow> (int \<times> 8 word list) call" where
  "special_file_read H X file offset count s = do {
     let f = vnodes s file;
     KASSERT (S_ISCHR H (vn_mode f) \<or> S_ISBLK H (vn_mode f));
     if S_ISCHR H (vn_mode f)
     then do {
       KASSERT (\<not> read_is_null X (vn_ops f));
       let dev = bytedev_lookup X (vn_devid f);
       cdev \<leftarrow> vn_cdev f;
       KASSERT (cd_read X cdev \<noteq> None);
       dev \<leftarrow> dev;
       read \<leftarrow> cd_read X dev;
       read dev offset count s }
     else Some ((0, []), s) }"

definition special_file_write :: "hdr \<Rightarrow> ext \<Rightarrow> vaddr \<Rightarrow> int \<Rightarrow> 8 word list \<Rightarrow> int call" where
  "special_file_write H X file offset buf s = do {
     let f = vnodes s file;
     KASSERT (S_ISCHR H (vn_mode f) \<or> S_ISBLK H (vn_mode f));
     if S_ISCHR H (vn_mode f)
     then do {
       KASSERT (\<not> write_is_null X (vn_ops f));
       dev \<leftarrow> bytedev_lookup X (vn_devid f);
       write \<leftarrow> cd_write X dev;
       (bytes_written, s) \<leftarrow> write dev offset buf s;
       cdev \<leftarrow> vn_cdev (vnodes s file);
       KASSERT (cd_write X cdev \<noteq> None);
       Some (bytes_written, s) }
     else Some (0, s) }"

definition special_file_mmap :: "ext \<Rightarrow> vaddr \<Rightarrow> vmaddr \<Rightarrow> (int \<times> oaddr option) call" where
  "special_file_mmap X file vma s = do {
     dev \<leftarrow> bytedev_lookup X (vn_devid (vnodes s file));
     mmap \<leftarrow> cd_mmap X dev;
     mmap file vma s }"

definition special_file_fillpage :: "vaddr \<Rightarrow> int \<Rightarrow> int call" where
  "special_file_fillpage file offset s = Some (0, s)"

definition special_file_dirtypage :: "vaddr \<Rightarrow> int \<Rightarrow> int call" where
  "special_file_dirtypage file offset s = Some (0, s)"

definition special_file_cleanpage :: "vaddr \<Rightarrow> int \<Rightarrow> int call" where
  "special_file_cleanpage file offset s = Some (0, s)"

subsection \<open>The operations tables\<close>

definition vop_read :: "hdr \<Rightarrow> ext \<Rightarrow> vnode_ops \<Rightarrow> (vaddr \<Rightarrow> int \<Rightarrow> nat \<Rightarrow> (int \<times> 8 word list) call) option" where
  "vop_read H X ops = (case ops of
     Bytedev_spec_vops \<Rightarrow> Some (special_file_read H X) | Blockdev_spec_vops \<Rightarrow> None | Fs_vops i \<Rightarrow> fs_read X i)"

definition vop_write :: "hdr \<Rightarrow> ext \<Rightarrow> vnode_ops \<Rightarrow> (vaddr \<Rightarrow> int \<Rightarrow> 8 word list \<Rightarrow> int call) option" where
  "vop_write H X ops = (case ops of
     Bytedev_spec_vops \<Rightarrow> Some (special_file_write H X) | Blockdev_spec_vops \<Rightarrow> None | Fs_vops i \<Rightarrow> fs_write X i)"

definition vop_mmap :: "ext \<Rightarrow> vnode_ops \<Rightarrow> (vaddr \<Rightarrow> vmaddr \<Rightarrow> (int \<times> oaddr option) call) option" where
  "vop_mmap X ops = (case ops of
     Bytedev_spec_vops \<Rightarrow> Some (special_file_mmap X) | Blockdev_spec_vops \<Rightarrow> None | Fs_vops i \<Rightarrow> fs_mmap X i)"

definition vop_stat :: "ext \<Rightarrow> vnode_ops \<Rightarrow> (vaddr \<Rightarrow> int call) option" where
  "vop_stat X ops = (case ops of Fs_vops i \<Rightarrow> fs_stat X i | _ \<Rightarrow> Some (special_file_stat X))"

text \<open>The entries that are \<open>NULL\<close> for both kinds of device.\<close>

definition fs_op :: "(nat \<Rightarrow> 'f option) \<Rightarrow> vnode_ops \<Rightarrow> 'f option" where
  "fs_op entry ops = (case ops of Fs_vops i \<Rightarrow> entry i | _ \<Rightarrow> None)"

lemma read_is_null_iff: "read_is_null X ops \<longleftrightarrow> vop_read H X ops = None"
  by (cases ops) (simp_all add: read_is_null_def vop_read_def)

lemma write_is_null_iff: "write_is_null X ops \<longleftrightarrow> vop_write H X ops = None"
  by (cases ops) (simp_all add: write_is_null_def vop_write_def)

end
