(* ===== verification/Vmmap_Ops.thy ===== *)
theory Vmmap_Ops
  imports Cow Vn_Special
begin

text \<open>
  The operations of \<open>kernel/vm/vmmap.c\<close> that work on the memory objects behind the areas: mapping,
  unmapping, destroying an address space, and reading and writing through it. The first argument
  bounds the depth of the calls of the object operations, as in \<open>Shadow\<close>.
\<close>

subsection \<open>Operations\<close>

text \<open>
  \<open>list_remove(&vma->vma_olink)\<close>, when the link is linked: the area leaves the list of areas of the
  object that has it.
\<close>

definition olink_remove :: "vmaddr \<Rightarrow> kernel \<Rightarrow> kernel" where
  "olink_remove vma s = s\<lparr>mmobjs := (\<lambda>ob. (mmobjs s ob)\<lparr>mmo_un := (case mmo_un (mmobjs s ob) of
     Mmo_vmas l \<Rightarrow> Mmo_vmas (remove1 vma l) | Mmo_bottom_obj b \<Rightarrow> Mmo_bottom_obj b)\<rparr>)\<rparr>"

text \<open>\<open>list_insert_tail(&o->mmo_un.mmo_vmas, &vma->vma_olink)\<close>\<close>

definition olink_insert :: "oaddr \<Rightarrow> vmaddr \<Rightarrow> proc_call" where
  "olink_insert ob vma s = (case mmo_un (mmobjs s ob) of
     Mmo_vmas l \<Rightarrow> Some (upd_mmobj ob (\<lambda>m. m\<lparr>mmo_un := Mmo_vmas (l @ [vma])\<rparr>) s)
   | Mmo_bottom_obj _ \<Rightarrow> None)"

definition vmarea_free :: "vmaddr \<Rightarrow> kernel \<Rightarrow> kernel" where
  "vmarea_free vma s = slab_obj_free vma s"

fun vmmap_destroy_loop :: "nat \<Rightarrow> hdr \<Rightarrow> ext \<Rightarrow> vmapaddr \<Rightarrow> vmaddr list \<Rightarrow> proc_call" where
  "vmmap_destroy_loop n H X mp [] s = Some s"
| "vmmap_destroy_loop n H X mp (tmp # tmps) s = do {
     let s = upd_vmmap mp (\<lambda>m. m\<lparr>vmm_list := remove1 tmp (vmm_list m)\<rparr>) s;
     s \<leftarrow> (case vma_obj (vmareas s tmp) of Some ob \<Rightarrow> mmobj_put n H X ob s | None \<Rightarrow> Some s);
     vmmap_destroy_loop n H X mp tmps (olink_remove tmp s) }"

definition vmmap_destroy :: "nat \<Rightarrow> hdr \<Rightarrow> ext \<Rightarrow> vmapaddr option \<Rightarrow> proc_call" where
  "vmmap_destroy n H X mp s = do {
     mp \<leftarrow> mp;
     s \<leftarrow> vmmap_destroy_loop n H X mp (vmm_list (vmmaps s mp)) s;
     Some (slab_obj_free mp s) }"

text \<open>The body of the loop of \<open>vmmap_remove\<close> for one area: its four cases in their order.\<close>

definition remove_case1 :: "hdr \<Rightarrow> ext \<Rightarrow> vmapaddr \<Rightarrow> u32 \<Rightarrow> u32 \<Rightarrow> vmaddr \<Rightarrow> proc_call" where
  "remove_case1 H X mp lopage npages tmp s = (let t = vmareas s tmp in
     if vma_start t < lopage \<and> vma_end t > lopage + npages
     then do {
       (newvma, s) \<leftarrow> vmarea_alloc s;
       newvma \<leftarrow> newvma;
       let s = upd_vmarea newvma (\<lambda>v. v\<lparr>vma_start := lopage + npages, vma_end := vma_end t,
                  vma_off := vma_off t + (lopage + npages) - vma_start t,
                  vma_flags := vma_flags t, vma_prot := vma_prot t, vma_obj := vma_obj t\<rparr>) s;
       s \<leftarrow> vmmap_insert H mp newvma s;
       ob \<leftarrow> vma_obj (vmareas s newvma);
       s \<leftarrow> mmobj_ref X ob s;
       Some (upd_vmarea tmp (\<lambda>v. v\<lparr>vma_end := lopage\<rparr>) s) }
     else Some s)"

definition remove_case2 :: "u32 \<Rightarrow> u32 \<Rightarrow> vmaddr \<Rightarrow> kernel \<Rightarrow> kernel" where
  "remove_case2 lopage npages tmp s = (let t = vmareas s tmp in
     if vma_start t < lopage \<and> vma_end t > lopage \<and> vma_end t \<le> lopage + npages
     then upd_vmarea tmp (\<lambda>v. v\<lparr>vma_end := lopage\<rparr>) s else s)"

definition remove_case3 :: "u32 \<Rightarrow> u32 \<Rightarrow> vmaddr \<Rightarrow> kernel \<Rightarrow> kernel" where
  "remove_case3 lopage npages tmp s = (let t = vmareas s tmp in
     if vma_end t > lopage + npages \<and> vma_start t < lopage + npages \<and> vma_start t \<ge> lopage
     then upd_vmarea tmp (\<lambda>v. v\<lparr>vma_off := vma_off v + (lopage + npages) - vma_start v,
                                vma_start := lopage + npages\<rparr>) s else s)"

definition remove_case4 :: "nat \<Rightarrow> hdr \<Rightarrow> ext \<Rightarrow> vmapaddr \<Rightarrow> u32 \<Rightarrow> u32 \<Rightarrow> vmaddr \<Rightarrow> proc_call" where
  "remove_case4 n H X mp lopage npages tmp s = (let t = vmareas s tmp in
     if vma_start t \<ge> lopage \<and> vma_end t \<le> lopage + npages
     then do {
       ob \<leftarrow> vma_obj t;
       s \<leftarrow> mmobj_put n H X ob s;
       let s = upd_vmmap mp (\<lambda>m. m\<lparr>vmm_list := remove1 tmp (vmm_list m)\<rparr>) s;
       Some (vmarea_free tmp (olink_remove tmp s)) }
     else Some s)"

fun vmmap_remove_loop :: "nat \<Rightarrow> hdr \<Rightarrow> ext \<Rightarrow> vmapaddr \<Rightarrow> u32 \<Rightarrow> u32 \<Rightarrow> vmaddr list \<Rightarrow> proc_call" where
  "vmmap_remove_loop n H X mp lopage npages [] s = Some s"
| "vmmap_remove_loop n H X mp lopage npages (tmp # tmps) s = do {
     s \<leftarrow> remove_case1 H X mp lopage npages tmp s;
     let s = remove_case3 lopage npages tmp (remove_case2 lopage npages tmp s);
     s \<leftarrow> remove_case4 n H X mp lopage npages tmp s;
     vmmap_remove_loop n H X mp lopage npages tmps s }"

definition vmmap_remove :: "nat \<Rightarrow> hdr \<Rightarrow> ext \<Rightarrow> vmapaddr option \<Rightarrow> u32 \<Rightarrow> u32 \<Rightarrow> int call" where
  "vmmap_remove n H X mp lopage npages s = do {
     mp \<leftarrow> mp;
     s \<leftarrow> vmmap_remove_loop n H X mp lopage npages (vmm_list (vmmaps s mp)) s;
     let s = log_hw Tlb_flush_all s;
     p \<leftarrow> curproc s;
     Some (0, log_hw (Pt_unmap_range (p_pagedir (procs s p)) (PN_TO_ADDR H lopage) (PN_TO_ADDR H (lopage + npages))) s) }"

text \<open>The object behind a new area: a new anonymous one, or what the vnode's \<open>mmap\<close> operation gives.\<close>

definition map_object :: "ext \<Rightarrow> vaddr option \<Rightarrow> vmaddr \<Rightarrow> oaddr call" where
  "map_object X file vma s = do {
     (ob, s) \<leftarrow> (case file of
         Some f \<Rightarrow> do {
           mmap \<leftarrow> vop_mmap X (vn_ops (vnodes s f));
           ((_, ob), s) \<leftarrow> mmap f vma s;
           Some (ob, s) }
       | None \<Rightarrow> anon_create X s);
     ob \<leftarrow> ob;
     s \<leftarrow> olink_insert ob vma s;
     Some (ob, upd_vmarea vma (\<lambda>v. v\<lparr>vma_obj := Some ob\<rparr>) s) }"

text \<open>The shadow object that a private mapping puts over the object.\<close>

definition map_private :: "ext \<Rightarrow> vmaddr \<Rightarrow> oaddr \<Rightarrow> proc_call" where
  "map_private X vma ob s = do {
     (shadow_obj, s) \<leftarrow> shadow_create X s;
     let s = upd_mmobj shadow_obj (\<lambda>m. m\<lparr>mmo_shadowed := Some ob\<rparr>) s;
     let bottom_obj = mmobj_bottom_obj X ob (mmobjs s ob);
     let s = upd_mmobj shadow_obj (\<lambda>m. m\<lparr>mmo_un := Mmo_bottom_obj bottom_obj\<rparr>) s;
     bottom_obj \<leftarrow> bottom_obj;
     s \<leftarrow> mmobj_ref X bottom_obj s;
     Some (upd_vmarea vma (\<lambda>v. v\<lparr>vma_obj := Some shadow_obj\<rparr>) s) }"

text \<open>\<open>vmmap_map\<close>: the second component of the result is what the call stores in \<open>*new\<close>.\<close>

definition vmmap_map :: "nat \<Rightarrow> hdr \<Rightarrow> ext \<Rightarrow> vmapaddr option \<Rightarrow> vaddr option \<Rightarrow> u32 \<Rightarrow> u32 \<Rightarrow> u32 \<Rightarrow> u32 \<Rightarrow> u32 \<Rightarrow> int \<Rightarrow>
    (int \<times> vmaddr option) call" where
  "vmmap_map n H X mp file lopage npages prot flags off dir s = do {
     mp \<leftarrow> mp;
     KASSERT (0 < npages);
     KASSERT (MAP_SHARED H AND flags \<noteq> 0 \<or> MAP_PRIVATE H AND flags \<noteq> 0);
     KASSERT (lopage = 0 \<or> lo_pn H \<le> lopage);
     KASSERT (lopage = 0 \<or> hi_pn H \<ge> lopage + npages);
     KASSERT (PAGE_ALIGNED H off);
     ((err, lopage), s) \<leftarrow>
       (if lopage = 0
        then do {
          range \<leftarrow> vmmap_find_range H mp npages dir s;
          Some ((if range < 0 then range else 0, word_of_int range), s) }
        else do {
          empty \<leftarrow> vmmap_is_range_empty H mp lopage npages s;
          s \<leftarrow> (if empty = 0 then do { (_, s) \<leftarrow> vmmap_remove n H X (Some mp) lopage npages s; Some s } else Some s);
          Some ((0, lopage), s) });
     if err < 0 then Some ((err, None), s)
     else do {
       (vma, s) \<leftarrow> vmarea_alloc s;
       vma \<leftarrow> vma;
       let s = upd_vmarea vma (\<lambda>v. v\<lparr>vma_end := lopage + npages, vma_start := lopage, vma_off := ADDR_TO_PN H off,
                                     vma_flags := flags, vma_prot := prot\<rparr>) s;
       s \<leftarrow> vmmap_insert H mp vma s;
       (ob, s) \<leftarrow> map_object X file vma s;
       s \<leftarrow> (if vma_flags (vmareas s vma) AND MAP_PRIVATE H \<noteq> 0 then map_private X vma ob s else Some s);
       Some ((0, Some vma), s) } }"

subsection \<open>Reading and writing\<close>

text \<open>
  The bytes of a page, read and written from an offset. \<open>MIN(count - done, PAGE_SIZE - PAGE_OFFSET(cur))\<close>
  bytes are copied in each round.
\<close>

definition page_bytes :: "(nat \<Rightarrow> 8 word) \<Rightarrow> nat \<Rightarrow> nat \<Rightarrow> 8 word list" where
  "page_bytes pg off k = map pg [off..<off + k]"

definition page_write :: "(nat \<Rightarrow> 8 word) \<Rightarrow> nat \<Rightarrow> 8 word list \<Rightarrow> (nat \<Rightarrow> 8 word)" where
  "page_write pg off bs = (\<lambda>i. if off \<le> i \<and> i < off + length bs then bs ! (i - off) else pg i)"

definition chunk :: "hdr \<Rightarrow> u32 \<Rightarrow> u32 \<Rightarrow> u32 \<Rightarrow> u32" where
  "chunk H cnt processed cur = min (cnt - processed) (PAGE_SIZE H - PAGE_OFFSET H cur)"

text \<open>
  The loops run while \<open>end > cur\<close>; the second argument bounds the rounds. Each round copies at least
  one byte, so that one round more than there are bytes is enough (\<open>vmmap_read_loop_rounds\<close>,
  \<open>vmmap_write_loop_rounds\<close>). The page is looked up through the object of the area; the result of the
  lookup is not tested.
\<close>

fun vmmap_read_loop :: "nat \<Rightarrow> nat \<Rightarrow> hdr \<Rightarrow> ext \<Rightarrow> vmapaddr \<Rightarrow> u32 \<Rightarrow> u32 \<Rightarrow> u32 \<Rightarrow> u32 \<Rightarrow> 8 word list call" where
  "vmmap_read_loop n 0 H X mp end_addr cnt cur readed s = None"
| "vmmap_read_loop n (Suc k) H X mp end_addr cnt cur readed s =
     (if end_addr > cur
      then do {
        vma \<leftarrow> vmmap_lookup mp (ADDR_TO_PN H cur) s;
        ob \<leftarrow> vma_obj (vmareas s vma);
        let pagenum = ADDR_TO_PN H cur - vma_start (vmareas s vma) + vma_off (vmareas s vma);
        ((_, pf), s) \<leftarrow> mmobj_lookuppage n H X ob pagenum False s;
        pf \<leftarrow> pf;
        addr \<leftarrow> pf_addr (pframes s pf);
        let toRead = chunk H cnt readed cur;
        let bytes = page_bytes (phys s addr) (unat (PAGE_OFFSET H cur)) (unat toRead);
        (rest, s) \<leftarrow> vmmap_read_loop n k H X mp end_addr cnt (cur + toRead) (readed + toRead) s;
        Some (bytes @ rest, s) }
      else Some ([], s))"

definition vmmap_read :: "nat \<Rightarrow> hdr \<Rightarrow> ext \<Rightarrow> vmapaddr option \<Rightarrow> u32 \<Rightarrow> u32 \<Rightarrow> (int \<times> 8 word list) call" where
  "vmmap_read n H X mp vaddr cnt s = do {
     mp \<leftarrow> mp;
     (buf, s) \<leftarrow> vmmap_read_loop n (Suc (unat cnt)) H X mp (vaddr + cnt) cnt vaddr 0 s;
     Some ((0, buf), s) }"

fun vmmap_write_loop :: "nat \<Rightarrow> nat \<Rightarrow> hdr \<Rightarrow> ext \<Rightarrow> vmapaddr \<Rightarrow> u32 \<Rightarrow> u32 \<Rightarrow> u32 \<Rightarrow> u32 \<Rightarrow> 8 word list \<Rightarrow> proc_call" where
  "vmmap_write_loop n 0 H X mp end_addr cnt cur written buf s = None"
| "vmmap_write_loop n (Suc k) H X mp end_addr cnt cur written buf s =
     (if end_addr > cur
      then do {
        vma \<leftarrow> vmmap_lookup mp (ADDR_TO_PN H cur) s;
        ob \<leftarrow> vma_obj (vmareas s vma);
        let pagenum = ADDR_TO_PN H cur - vma_start (vmareas s vma) + vma_off (vmareas s vma);
        ((_, pf), s) \<leftarrow> mmobj_lookuppage n H X ob pagenum True s;
        pf \<leftarrow> pf;
        addr \<leftarrow> pf_addr (pframes s pf);
        let toWrite = chunk H cnt written cur;
        let bytes = take (unat toWrite) (drop (unat written) buf);
        let s = s\<lparr>phys := (phys s)(addr := page_write (phys s addr) (unat (PAGE_OFFSET H cur)) bytes)\<rparr>;
        (_, s) \<leftarrow> pframe_dirty (mmobj_dirtypage X) pf s;
        vmmap_write_loop n k H X mp end_addr cnt (cur + toWrite) (written + toWrite) buf s }
      else Some s)"

definition vmmap_write :: "nat \<Rightarrow> hdr \<Rightarrow> ext \<Rightarrow> vmapaddr option \<Rightarrow> u32 \<Rightarrow> 8 word list \<Rightarrow> u32 \<Rightarrow> int call" where
  "vmmap_write n H X mp vaddr buf cnt s = do {
     mp \<leftarrow> mp;
     s \<leftarrow> vmmap_write_loop n (Suc (unat cnt)) H X mp (vaddr + cnt) cnt vaddr 0 buf s;
     Some (0, s) }"

subsection \<open>The rounds of reading and writing\<close>

lemma unat_pow2: "k < 32 \<Longrightarrow> unat ((2 :: u32) ^ k) = 2 ^ k"
proof -
  assume k: "k < 32"
  then have "(2 :: nat) ^ k < 2 ^ 32" by (rule power_strict_increasing) simp
  then have "unat (word_of_nat (2 ^ k) :: u32) = 2 ^ k" 
    by (simp only: unsigned_of_nat of_nat_id) (simp add: take_bit_nat_eq_self_iff k)
  then show ?thesis by simp
qed

lemma page_room: "page_ok H \<Longrightarrow> 0 < PAGE_SIZE H - PAGE_OFFSET H a"
proof -
  assume H: "page_ok H"
  have "unat (PAGE_OFFSET H a) < 2 ^ PAGE_SHIFT H"
    using H by (simp add: page_ok_def unsigned_take_bit_eq)
  also have "\<dots> = unat (PAGE_SIZE H)"
    using H unat_pow2 [of "PAGE_SHIFT H"] by (simp add: page_ok_def)
  finally show ?thesis by (simp add: word_less_nat_alt unat_sub word_le_nat_alt)
qed

lemma chunk_bounds:
  assumes "page_ok H" and "cnt - processed \<noteq> 0"
  shows "0 < chunk H cnt processed cur" and "chunk H cnt processed cur \<le> cnt - processed"
    and "unat (cnt - (processed + chunk H cnt processed cur)) < unat (cnt - processed)"
    and "cur + (cnt - processed) = cur + chunk H cnt processed cur + (cnt - (processed + chunk H cnt processed cur))"
proof -
  have "0 < cnt - processed" using assms(2) by (rule word_neq_0_conv [THEN iffD1])
  then show pos: "0 < chunk H cnt processed cur" using page_room [OF assms(1), of cur] by (simp only: chunk_def min_less_iff_conj)
  show le: "chunk H cnt processed cur \<le> cnt - processed" by (simp add: chunk_def)
  have "cnt - (processed + chunk H cnt processed cur) = (cnt - processed) - chunk H cnt processed cur" by simp
  then have "unat (cnt - (processed + chunk H cnt processed cur)) = unat (cnt - processed) - unat (chunk H cnt processed cur)"
    by (simp only: unat_sub [OF le])
  then show "unat (cnt - (processed + chunk H cnt processed cur)) < unat (cnt - processed)"
    using pos le by (simp add: word_less_nat_alt word_le_nat_alt)
  show "cur + (cnt - processed) = cur + chunk H cnt processed cur + (cnt - (processed + chunk H cnt processed cur))" by simp
qed

lemma vmmap_read_loop_rounds:
  assumes "page_ok H"
  shows "e = cur + (cnt - processed) \<Longrightarrow> unat (cnt - processed) < k \<Longrightarrow> unat (cnt - processed) < k' \<Longrightarrow>
    vmmap_read_loop n k H X mp e cnt cur processed s = vmmap_read_loop n k' H X mp e cnt cur processed s"
proof (induction k arbitrary: k' cur processed s)
  case (Suc k)
  then obtain j where j: "k' = Suc j" by (cases k') auto
  show ?case
  proof (cases "cur < e")
    case True
    then have ne: "cnt - processed \<noteq> 0" using Suc.prems(1) by auto
    let ?c = "chunk H cnt processed cur"
    note c = chunk_bounds [OF assms ne, of cur]
    have "vmmap_read_loop n k H X mp e cnt (cur + ?c) (processed + ?c) t = vmmap_read_loop n j H X mp e cnt (cur + ?c) (processed + ?c) t" for t
      by (rule Suc.IH [OF trans [OF Suc.prems(1) c(4)] less_le_trans [OF c(3)] less_le_trans [OF c(3)]])
        (use Suc.prems(2,3) j in linarith)+
    then show ?thesis unfolding j vmmap_read_loop.simps by (simp only: Let_def)
  qed (simp add: j)
qed simp

lemma vmmap_write_loop_rounds:
  assumes "page_ok H"
  shows "e = cur + (cnt - processed) \<Longrightarrow> unat (cnt - processed) < k \<Longrightarrow> unat (cnt - processed) < k' \<Longrightarrow>
    vmmap_write_loop n k H X mp e cnt cur processed buf s = vmmap_write_loop n k' H X mp e cnt cur processed buf s"
proof (induction k arbitrary: k' cur processed s)
  case (Suc k)
  then obtain j where j: "k' = Suc j" by (cases k') auto
  show ?case
  proof (cases "cur < e")
    case True
    then have ne: "cnt - processed \<noteq> 0" using Suc.prems(1) by auto
    let ?c = "chunk H cnt processed cur"
    note c = chunk_bounds [OF assms ne, of cur]
    have "vmmap_write_loop n k H X mp e cnt (cur + ?c) (processed + ?c) buf t = vmmap_write_loop n j H X mp e cnt (cur + ?c) (processed + ?c) buf t" for t
      by (rule Suc.IH [OF trans [OF Suc.prems(1) c(4)] less_le_trans [OF c(3)] less_le_trans [OF c(3)]])
        (use Suc.prems(2,3) j in linarith)+
    then show ?thesis unfolding j vmmap_write_loop.simps by (simp only: Let_def split_def)
  qed (simp add: j)
qed simp
subsection \<open>What the memory operations leave alone\<close>

text \<open>
  The contract of a part of the state that dropping memory objects does not touch: a relation between
  the states before and after that is kept by every write to objects and pages and by giving memory
  back. The lemmas carry it through the operations.
\<close>

locale mm_objs =
  fixes K :: "kernel \<Rightarrow> kernel \<Rightarrow> bool" and X :: ext
  assumes K_refl: "K s s"
    and K_trans: "K r s \<Longrightarrow> K s t \<Longrightarrow> K r t"
    and K_log: "K s (log_hw c s)"
    and K_mmobj: "K s (upd_mmobj ob f s)"
    and K_pframe: "K s (upd_pframe pf g s)"
    and K_free: "K s (slab_obj_free b s)"
    and K_page_free: "K s (page_free b s)"
    and K_hash: "K s (s\<lparr>pframe_hash := ph\<rparr>)"
    and K_alloc: "K s (s\<lparr>nallocated := na, alloc_list := al\<rparr>)"
    and K_pinned: "K s (s\<lparr>pinned_list := pl, npinned := np\<rparr>)"
    and K_vno_put: "vno_put X ob s = Some s' \<Longrightarrow> K s s'"
begin

lemma remove_from_pts_keeps: "remove_from_pts_loop H pn l s = Some s' \<Longrightarrow> K s s'"
proof (induction l arbitrary: s)
  case (Cons a l)
  show ?case
    using Cons.prems
    by (auto simp: Let_def bind_Some_iff split: if_splits option.splits dest!: Cons.IH intro: K_trans [OF K_log])
qed (simp add: K_refl)

lemma pframe_free_keeps:
  assumes put: "\<And>ob s s'. put ob s = Some s' \<Longrightarrow> K s s'" and r: "pframe_free H X put pf s = Some s'"
  shows "K s s'"
proof -
  from r obtain s1 ob a where
    s1: "pframe_remove_from_pts H X pf (log_hw (Tlb_flush (pf_addr (pframes s pf))) s) = Some s1" and
    r1: "put ob (upd_mmobj ob (\<lambda>m. m\<lparr>mmo_nrespages := mmo_nrespages m - 1, mmo_respages := remove1 pf (mmo_respages m)\<rparr>)
      (slab_obj_free pf (page_free a
        (let i = hash_page H (pf_obj (pframes s pf)) (pf_pagenum (pframes s1 pf));
             s2 = upd_pframe pf (\<lambda>f. f\<lparr>pf_obj := None\<rparr>) (s1\<lparr>pframe_hash := (pframe_hash s1)(i := remove1 pf (pframe_hash s1 i))\<rparr>)
         in s2\<lparr>nallocated := nallocated s2 - 1, alloc_list := remove1 pf (alloc_list s2)\<rparr>)))) = Some s'"
    unfolding pframe_free_def Let_def bind_KASSERT by (auto simp: bind_Some_iff split: if_splits)
  have "K s s1"
    using s1 by (auto simp: pframe_remove_from_pts_def bind_Some_iff intro: K_trans [OF K_log remove_from_pts_keeps])
  then show ?thesis
    by (rule K_trans) (rule K_trans [OF K_hash K_trans [OF K_pframe K_trans [OF K_alloc K_trans [OF K_page_free
      K_trans [OF K_free K_trans [OF K_mmobj put [OF r1 [unfolded Let_def]]]]]]]])
qed

lemma free_pages_keeps:
  assumes put: "\<And>ob s s'. put ob s = Some s' \<Longrightarrow> K s s'"
  shows "free_pages H X put pfs s = Some s' \<Longrightarrow> K s s'"
proof (induction pfs arbitrary: s)
  case (Cons pf pfs)
  have u: "pframe_unpin X pf r = Some r' \<Longrightarrow> K r r'" for r r'
  proof -
    assume "pframe_unpin X pf r = Some r'"
    then obtain r1 where r1: "r1 = upd_pframe pf (\<lambda>f. f\<lparr>pf_pincount := pf_pincount f - 1\<rparr>) r" and
       r': "r' = r1 \<or> r' = (r1\<lparr>pinned_list := remove1 pf (pinned_list r1), npinned := npinned r1 - 1\<rparr>)
         \<lparr>nallocated := nallocated r1 + 1, alloc_list := alloc_list r1 @ [pf]\<rparr>"
      by (auto simp: pframe_unpin_def Let_def split: if_splits)
    have "K r r1" using r1 K_pframe by simp
    then show ?thesis using r' K_trans [OF K_pinned K_alloc] K_trans by blast
  qed
  from Cons.prems obtain s1 s2 where "K s s1" and s2: "pframe_free H X put pf s1 = Some s2" and r: "free_pages H X put pfs s2 = Some s'"
    using K_refl [of s] by (auto simp: bind_Some_iff split: if_splits dest: u)
  moreover have "K s1 s2" by (rule pframe_free_keeps [OF _ s2]) (rule put)
  ultimately show ?case using Cons.IH [OF r] K_trans by blast
qed (simp add: K_refl)

lemma mmobj_put_keeps: "mmobj_put n H X ob s = Some s' \<Longrightarrow> K s s'"
proof (induction n arbitrary: ob s s')
  case (Suc n)
  have fp: "K r r'" if "free_pages H X (mmobj_put n H X) pfs r = Some r'" for pfs r r'
    by (rule free_pages_keeps [OF _ that]) (rule Suc.IH)
  show ?case
  proof (cases "mmo_ops (mmobjs s ob)")
    case Anon_mmobj_ops
    with Suc.prems show ?thesis
      by (auto simp: anon_put_def bind_Some_iff split: if_splits
          intro: K_mmobj K_trans [OF fp K_trans [OF K_free K_mmobj]])
  next
    case Shadow_mmobj_ops
    with Suc.prems show ?thesis
      by (auto simp: shadow_put_def bind_Some_iff Let_def split: if_splits
          intro: K_mmobj K_trans [OF fp K_trans [OF K_mmobj K_trans [OF Suc.IH K_trans [OF Suc.IH K_free]]]])
  next
    case Vnode_mmobj_ops
    with Suc.prems show ?thesis by (auto intro: K_vno_put)
  qed
qed simp

end

text \<open>Destroying an address space also writes its list and the lists of areas of the objects.\<close>

locale mm_frame = mm_objs +
  assumes K_olink: "K s (olink_remove a s)"
    and K_vmmap: "K s (upd_vmmap m h s)"
begin

lemma vmmap_destroy_loop_keeps: "vmmap_destroy_loop n H X mp l s = Some s' \<Longrightarrow> K s s'"
proof (induction l arbitrary: s)
  case (Cons tmp l)
  from Cons.prems show ?case
    by (auto simp: bind_Some_iff Let_def split: option.splits dest!: Cons.IH mmobj_put_keeps
        intro: K_trans [OF K_vmmap K_trans [OF K_olink]] K_trans [OF K_vmmap K_trans [OF _ K_trans [OF K_olink]]])
qed (simp add: K_refl)

lemma vmmap_destroy_keeps: "vmmap_destroy n H X mp s = Some s' \<Longrightarrow> K s s'"
  by (auto simp: vmmap_destroy_def bind_Some_iff dest!: vmmap_destroy_loop_keeps intro: K_trans [OF _ K_free])

end

end
