(* ===== verification/Proc.thy ===== *)
theory Proc
  imports Vmmap_Ops "HOL-Library.Signed_Division"
begin

text \<open>
  Processes and threads (\<open>kernel/proc/proc.c\<close>, \<open>kernel/proc/kthread.c\<close>): creation, exit, cancellation
  and waiting. The stack of a thread is its address in \<open>kt_kstack\<close>; the machine context that
  \<open>context_setup\<close> (not in the repository) prepares is not part of the model.

  A call may end the calling thread: then it does not return, and another thread has the processor.
\<close>

datatype 'a outcome = Returned 'a kernel | Exited kernel

subsection \<open>Process identifiers\<close>

text \<open>
  \<open>_proc_getid\<close> tries the identifiers in cyclic order from \<open>next_pid\<close> until none of the processes of
  \<open>_proc_list\<close> has the one tried, and returns -1 when it comes back to \<open>next_pid\<close>. The loop need not
  end by itself: \<^const>\<open>None\<close> is a search without end.
\<close>

definition pids :: "kernel \<Rightarrow> int list" where
  "pids s = map (\<lambda>p. p_pid (procs s p)) (proc_list s)"

partial_function (option) getid_loop :: "int \<Rightarrow> int list \<Rightarrow> int \<Rightarrow> int \<Rightarrow> int option option" where
  "getid_loop m used next pid =
     (if pid \<in> set used
      then (let pid' = (pid + 1) smod m in if pid' = next then Some None else getid_loop m used next pid')
      else Some (Some pid))"

definition proc_getid :: "hdr \<Rightarrow> int call" where
  "proc_getid H s = do {
     r \<leftarrow> getid_loop (PROC_MAX_COUNT H) (pids s) (next_pid s) (next_pid s);
     Some (case r of
         Some pid \<Rightarrow> (pid, s\<lparr>next_pid := (pid + 1) smod PROC_MAX_COUNT H\<rparr>)
       | None \<Rightarrow> (- 1, s)) }"

subsection \<open>Creating processes and threads\<close>

definition proc_init :: "bool \<Rightarrow> proc_call" where
  "proc_init allocator s = do {
     KASSERT allocator;
     Some (s\<lparr>proc_list := []\<rparr>) }"

definition proc_lookup :: "int \<Rightarrow> kernel \<Rightarrow> paddr option" where
  "proc_lookup pid s = List.find (\<lambda>p. p_pid (procs s p) = pid) (proc_list s)"

text \<open>A structure that \<open>memset\<close> has filled with zeros.\<close>

definition zero_proc :: "hdr \<Rightarrow> proc" where
  "zero_proc H = \<lparr>p_pid = 0, p_comm = [], p_threads = [], p_children = [], p_pproc = None, p_status = 0,
     p_state = PROC_RUNNING, p_pagedir = None, p_files = replicate (NFILES H) None, p_cwd = None, p_brk = 0,
     p_start_brk = 0, p_vmmap = None\<rparr>"

definition zero_thread :: kthread where
  "zero_thread = \<lparr>kt_state = KT_NO_STATE, kt_wchan = None, kt_cancelled = False, kt_retval = 0, kt_errno = 0,
     kt_proc = None, kt_kstack = None\<rparr>"

text \<open>The second half of \<open>proc_create\<close>: linking the new process in, its directory, files and address space.\<close>

definition proc_attach :: "hdr \<Rightarrow> ext \<Rightarrow> paddr \<Rightarrow> int \<Rightarrow> proc_call" where
  "proc_attach H X res_proc pid s = do {
     let s = (case curproc s of
         Some cur \<Rightarrow> upd_proc cur (\<lambda>p. p\<lparr>p_children := p_children p @ [res_proc]\<rparr>) s
       | None \<Rightarrow> s);
     let s = s\<lparr>proc_list := proc_list s @ [res_proc]\<rparr>;
     let s = upd_proc res_proc (\<lambda>p. p\<lparr>p_cwd := vfs_root_vn s\<rparr>) s;
     s \<leftarrow> (case vfs_root_vn s of Some v \<Rightarrow> vref X v s | None \<Rightarrow> Some s);
     let s = upd_proc res_proc (\<lambda>p. p\<lparr>p_files := replicate (NFILES H) None\<rparr>) s;
     (mp, s) \<leftarrow> vmmap_create s;
     let s = upd_proc res_proc (\<lambda>p. p\<lparr>p_vmmap := Some mp\<rparr>) s;
     let s = upd_vmmap mp (\<lambda>m. m\<lparr>vmm_proc := Some res_proc\<rparr>) s;
     Some (if pid = PID_INIT H then s\<lparr>proc_initproc := Some res_proc\<rparr> else s) }"

definition proc_create :: "hdr \<Rightarrow> ext \<Rightarrow> string \<Rightarrow> paddr call" where
  "proc_create H X name s = do {
     (res_proc, s) \<leftarrow> slab_obj_alloc s;
     res_proc \<leftarrow> res_proc;
     let s = upd_proc res_proc (\<lambda>_. zero_proc H) s;
     (pid, s) \<leftarrow> proc_getid H s;
     let s = upd_proc res_proc (\<lambda>p. p\<lparr>p_pid := pid\<rparr>) s;
     KASSERT (PID_IDLE H \<noteq> pid \<or> proc_list s = []);
     (if PID_INIT H \<noteq> pid then Some ()
      else do { cur \<leftarrow> curproc s; KASSERT (PID_IDLE H = p_pid (procs s cur)) });
     let s = upd_proc res_proc (\<lambda>p. p\<lparr>p_comm := take (PROC_NAME_LEN H - 1) name, p_threads := [],
               p_children := [], p_pproc := curproc s, p_status := 0, p_state := PROC_RUNNING\<rparr>) s;
     let s = sched_queue_init (P_wait res_proc) s;
     (dir, s) \<leftarrow> pt_create_pagedir X s;
     let s = upd_proc res_proc (\<lambda>p. p\<lparr>p_pagedir := dir\<rparr>) s;
     s \<leftarrow> proc_attach H X res_proc pid s;
     Some (res_proc, s) }"

text \<open>\<open>page_alloc_n\<close> gives the pages of a stack at once: one answer of the page allocator.\<close>

definition alloc_stack :: "nat option call" where
  "alloc_stack s = page_alloc s"

definition free_stack :: "nat \<Rightarrow> kernel \<Rightarrow> kernel" where
  "free_stack stack s = page_free stack s"

definition kthread_create :: "hdr \<Rightarrow> paddr option \<Rightarrow> tid call" where
  "kthread_create H p s = do {
     p \<leftarrow> p;
     (res_thread, s) \<leftarrow> slab_obj_alloc s;
     res_thread \<leftarrow> res_thread;
     (stack, s) \<leftarrow> alloc_stack s;
     let th = zero_thread\<lparr>kt_kstack := stack, kt_proc := Some p, kt_cancelled := False, kt_retval := 0,
                kt_wchan := None, kt_state := (if p_pid (procs s p) \<noteq> PID_IDLE H then KT_NO_STATE else KT_RUN),
                kt_errno := 0\<rparr>;
     let s = s\<lparr>threads := (threads s)(res_thread \<mapsto> th)\<rparr>;
     Some (res_thread, upd_proc p (\<lambda>q. q\<lparr>p_threads := p_threads q @ [res_thread]\<rparr>) s) }"

text \<open>
  \<open>kthread_destroy\<close> unlinks the thread from the process that lists it, when it is linked, and gives
  the structure back.
\<close>

definition kthread_destroy :: "tid \<Rightarrow> proc_call" where
  "kthread_destroy t s = do {
     th \<leftarrow> threads s t;
     stack \<leftarrow> kt_kstack th;
     let s = free_stack stack s;
     let s = s\<lparr>procs := (\<lambda>p. (procs s p)\<lparr>p_threads := remove1 t (p_threads (procs s p))\<rparr>)\<rparr>;
     Some (slab_obj_free t (s\<lparr>threads := (threads s)(t := None)\<rparr>)) }"

definition copy_thread_values :: "kthread \<Rightarrow> kthread \<Rightarrow> kthread" where
  "copy_thread_values cloned_thread thr = cloned_thread\<lparr>kt_wchan := kt_wchan thr, kt_state := kt_state thr,
     kt_errno := kt_errno thr, kt_retval := kt_retval thr, kt_cancelled := kt_cancelled thr\<rparr>"

definition kthread_clone :: "tid \<Rightarrow> tid call" where
  "kthread_clone thr s = do {
     th \<leftarrow> threads s thr;
     KASSERT (kt_state th = KT_RUN);
     (newthr, s) \<leftarrow> slab_obj_alloc s;
     newthr \<leftarrow> newthr;
     (stack, s) \<leftarrow> alloc_stack s;
     _ \<leftarrow> kt_proc th;
     let nt = (copy_thread_values (zero_thread\<lparr>kt_kstack := stack\<rparr>) th)\<lparr>kt_proc := None\<rparr>;
     KASSERT (kt_state nt = KT_RUN);
     Some (newthr, s\<lparr>threads := (threads s)(newthr \<mapsto> nt)\<rparr>) }"

subsection \<open>Exit and cancellation\<close>

text \<open>
  The loop of \<open>proc_cleanup\<close> over the children: each gets the init process as its parent and is put at
  the tail of the init process's list. The links of the children are in that list afterwards; the
  list head of the exiting process is not written. When the exiting process is the init process
  itself, the list changes under the loop.
\<close>

fun reparent_children :: "paddr \<Rightarrow> paddr list \<Rightarrow> kernel \<Rightarrow> kernel" where
  "reparent_children ini [] s = s"
| "reparent_children ini (tmp # tmps) s =
     (let s = upd_proc tmp (\<lambda>p. p\<lparr>p_pproc := Some ini\<rparr>) s;
          s = upd_proc ini (\<lambda>p. p\<lparr>p_children := p_children p @ [tmp]\<rparr>) s
      in reparent_children ini tmps s)"

fun close_files :: "ext \<Rightarrow> paddr \<Rightarrow> nat list \<Rightarrow> proc_call" where
  "close_files X p [] s = Some s"
| "close_files X p (a # as) s = do {
     KASSERT (a < length (p_files (procs s p)));
     s \<leftarrow> (case p_files (procs s p) ! a of Some f \<Rightarrow> fput X f s | None \<Rightarrow> Some s);
     close_files X p as (upd_proc p (\<lambda>q. q\<lparr>p_files := (p_files q)[a := None]\<rparr>) s) }"

text \<open>The parts of \<open>proc_cleanup\<close> that give back files and memory, and that wake the parent.\<close>

definition release_resources :: "nat \<Rightarrow> hdr \<Rightarrow> ext \<Rightarrow> paddr \<Rightarrow> proc_call" where
  "release_resources n H X p s = do {
     s \<leftarrow> (case p_cwd (procs s p) of Some v \<Rightarrow> vput X v s | None \<Rightarrow> Some s);
     s \<leftarrow> close_files X p [0..<NFILES H] s;
     vmmap_destroy n H X (p_vmmap (procs s p)) s }"

definition wake_parent :: "paddr \<Rightarrow> proc_call" where
  "wake_parent p s = do {
     parent \<leftarrow> p_pproc (procs s p);
     if \<not> sched_queue_empty (P_wait parent) s
     then do {
       s \<leftarrow> sched_broadcast_on (P_wait parent) s;
       thr \<leftarrow> curthr s;
       upd_thr thr (\<lambda>th. th\<lparr>kt_state := KT_EXITED\<rparr>) s }
     else Some s }"

definition proc_cleanup :: "nat \<Rightarrow> hdr \<Rightarrow> ext \<Rightarrow> int \<Rightarrow> proc_call" where
  "proc_cleanup n H X status s = do {
     ini \<leftarrow> proc_initproc s;
     p \<leftarrow> curproc s;
     KASSERT (p_pproc (procs s p) \<noteq> None);
     KASSERT (1 \<le> p_pid (procs s p));
     let s = upd_proc p (\<lambda>q. q\<lparr>p_state := PROC_DEAD, p_status := status\<rparr>) s;
     KASSERT (p_children (procs s p) = [] \<or> ini \<noteq> p);
     let s = reparent_children ini (p_children (procs s p)) s;
     s \<leftarrow> release_resources n H X p s;
     s \<leftarrow> wake_parent p s;
     let s = upd_proc p (\<lambda>q. q\<lparr>p_state := PROC_DEAD\<rparr>) s;
     thr \<leftarrow> curthr s;
     th \<leftarrow> threads s thr;
     KASSERT (p_pproc (procs s p) \<noteq> None);
     KASSERT (kt_state th = KT_EXITED);
     Some s }"

text \<open>
  \<open>proc_thread_exited\<close> and \<open>kthread_exit\<close> end the thread: the state is the one in which the next thread
  has been given the processor. The queue link of a thread is linked while \<open>kt_wchan\<close> names a queue, so
  the assertions of \<open>kthread_exit\<close> on both are one.
\<close>

definition proc_thread_exited :: "nat \<Rightarrow> hdr \<Rightarrow> ext \<Rightarrow> int \<Rightarrow> proc_call" where
  "proc_thread_exited n H X retval s = do {
     s \<leftarrow> proc_cleanup n H X retval s;
     sched_switch (w_irqs X s) s }"

definition kthread_exit :: "nat \<Rightarrow> hdr \<Rightarrow> ext \<Rightarrow> int \<Rightarrow> proc_call" where
  "kthread_exit n H X retval s = do {
     thr \<leftarrow> curthr s;
     s \<leftarrow> upd_thr thr (\<lambda>th. th\<lparr>kt_retval := retval, kt_state := KT_EXITED\<rparr>) s;
     th \<leftarrow> threads s thr;
     KASSERT (kt_wchan th = None);
     KASSERT (kt_proc th = curproc s);
     proc_thread_exited n H X retval s }"

definition kthread_cancel :: "nat \<Rightarrow> hdr \<Rightarrow> ext \<Rightarrow> tid \<Rightarrow> int \<Rightarrow> kernel \<Rightarrow> unit outcome option" where
  "kthread_cancel n H X kthr retval s =
     (if Some kthr = curthr s
      then do { s \<leftarrow> kthread_exit n H X retval s; Some (Exited s) }
      else do {
        s \<leftarrow> upd_thr kthr (\<lambda>th. th\<lparr>kt_cancelled := True, kt_retval := retval\<rparr>) s;
        s \<leftarrow> sched_cancel kthr s;
        Some (Returned () s) })"

fun cancel_threads :: "nat \<Rightarrow> hdr \<Rightarrow> ext \<Rightarrow> int \<Rightarrow> tid list \<Rightarrow> kernel \<Rightarrow> unit outcome option" where
  "cancel_threads n H X status [] s = Some (Returned () s)"
| "cancel_threads n H X status (tmp # tmps) s = do {
     r \<leftarrow> kthread_cancel n H X tmp status s;
     (case r of Returned _ s \<Rightarrow> cancel_threads n H X status tmps s | Exited s \<Rightarrow> Some (Exited s)) }"

definition do_exit :: "nat \<Rightarrow> hdr \<Rightarrow> ext \<Rightarrow> int \<Rightarrow> kernel \<Rightarrow> unit outcome option" where
  "do_exit n H X status s = do {
     p \<leftarrow> curproc s;
     cancel_threads n H X status (p_threads (procs s p)) s }"

definition proc_kill :: "nat \<Rightarrow> hdr \<Rightarrow> ext \<Rightarrow> paddr \<Rightarrow> int \<Rightarrow> kernel \<Rightarrow> unit outcome option" where
  "proc_kill n H X p status s =
     (if Some p = curproc s then do_exit n H X status s
      else cancel_threads n H X status (p_threads (procs s p)) s)"

fun kill_procs :: "nat \<Rightarrow> hdr \<Rightarrow> ext \<Rightarrow> paddr list \<Rightarrow> kernel \<Rightarrow> unit outcome option" where
  "kill_procs n H X [] s = Some (Returned () s)"
| "kill_procs n H X (tmp # tmps) s =
     (let pid = p_pid (procs s tmp) in
      if pid \<noteq> PID_IDLE H \<and> Some tmp \<noteq> curproc s \<and> pid \<noteq> PID_INIT H \<and> pid \<noteq> 2
      then do {
        r \<leftarrow> proc_kill n H X tmp (p_status (procs s tmp)) s;
        (case r of Returned _ s \<Rightarrow> kill_procs n H X tmps s | Exited s \<Rightarrow> Some (Exited s)) }
      else kill_procs n H X tmps s)"

definition proc_kill_all :: "nat \<Rightarrow> hdr \<Rightarrow> ext \<Rightarrow> kernel \<Rightarrow> unit outcome option" where
  "proc_kill_all n H X s = do {
     r \<leftarrow> kill_procs n H X (proc_list s) s;
     (case r of
        Exited s \<Rightarrow> Some (Exited s)
      | Returned _ s \<Rightarrow> do {
          cur \<leftarrow> curproc s;
          let pid = p_pid (procs s cur);
          if pid \<noteq> PID_INIT H \<and> pid \<noteq> PID_IDLE H \<and> pid \<noteq> 2
          then proc_kill n H X cur (p_status (procs s cur)) s
          else Some (Returned () s) }) }"

subsection \<open>Waiting for children\<close>

text \<open>What \<open>do_waitpid\<close> does with an exited child: the pair of its identifier and its status is the result.\<close>

definition dispose_child :: "int \<Rightarrow> paddr \<Rightarrow> (int \<times> int option) call" where
  "dispose_child pid child s = do {
     cur \<leftarrow> curproc s;
     let status = p_status (procs s child);
     let res_pid = p_pid (procs s child);
     KASSERT (p_threads (procs s child) \<noteq> []);
     s \<leftarrow> kthread_destroy (last (p_threads (procs s child))) s;
     let s = upd_proc child (\<lambda>p. p\<lparr>p_pproc := None\<rparr>) s;
     let s = s\<lparr>proc_list := remove1 child (proc_list s)\<rparr>;
     let s = upd_proc cur (\<lambda>p. p\<lparr>p_children := remove1 child (p_children p)\<rparr>) s;
     KASSERT (pid = - 1 \<or> p_pid (procs s child) = pid);
     dir \<leftarrow> p_pagedir (procs s child);
     let s = log_hw (Pt_destroy_pagedir dir) s;
     Some ((res_pid, Some status), slab_obj_free child s) }"

text \<open>The number bounds how often the caller sleeps.\<close>

fun wait_dead :: "nat \<Rightarrow> ext \<Rightarrow> paddr \<Rightarrow> paddr \<Rightarrow> proc_call" where
  "wait_dead k X cur child s =
     (if p_state (procs s child) \<noteq> PROC_DEAD
      then (case k of 0 \<Rightarrow> None | Suc j \<Rightarrow> do { s \<leftarrow> sleep_on X (P_wait cur) s; wait_dead j X cur child s })
      else Some s)"

fun wait_any :: "nat \<Rightarrow> ext \<Rightarrow> paddr \<Rightarrow> (int \<times> int option) call" where
  "wait_any k X cur s =
     (case List.find (\<lambda>c. p_state (procs s c) = PROC_DEAD) (p_children (procs s cur)) of
        Some child \<Rightarrow> dispose_child (- 1) child s
      | None \<Rightarrow> (case k of 0 \<Rightarrow> None | Suc j \<Rightarrow> do { s \<leftarrow> sleep_on X (P_wait cur) s; wait_any j X cur s }))"

definition do_waitpid :: "nat \<Rightarrow> hdr \<Rightarrow> ext \<Rightarrow> int \<Rightarrow> (int \<times> int option) call" where
  "do_waitpid k H X pid s = do {
     cur \<leftarrow> curproc s;
     if p_children (procs s cur) = [] then Some ((- Err H ECHILD, None), s)
     else if pid > 0
     then (case List.find (\<lambda>c. p_pid (procs s c) = pid) (p_children (procs s cur)) of
             Some child \<Rightarrow> do {
               s \<leftarrow> wait_dead k X cur child s;
               dispose_child pid child s }
           | None \<Rightarrow> Some ((- Err H ECHILD, None), s))
     else if pid = - 1 then wait_any k X cur s
     else Some ((0, None), s) }"

subsection \<open>The search for an identifier\<close>

lemma smod_nonneg: "0 \<le> a \<Longrightarrow> 0 < m \<Longrightarrow> a smod m = a mod (m :: int)"
  by (auto simp: smod_int_alt_def sgn_if)

text \<open>The identifiers in the order in which they are tried.\<close>

definition pid_order :: "int \<Rightarrow> int \<Rightarrow> int list" where
  "pid_order m next = map (\<lambda>i. (next + i) mod m) [0..m - 1]"

lemma getid_loop_find:
  assumes m: "0 \<le> next" "next < m" and k: "0 \<le> k" "k < m"
  shows "getid_loop m used next ((next + k) mod m) =
    Some (List.find (\<lambda>i. i \<notin> set used) (map (\<lambda>i. (next + i) mod m) [k..m - 1]))"
  using k
proof (induction "nat (m - k)" arbitrary: k rule: less_induct)
  case less
  let ?pid = "(next + k) mod m"
  have nx: "(?pid + 1) smod m = (next + (k + 1)) mod m"
    using m less.prems by (subst smod_nonneg) (simp_all add: mod_add_left_eq add.assoc)
  have wrap: "(next + (k + 1)) mod m = next \<longleftrightarrow> k + 1 = m"
  proof (cases "next + (k + 1) < m")
    case True
    then show ?thesis using m less.prems by (simp add: mod_pos_pos_trivial)
  next
    case False
    then have "(next + (k + 1)) mod m = (next + (k + 1) - m) mod m" by simp
    also have "\<dots> = next + (k + 1) - m" using False m less.prems by (intro mod_pos_pos_trivial) auto
    finally show ?thesis by auto
  qed
  have l: "[k..m - 1] = k # [k + 1..m - 1]" using less.prems by (simp add: upto_rec1)
  show ?case
  proof (cases "?pid \<in> set used \<and> k + 1 < m")
    case True
    then show ?thesis
      using less.hyps [of "k + 1"] less.prems wrap
      by (subst getid_loop.simps) (simp add: nx l)
  next
    case False
    then show ?thesis using less.prems wrap
      by (subst getid_loop.simps) (auto simp add: nx l)
  qed
qed

lemma proc_getid_eq:
  assumes "0 \<le> next_pid s" and "next_pid s < PROC_MAX_COUNT H"
  shows "proc_getid H s = Some (case List.find (\<lambda>i. i \<notin> set (pids s)) (pid_order (PROC_MAX_COUNT H) (next_pid s)) of
     Some pid \<Rightarrow> (pid, s\<lparr>next_pid := (pid + 1) mod PROC_MAX_COUNT H\<rparr>)
   | None \<Rightarrow> (- 1, s))"
proof -
  have g: "getid_loop (PROC_MAX_COUNT H) (pids s) (next_pid s) (next_pid s) =
      Some (List.find (\<lambda>i. i \<notin> set (pids s)) (pid_order (PROC_MAX_COUNT H) (next_pid s)))"
    using getid_loop_find [OF assms order_refl, of "pids s"] assms
    by (simp add: pid_order_def mod_pos_pos_trivial)
  have "0 \<le> pid" if "List.find (\<lambda>i. i \<notin> set (pids s)) (pid_order (PROC_MAX_COUNT H) (next_pid s)) = Some pid" for pid
    using that assms by (auto simp: find_Some_iff pid_order_def)
  then show ?thesis
    using assms by (auto simp: proc_getid_def g smod_nonneg split: option.split)
qed

lemma pid_order_set:
  assumes "0 \<le> next" and "next < m"
  shows "set (pid_order m next) = {0..<m}"
proof
  show "set (pid_order m next) \<subseteq> {0..<m}" using assms by (auto simp: pid_order_def)
  show "{0..<m} \<subseteq> set (pid_order m next)"
  proof
    fix x assume x: "x \<in> {0..<m}"
    then have "(next + (x - next) mod m) mod m = x"
      by (simp add: mod_add_right_eq mod_pos_pos_trivial)
    moreover have "(x - next) mod m \<in> {0..m - 1}" using x by auto
    ultimately show "x \<in> set (pid_order m next)" unfolding pid_order_def by force
  qed
qed

lemma proc_getid_free:
  assumes r: "proc_getid H s = Some (pid, s')" and n: "0 \<le> next_pid s" "next_pid s < PROC_MAX_COUNT H"
  shows "(pid = - 1 \<and> {0..<PROC_MAX_COUNT H} \<subseteq> set (pids s) \<and> s' = s) \<or>
    (0 \<le> pid \<and> pid < PROC_MAX_COUNT H \<and> pid \<notin> set (pids s) \<and> s' = s\<lparr>next_pid := (pid + 1) mod PROC_MAX_COUNT H\<rparr>)"
proof (cases "List.find (\<lambda>i. i \<notin> set (pids s)) (pid_order (PROC_MAX_COUNT H) (next_pid s))")
  case None
  then have "\<forall>x\<in>set (pid_order (PROC_MAX_COUNT H) (next_pid s)). x \<in> set (pids s)" by (simp add: find_None_iff)
  then show ?thesis using r None unfolding proc_getid_eq [OF n] pid_order_set [OF n] by auto
next
  case (Some x)
  then have "x \<in> set (pid_order (PROC_MAX_COUNT H) (next_pid s))" "x \<notin> set (pids s)"
    by (auto simp: find_Some_iff)
  then show ?thesis using r Some unfolding proc_getid_eq [OF n] pid_order_set [OF n] by auto
qed

text \<open>
  C20: the search for a process identifier ends and finds a free one. For every list of processes and
  every \<open>next_pid\<close> in range, \<open>_proc_getid\<close> returns the first identifier, counting up from \<open>next_pid\<close> and
  around at \<open>PROC_MAX_COUNT\<close>, that no process has, and advances \<open>next_pid\<close> past it; when all are in use
  it returns -1.
\<close>

theorem proc_getid_finds_free:
  assumes "0 \<le> next_pid s" and "next_pid s < PROC_MAX_COUNT H"
  shows "proc_getid H s = Some (case List.find (\<lambda>i. i \<notin> set (pids s)) (pid_order (PROC_MAX_COUNT H) (next_pid s)) of
       Some pid \<Rightarrow> (pid, s\<lparr>next_pid := (pid + 1) mod PROC_MAX_COUNT H\<rparr>)
     | None \<Rightarrow> (- 1, s)) \<and>
     set (pid_order (PROC_MAX_COUNT H) (next_pid s)) = {0..<PROC_MAX_COUNT H}"
  using proc_getid_eq [OF assms] pid_order_set [OF assms] by blast

text \<open>Four identifiers of which 0, 1 and 3 are in use, and the search starts at 3.\<close>

definition four_pids :: hdr where
  "four_pids = std_hdr\<lparr>PROC_MAX_COUNT := 4\<rparr>"

definition three_procs :: kernel where
  "three_procs = boot\<lparr>proc_list := [10, 11, 12], next_pid := 3, procs := (\<lambda>_. blank_proc)
     (10 := blank_proc\<lparr>p_pid := 0\<rparr>, 11 := blank_proc\<lparr>p_pid := 1\<rparr>, 12 := blank_proc\<lparr>p_pid := 3\<rparr>)\<rparr>"

theorem proc_getid_finds_free_witness:
  "proc_getid four_pids three_procs = Some (2, three_procs\<lparr>next_pid := 3\<rparr>)"
proof -
  have o: "pid_order 4 3 = [3, 0, 1, 2]" by (simp add: pid_order_def upto_rec1)
  show ?thesis
    using proc_getid_finds_free [of three_procs four_pids]
    by (simp add: three_procs_def four_pids_def std_hdr_def boot_def pids_def blank_proc_def o)
qed

subsection \<open>What the memory operations keep of the processes\<close>

definition pkeep :: "kernel \<Rightarrow> kernel \<Rightarrow> bool" where
  "pkeep s s' \<longleftrightarrow> procs s' = procs s \<and> proc_list s' = proc_list s \<and> proc_initproc s' = proc_initproc s \<and>
     curproc s' = curproc s \<and> next_pid s' = next_pid s"

lemma pkeep_refl [simp]: "pkeep s s"
  by (simp add: pkeep_def)

lemma pkeep_trans: "pkeep r s \<Longrightarrow> pkeep s t \<Longrightarrow> pkeep r t"
  by (simp add: pkeep_def)

text \<open>
  The functions outside the repository that a process calls when it is created and when it exits
  (page directories, reference counts of vnodes and files) do not touch the processes.
\<close>

definition proc_api_ok :: "ext \<Rightarrow> bool" where
  "proc_api_ok X \<longleftrightarrow>
     (\<forall>s r s'. pt_create_pagedir X s = Some (r, s') \<longrightarrow> pkeep s s') \<and>
     (\<forall>v s s'. vref X v s = Some s' \<longrightarrow> pkeep s s') \<and> (\<forall>v s s'. vput X v s = Some s' \<longrightarrow> pkeep s s') \<and>
     (\<forall>f s s'. fput X f s = Some s' \<longrightarrow> pkeep s s') \<and> (\<forall>ob s s'. vno_put X ob s = Some s' \<longrightarrow> pkeep s s')"

lemma proc_api:
  assumes "proc_api_ok X"
  shows "pt_create_pagedir X s = Some (r, s') \<Longrightarrow> pkeep s s'" "vref X v s = Some s' \<Longrightarrow> pkeep s s'"
    "vput X v s = Some s' \<Longrightarrow> pkeep s s'" "fput X f s = Some s' \<Longrightarrow> pkeep s s'"
    "vno_put X ob s = Some s' \<Longrightarrow> pkeep s s'"
  using assms by (auto simp: proc_api_ok_def)

lemma pkeep_mm_frame: "proc_api_ok X \<Longrightarrow> mm_frame pkeep X"
  by unfold_locales
    (auto simp: pkeep_def log_hw_def upd_defs slab_obj_free_def page_free_def olink_remove_def dest: proc_api)

lemma std_ext_proc_api_ok: "proc_api_ok std_ext"
  by (auto simp: proc_api_ok_def std_ext_def pkeep_def upd_defs split: if_splits option.splits)

text \<open>The environment of the processes gives the contract of the memory operations, for every such environment.\<close>

locale proc_env =
  fixes X :: ext
  assumes api: "proc_api_ok X"

sublocale proc_env \<subseteq> pk: mm_frame pkeep X
  by (rule pkeep_mm_frame [OF api])

interpretation std_env: proc_env std_ext
  by unfold_locales (rule std_ext_proc_api_ok)

lemmas pkeep_destroy = mm_frame.vmmap_destroy_keeps [OF pkeep_mm_frame]

end
