(* ===== verification/Proc_Tree.thy ===== *)
theory Proc_Tree
  imports Proc
begin

text \<open>
  The process tree: \<open>proc_create\<close>, \<open>proc_cleanup\<close> and \<open>do_waitpid\<close> keep the lists of processes and children,
  the parent pointers and the identifiers consistent, in every order of calls.
\<close>

subsection \<open>The process tree\<close>

text \<open>
  \<open>tree_ok\<close>: the list of processes has no repetition; the children of a running process are processes
  that name it as their parent, each once; a process that names a parent is among the children of that
  parent, which runs; the init process runs; no two processes have the same identifier, -1 (no
  identifier left) excepted.
\<close>

definition running :: "kernel \<Rightarrow> paddr \<Rightarrow> bool" where
  "running s p \<longleftrightarrow> p \<in> set (proc_list s) \<and> p_state (procs s p) = PROC_RUNNING"

definition kids_ok :: "kernel \<Rightarrow> bool" where
  "kids_ok s \<longleftrightarrow> (\<forall>p. running s p \<longrightarrow> distinct (p_children (procs s p)) \<and>
     (\<forall>c\<in>set (p_children (procs s p)). c \<in> set (proc_list s) \<and> p_pproc (procs s c) = Some p))"

definition parents_ok :: "kernel \<Rightarrow> bool" where
  "parents_ok s \<longleftrightarrow> (\<forall>c\<in>set (proc_list s). \<forall>p. p_pproc (procs s c) = Some p \<longrightarrow>
     running s p \<and> c \<in> set (p_children (procs s p)))"

definition pids_ok :: "hdr \<Rightarrow> kernel \<Rightarrow> bool" where
  "pids_ok H s \<longleftrightarrow> distinct (filter (\<lambda>i. i \<noteq> - 1) (pids s)) \<and> 0 \<le> next_pid s \<and> next_pid s < PROC_MAX_COUNT H"

definition tree_ok :: "hdr \<Rightarrow> kernel \<Rightarrow> bool" where
  "tree_ok H s \<longleftrightarrow> distinct (proc_list s) \<and> kids_ok s \<and> parents_ok s \<and> pids_ok H s \<and>
     (\<forall>i. proc_initproc s = Some i \<longrightarrow> running s i)"

lemma tree_okI:
  assumes "distinct (proc_list s)" "kids_ok s" "parents_ok s" "pids_ok H s" "\<And>i. proc_initproc s = Some i \<Longrightarrow> running s i"
  shows "tree_ok H s"
  using assms by (simp add: tree_ok_def)

lemma tree_okD:
  assumes "tree_ok H s"
  shows "distinct (proc_list s)" "kids_ok s" "parents_ok s" "pids_ok H s" "proc_initproc s = Some i \<Longrightarrow> running s i"
  using assms by (simp_all add: tree_ok_def)

lemma kids_okD:
  assumes "kids_ok s" and "running s p"
  shows "distinct (p_children (procs s p))" "c \<in> set (p_children (procs s p)) \<Longrightarrow> c \<in> set (proc_list s)"
    "c \<in> set (p_children (procs s p)) \<Longrightarrow> p_pproc (procs s c) = Some p"
  using assms by (auto simp: kids_ok_def)

lemma parents_okD:
  assumes "parents_ok s" and "c \<in> set (proc_list s)" and "p_pproc (procs s c) = Some p"
  shows "running s p" "c \<in> set (p_children (procs s p))"
  using assms by (auto simp: parents_ok_def)

text \<open>The fields of a process that the tree is made of.\<close>

definition same_tree :: "proc \<Rightarrow> proc \<Rightarrow> bool" where
  "same_tree a b \<longleftrightarrow> p_pid a = p_pid b \<and> p_children a = p_children b \<and> p_pproc a = p_pproc b \<and> p_state a = p_state b \<and>
     p_status a = p_status b"

lemma tree_ok_cong:
  assumes "proc_list s' = proc_list s" "\<And>p. same_tree (procs s p) (procs s' p)" "next_pid s' = next_pid s"
    "proc_initproc s' = proc_initproc s"
  shows "tree_ok H s' = tree_ok H s"
proof -
  have f: "p_pid (procs s' p) = p_pid (procs s p)" "p_children (procs s' p) = p_children (procs s p)"
    "p_pproc (procs s' p) = p_pproc (procs s p)" "p_state (procs s' p) = p_state (procs s p)" for p
    using assms(2) [of p] by (simp_all add: same_tree_def)
  show ?thesis
    by (simp add: tree_ok_def kids_ok_def parents_ok_def pids_ok_def pids_def running_def f assms(1,3,4))
qed

subsubsection \<open>Creation\<close>

text \<open>A new process under the current one.\<close>

lemma tree_ok_insert:
  assumes t: "tree_ok H s" and cur: "running s cur" and new: "a \<notin> set (proc_list s)"
    and l: "proc_list s' = proc_list s @ [a]"
    and pa: "p_children (procs s' a) = []" "p_pproc (procs s' a) = Some cur" "p_state (procs s' a) = PROC_RUNNING"
    and pc: "p_children (procs s' cur) = p_children (procs s cur) @ [a]"
    and po: "\<And>p. p \<noteq> a \<Longrightarrow> p_pid (procs s' p) = p_pid (procs s p) \<and> p_pproc (procs s' p) = p_pproc (procs s p) \<and>
               p_state (procs s' p) = p_state (procs s p)"
    and pk: "\<And>p. p \<noteq> a \<Longrightarrow> p \<noteq> cur \<Longrightarrow> p_children (procs s' p) = p_children (procs s p)"
    and pid: "p_pid (procs s' a) = - 1 \<or> p_pid (procs s' a) \<notin> set (pids s)"
    and nx: "0 \<le> next_pid s'" "next_pid s' < PROC_MAX_COUNT H"
    and ini: "proc_initproc s' = proc_initproc s \<or> proc_initproc s' = Some a"
  shows "tree_ok H s'"
proof (rule tree_okI)
  note d = tree_okD [OF t]
  have ca: "cur \<noteq> a" using cur new by (auto simp: running_def)
  have run: "running s' p \<longleftrightarrow> p = a \<or> running s p" for p
    using po [of p] pa(3) new l by (cases "p = a") (auto simp: running_def)
  have na: "a \<notin> set (p_children (procs s p))" if "running s p" for p
    using kids_okD(2) [OF d(2) that] new by auto
  show "distinct (proc_list s')" using d(1) new l by simp
  show "kids_ok s'" unfolding kids_ok_def
  proof (intro allI impI)
    fix p assume p: "running s' p"
    show "distinct (p_children (procs s' p)) \<and>
       (\<forall>c\<in>set (p_children (procs s' p)). c \<in> set (proc_list s') \<and> p_pproc (procs s' c) = Some p)"
    proof (cases "p = a")
      case False
      then have rp: "running s p" using p run by simp
      have old: "c \<in> set (proc_list s') \<and> p_pproc (procs s' c) = Some p" if c: "c \<in> set (p_children (procs s p))" for c
        using kids_okD(2,3) [OF d(2) rp c] po [of c] na [OF rp] c l by auto
      show ?thesis
      proof (cases "p = cur")
        case True
        then show ?thesis using old kids_okD(1) [OF d(2) rp] na [OF rp] pc pa(2) l by auto
      next
        case no: False
        then show ?thesis using old kids_okD(1) [OF d(2) rp] pk [OF False no] by auto
      qed
    qed (simp add: pa)
  qed
  show "parents_ok s'" unfolding parents_ok_def
  proof (intro ballI allI impI)
    fix c p assume c: "c \<in> set (proc_list s')" and p: "p_pproc (procs s' c) = Some p"
    show "running s' p \<and> c \<in> set (p_children (procs s' p))"
    proof (cases "c = a")
      case True
      then show ?thesis using p pa(2) pc cur run by auto
    next
      case False
      then have "running s p" "c \<in> set (p_children (procs s p))"
        using parents_okD [OF d(3), of c p] c p po [OF False] l by auto
      then show ?thesis using run [of p] pk [of p] pc new by (cases "p = cur"; cases "p = a") (auto simp: running_def)
    qed
  qed
  have "p_pid (procs s' p) = p_pid (procs s p)" if "p \<in> set (proc_list s)" for p
    using po [of p] new that by metis
  then have "pids s' = pids s @ [p_pid (procs s' a)]" by (simp add: pids_def l)
  then show "pids_ok H s'" using d(4) pid nx by (auto simp: pids_ok_def)
  show "running s' i" if "proc_initproc s' = Some i" for i
    using that ini d(5) [of i] run [of i] by auto
qed

lemma slab_obj_alloc_SomeD:
  "slab_obj_alloc s = Some (Some a, s') \<Longrightarrow> \<exists>as. slab s = Some a # as \<and> s' = s\<lparr>slab := as, live := insert a (live s)\<rparr>"
  by (auto simp: slab_obj_alloc_def split: list.splits option.splits)

lemma proc_attach_effect:
  assumes api: "proc_api_ok X" and cur: "curproc s = Some cur" "cur \<noteq> a" and r: "proc_attach H X a pid s = Some s'"
  shows "\<exists>cwd fl mp. procs s' = (procs s)(cur := (procs s cur)\<lparr>p_children := p_children (procs s cur) @ [a]\<rparr>,
       a := (procs s a)\<lparr>p_cwd := cwd, p_files := fl, p_vmmap := mp\<rparr>)"
    and "proc_list s' = proc_list s @ [a]" "next_pid s' = next_pid s"
    "proc_initproc s' = (if pid = PID_INIT H then Some a else proc_initproc s)" "curproc s' = Some cur"
proof -
  define s1 where "s1 = (let s = (upd_proc cur (\<lambda>p. p\<lparr>p_children := p_children p @ [a]\<rparr>) s); s = s\<lparr>proc_list := proc_list s @ [a]\<rparr>
     in upd_proc a (\<lambda>p. p\<lparr>p_cwd := vfs_root_vn s\<rparr>) s)"
  from r obtain s2 mp s3 where s2: "(case vfs_root_vn s1 of Some v \<Rightarrow> vref X v s1 | None \<Rightarrow> Some s1) = Some s2"
    and s3: "vmmap_create (upd_proc a (\<lambda>p. p\<lparr>p_files := replicate (NFILES H) None\<rparr>) s2) = Some (mp, s3)"
    and s': "s' = (let s = upd_vmmap mp (\<lambda>m. m\<lparr>vmm_proc := Some a\<rparr>) (upd_proc a (\<lambda>p. p\<lparr>p_vmmap := Some mp\<rparr>) s3)
       in if pid = PID_INIT H then s\<lparr>proc_initproc := Some a\<rparr> else s)"
  proof -
    have e: "proc_attach H X a pid s = do {
       s2 \<leftarrow> (case vfs_root_vn s1 of Some v \<Rightarrow> vref X v s1 | None \<Rightarrow> Some s1);
       (mp, s3) \<leftarrow> vmmap_create (upd_proc a (\<lambda>p. p\<lparr>p_files := replicate (NFILES H) None\<rparr>) s2);
       Some (let s = upd_vmmap mp (\<lambda>m. m\<lparr>vmm_proc := Some a\<rparr>) (upd_proc a (\<lambda>p. p\<lparr>p_vmmap := Some mp\<rparr>) s3)
         in if pid = PID_INIT H then s\<lparr>proc_initproc := Some a\<rparr> else s) }"
      unfolding proc_attach_def s1_def Let_def cur(1) option.case by (rule refl)
    show ?thesis using r that unfolding e by (auto simp: bind_Some_iff)
  qed
  have k2: "pkeep s1 s2" using s2 proc_api(2) [OF api] by (auto split: option.splits)
  have s3': "procs s3 = (procs s2)(a := (procs s2 a)\<lparr>p_files := replicate (NFILES H) None\<rparr>)" "proc_list s3 = proc_list s2"
     "proc_initproc s3 = proc_initproc s2" "next_pid s3 = next_pid s2" "curproc s3 = curproc s2"
    using s3 by (auto simp: vmmap_create_def bind_Some_iff upd_proc_def upd_vmmap_def dest!: slab_obj_alloc_SomeD)
  have s1': "procs s1 = (procs s)(cur := (procs s cur)\<lparr>p_children := p_children (procs s cur) @ [a]\<rparr>,
       a := (procs s a)\<lparr>p_cwd := vfs_root_vn s\<rparr>)" "proc_list s1 = proc_list s @ [a]" "next_pid s1 = next_pid s"
       "proc_initproc s1 = proc_initproc s" "curproc s1 = Some cur"
    using cur by (simp_all add: s1_def upd_proc_def Let_def fun_upd_twist)
  note k = k2 [unfolded pkeep_def]
  have "procs s' = (procs s)(cur := (procs s cur)\<lparr>p_children := p_children (procs s cur) @ [a]\<rparr>,
       a := (procs s a)\<lparr>p_cwd := vfs_root_vn s, p_files := replicate (NFILES H) None, p_vmmap := Some mp\<rparr>)"
    using k by (simp add: s' Let_def upd_proc_def upd_vmmap_def s3' s1')
  then show "\<exists>cwd fl mp. procs s' = (procs s)(cur := (procs s cur)\<lparr>p_children := p_children (procs s cur) @ [a]\<rparr>,
       a := (procs s a)\<lparr>p_cwd := cwd, p_files := fl, p_vmmap := mp\<rparr>)" by blast
  show "proc_list s' = proc_list s @ [a]" "next_pid s' = next_pid s"
    "proc_initproc s' = (if pid = PID_INIT H then Some a else proc_initproc s)" "curproc s' = Some cur"
    using k by (simp_all add: s' Let_def upd_proc_def upd_vmmap_def s3' s1')
qed

lemma proc_create_alloc: "proc_create H X name s = Some (a, s') \<Longrightarrow> \<exists>s1. slab_obj_alloc s = Some (Some a, s1)"
  by (cases "slab_obj_alloc s") (auto simp: proc_create_def Let_def bind_Some_iff split: if_splits)

lemma proc_create_effect:
  assumes api: "proc_api_ok X" and cur: "curproc s = Some cur" "cur \<noteq> a" and n: "0 \<le> next_pid s" "next_pid s < PROC_MAX_COUNT H"
    and new: "a \<notin> set (proc_list s)" and r: "proc_create H X name s = Some (a, s')"
  obtains pid pr where "procs s' = (procs s)(cur := (procs s cur)\<lparr>p_children := p_children (procs s cur) @ [a]\<rparr>, a := pr)"
    "p_pid pr = pid" "p_children pr = []" "p_pproc pr = Some cur" "p_state pr = PROC_RUNNING" "p_threads pr = []"
    "pid = - 1 \<or> pid \<notin> set (pids s)" "proc_list s' = proc_list s @ [a]" "0 \<le> next_pid s'" "next_pid s' < PROC_MAX_COUNT H"
    "proc_initproc s' = (if pid = PID_INIT H then Some a else proc_initproc s)" "curproc s' = Some cur"
proof -
  let ?f4 = "\<lambda>pid s3. let s = upd_proc a (\<lambda>p. p\<lparr>p_pid := pid\<rparr>) s3 in
     sched_queue_init (P_wait a) (upd_proc a (\<lambda>p. p\<lparr>p_comm := take (PROC_NAME_LEN H - 1) name, p_threads := [],
               p_children := [], p_pproc := curproc s, p_status := 0, p_state := PROC_RUNNING\<rparr>) s)"
  obtain s1 where s1: "slab_obj_alloc s = Some (Some a, s1)" using proc_create_alloc [OF r] by blast
  obtain pid s3 where s3: "proc_getid H (upd_proc a (\<lambda>_. zero_proc H) s1) = Some (pid, s3)"
    using r s1 by (cases "proc_getid H (upd_proc a (\<lambda>_. zero_proc H) s1)") (auto simp: proc_create_def)
  obtain dir s5 where s5: "pt_create_pagedir X (?f4 pid s3) = Some (dir, s5)"
    using r s1 s3 by (cases "pt_create_pagedir X (?f4 pid s3)") (auto simp: proc_create_def Let_def split: if_splits)
  have s6: "proc_attach H X a pid (upd_proc a (\<lambda>p. p\<lparr>p_pagedir := dir\<rparr>) s5) = Some s'"
    using r s1 s3 s5 by (auto simp: proc_create_def Let_def bind_Some_iff split: if_splits)
  define s2 where "s2 = upd_proc a (\<lambda>_. zero_proc H) s1"
  have s2: "procs s2 = (procs s)(a := zero_proc H)" "proc_list s2 = proc_list s" "next_pid s2 = next_pid s"
    "proc_initproc s2 = proc_initproc s" "curproc s2 = Some cur"
    using slab_obj_alloc_SomeD [OF s1] cur by (auto simp: s2_def upd_proc_def)
  have p2: "pids s2 = pids s" using s2(1,2) new by (auto simp: pids_def)
  have pid: "pid = - 1 \<or> pid \<notin> set (pids s)" and k3: "procs s3 = (procs s)(a := zero_proc H)" "proc_list s3 = proc_list s"
    "proc_initproc s3 = proc_initproc s" "curproc s3 = Some cur" "0 \<le> next_pid s3" "next_pid s3 < PROC_MAX_COUNT H"
    using proc_getid_free [OF s3 [folded s2_def]] n p2 s2 by auto
  have k5: "pkeep (?f4 pid s3) s5" by (rule proc_api(1) [OF api s5])
  have c5: "curproc s5 = Some cur" "procs s5 = procs (?f4 pid s3)" "proc_list s5 = proc_list s" "next_pid s5 = next_pid s3"
    "proc_initproc s5 = proc_initproc s"
    using k5 k3 by (simp_all add: pkeep_def upd_proc_def sched_queue_init_def)
  have c6: "curproc (upd_proc a (\<lambda>p. p\<lparr>p_pagedir := dir\<rparr>) s5) = Some cur" using c5 by (simp add: upd_proc_def)
  note e = proc_attach_effect [OF api c6 cur(2) s6]
  obtain cwd fl mp where pr: "procs s' = (procs s)(cur := (procs s cur)\<lparr>p_children := p_children (procs s cur) @ [a]\<rparr>,
      a := (procs s5 a)\<lparr>p_pagedir := dir, p_cwd := cwd, p_files := fl, p_vmmap := mp\<rparr>)"
    using e(1) cur(2) by (auto simp: c5(2) k3 upd_proc_def sched_queue_init_def fun_upd_twist)
  show thesis
    by (rule that [OF pr refl])
      (use pid e(2-5) k3 c5 in \<open>simp_all add: upd_proc_def sched_queue_init_def\<close>)
qed

lemma proc_create_tree:
  assumes api: "proc_api_ok X" and t: "tree_ok H s" and cur: "curproc s = Some cur" "running s cur"
    and new: "\<And>a as. slab s = Some a # as \<Longrightarrow> a \<notin> set (proc_list s)"
    and r: "proc_create H X name s = Some (a, s')"
  shows "tree_ok H s'"
proof -
  obtain s1 where "slab_obj_alloc s = Some (Some a, s1)" using proc_create_alloc [OF r] by blast
  then have a: "a \<notin> set (proc_list s)" using new by (auto dest: slab_obj_alloc_SomeD)
  then have ca: "cur \<noteq> a" using cur(2) by (auto simp: running_def)
  have n: "0 \<le> next_pid s" "next_pid s < PROC_MAX_COUNT H" using tree_okD(4) [OF t] by (simp_all add: pids_ok_def)
  obtain pid pr where e: "procs s' = (procs s)(cur := (procs s cur)\<lparr>p_children := p_children (procs s cur) @ [a]\<rparr>, a := pr)"
    "p_pid pr = pid" "p_children pr = []" "p_pproc pr = Some cur" "p_state pr = PROC_RUNNING"
    "pid = - 1 \<or> pid \<notin> set (pids s)" "proc_list s' = proc_list s @ [a]" "0 \<le> next_pid s'" "next_pid s' < PROC_MAX_COUNT H"
    "proc_initproc s' = (if pid = PID_INIT H then Some a else proc_initproc s)"
    by (rule proc_create_effect [OF api cur(1) ca n a r])
  show ?thesis
    by (rule tree_ok_insert [OF t cur(2) a e(7)]) (use e ca in \<open>simp_all split: if_splits\<close>)
qed

subsubsection \<open>Exit\<close>

lemma sched_broadcast_loop_pkeep: "sched_broadcast_loop n q s = Some s' \<Longrightarrow> pkeep s s'"
proof (induction n arbitrary: s)
  case (Suc n)
  show ?case
  proof (cases "sched_queue_empty q s")
    case False
    from Suc.prems False obtain t s1 s2 s3 where s1: "ktqueue_dequeue q s = Some (Some t, s1)"
      and s2: "upd_thr t (\<lambda>th. th\<lparr>kt_state := KT_RUN\<rparr>) s1 = Some s2"
      and s3: "sched_make_runnable t s2 = Some s3" and r: "sched_broadcast_loop n q s3 = Some s'"
      by (auto simp: bind_Some_iff)
    have "pkeep s s1" using s1 by (auto simp: ktqueue_dequeue_def Let_def bind_Some_iff pkeep_def split: if_splits)
    moreover have "pkeep s1 s2" using s2 by (auto simp: upd_thr_def bind_Some_iff pkeep_def)
    moreover have "pkeep s2 s3" using s3
      by (auto simp: sched_make_runnable_def ktqueue_enqueue_def Let_def bind_Some_iff pkeep_def split: if_splits)
    ultimately show ?thesis using Suc.IH [OF r] pkeep_trans by blast
  qed (use Suc.prems in auto)
qed (simp split: if_splits)

lemma sched_broadcast_on_pkeep: "sched_broadcast_on q s = Some s' \<Longrightarrow> pkeep s s'"
  unfolding sched_broadcast_on_def by (rule sched_broadcast_loop_pkeep)

lemma reparent_children_effect:
  "procs (reparent_children ini l s) = (\<lambda>q. (procs s q)\<lparr>p_children := (if q = ini then p_children (procs s q) @ l else p_children (procs s q)),
     p_pproc := (if q \<in> set l then Some ini else p_pproc (procs s q))\<rparr>)"
  "proc_list (reparent_children ini l s) = proc_list s" "proc_initproc (reparent_children ini l s) = proc_initproc s"
  "curproc (reparent_children ini l s) = curproc s" "next_pid (reparent_children ini l s) = next_pid s"
  by (induction l arbitrary: s) (auto simp: upd_proc_def Let_def fun_eq_iff)

text \<open>What one process is to the tree, for all of them.\<close>

definition tkeep :: "kernel \<Rightarrow> kernel \<Rightarrow> bool" where
  "tkeep s s' \<longleftrightarrow> (\<forall>p. same_tree (procs s p) (procs s' p)) \<and> proc_list s' = proc_list s \<and> proc_initproc s' = proc_initproc s \<and>
     curproc s' = curproc s \<and> next_pid s' = next_pid s"

lemma tkeep_refl [simp]: "tkeep s s"
  by (simp add: tkeep_def same_tree_def)

lemma tkeep_trans: "tkeep r s \<Longrightarrow> tkeep s t \<Longrightarrow> tkeep r t"
  by (simp add: tkeep_def same_tree_def)

lemma pkeep_tkeep: "pkeep s s' \<Longrightarrow> tkeep s s'"
  by (simp add: pkeep_def tkeep_def same_tree_def)

lemma tkeep_tree_ok: "tkeep s s' \<Longrightarrow> tree_ok H s' = tree_ok H s"
  by (rule tree_ok_cong) (simp_all add: tkeep_def)

lemma close_files_tkeep:
  assumes "proc_api_ok X"
  shows "close_files X p l s = Some s' \<Longrightarrow> tkeep s s'"
proof (induction l arbitrary: s)
  case (Cons a l)
  from Cons.prems obtain s1 where s1: "(case p_files (procs s p) ! a of Some f \<Rightarrow> fput X f s | None \<Rightarrow> Some s) = Some s1"
    and r: "close_files X p l (upd_proc p (\<lambda>q. q\<lparr>p_files := (p_files q)[a := None]\<rparr>) s1) = Some s'"
    by (auto simp: bind_Some_iff)
  have "tkeep s s1" using s1 proc_api(4) [OF assms] by (auto split: option.splits intro: pkeep_tkeep)
  moreover have "tkeep s1 (upd_proc p (\<lambda>q. q\<lparr>p_files := (p_files q)[a := None]\<rparr>) s1)"
    by (simp add: tkeep_def same_tree_def upd_proc_def)
  ultimately show ?case using Cons.IH [OF r] tkeep_trans by blast
qed simp

lemma release_resources_tkeep:
  assumes "proc_api_ok X" and r: "release_resources n H X p s = Some s'"
  shows "tkeep s s'"
proof -
  from r obtain s1 s2 where s1: "(case p_cwd (procs s p) of Some v \<Rightarrow> vput X v s | None \<Rightarrow> Some s) = Some s1"
    and s2: "close_files X p [0..<NFILES H] s1 = Some s2" and s3: "vmmap_destroy n H X (p_vmmap (procs s2 p)) s2 = Some s'"
    by (auto simp: release_resources_def bind_Some_iff)
  have "tkeep s s1" using s1 proc_api(3) [OF assms(1)] by (auto split: option.splits intro: pkeep_tkeep)
  then show ?thesis
    using close_files_tkeep [OF assms(1) s2] pkeep_tkeep [OF pkeep_destroy [OF assms(1) s3]] tkeep_trans by blast
qed

lemma wake_parent_pkeep: "wake_parent p s = Some s' \<Longrightarrow> pkeep s s'"
  by (auto simp: wake_parent_def upd_thr_def bind_Some_iff split: if_splits dest!: sched_broadcast_on_pkeep) (simp add: pkeep_def)

text \<open>The effect of \<open>proc_cleanup\<close> on the tree: the process is dead and its children are the init process's.\<close>

lemma proc_cleanup_effect:
  assumes api: "proc_api_ok X" and r: "proc_cleanup n H X status s = Some s'"
  obtains p ini where "curproc s = Some p" "proc_initproc s = Some ini" "1 \<le> p_pid (procs s p)"
    "p_children (procs s p) = [] \<or> ini \<noteq> p"
    "tkeep (reparent_children ini (p_children (procs s p)) (upd_proc p (\<lambda>q. q\<lparr>p_state := PROC_DEAD, p_status := status\<rparr>) s)) s'"
proof -
  obtain ini p where ip: "proc_initproc s = Some ini" "curproc s = Some p"
    using r by (cases "proc_initproc s"; cases "curproc s") (auto simp: proc_cleanup_def)
  let ?s1 = "upd_proc p (\<lambda>q. q\<lparr>p_state := PROC_DEAD, p_status := status\<rparr>) s"
  let ?s2 = "reparent_children ini (p_children (procs s p)) ?s1"
  have c: "p_children (procs ?s1 p) = p_children (procs s p)" by (simp add: upd_proc_def)
  from r ip obtain s3 s4 where g: "1 \<le> p_pid (procs s p)" "p_children (procs s p) = [] \<or> ini \<noteq> p"
    and s3: "release_resources n H X p ?s2 = Some s3" and s4: "wake_parent p s3 = Some s4"
    and s': "s' = upd_proc p (\<lambda>q. q\<lparr>p_state := PROC_DEAD\<rparr>) s4"
    by (auto simp: proc_cleanup_def Let_def bind_Some_iff c split: if_splits)
  have t: "tkeep ?s2 s4"
    using release_resources_tkeep [OF api s3] pkeep_tkeep [OF wake_parent_pkeep [OF s4]] tkeep_trans by blast
  have "p_state (procs s4 p) = PROC_DEAD"
  proof -
    have "p_state (procs ?s2 p) = PROC_DEAD" by (simp add: reparent_children_effect) (simp add: upd_proc_def)
    moreover have "same_tree (procs ?s2 p) (procs s4 p)" using t by (simp add: tkeep_def)
    ultimately show ?thesis by (simp add: same_tree_def)
  qed
  then have "tkeep s4 s'" by (simp add: s' upd_proc_def tkeep_def same_tree_def)
  then show thesis using that [OF ip(2,1) g] t tkeep_trans by blast
qed

lemma proc_cleanup_tree:
  assumes api: "proc_api_ok X" and t: "tree_ok H s" and p: "curproc s = Some p" "running s p" "proc_initproc s \<noteq> Some p"
    and r: "proc_cleanup n H X status s = Some s'"
  shows "tree_ok H s'"
proof -
  obtain ini where ini: "proc_initproc s = Some ini"
    and k: "tkeep (reparent_children ini (p_children (procs s p)) (upd_proc p (\<lambda>q. q\<lparr>p_state := PROC_DEAD, p_status := status\<rparr>) s)) s'"
    (is "tkeep ?s s'")
    using proc_cleanup_effect [OF api r] p(1) by (metis option.inject)
  note d = tree_okD [OF t]
  let ?l = "p_children (procs s p)"
  have ne: "ini \<noteq> p" using ini p(3) by simp
  have e: "p_state (procs ?s q) = (if q = p then PROC_DEAD else p_state (procs s q))"
    "p_children (procs ?s q) = (if q = ini then p_children (procs s q) @ ?l else p_children (procs s q))"
    "p_pproc (procs ?s q) = (if q \<in> set ?l then Some ini else p_pproc (procs s q))"
    "p_pid (procs ?s q) = p_pid (procs s q)" "proc_list ?s = proc_list s" "proc_initproc ?s = Some ini" "next_pid ?s = next_pid s" for q
    by (simp_all add: reparent_children_effect) (simp_all add: upd_proc_def ini)
  have run: "running ?s q \<longleftrightarrow> running s q \<and> q \<noteq> p" for q by (simp add: running_def e)
  have ri: "running s ini" by (rule d(5) [OF ini])
  have "tree_ok H ?s"
  proof (rule tree_okI)
    show "distinct (proc_list ?s)" using d(1) e(5) by simp
    show "pids_ok H ?s" using d(4) by (simp add: pids_ok_def pids_def e)
    show "running ?s i" if "proc_initproc ?s = Some i" for i using that ri ne run [of ini] e(6) by auto
    show "kids_ok ?s" unfolding kids_ok_def
    proof (intro allI impI)
      fix q assume q: "running ?s q"
      then have rq: "running s q" "q \<noteq> p" by (simp_all add: run)
      have old: "c \<in> set (proc_list s) \<and> c \<notin> set ?l \<and> p_pproc (procs s c) = Some q" if "c \<in> set (p_children (procs s q))" for c
        using kids_okD(2,3) [OF d(2) rq(1) that] kids_okD(3) [OF d(2) p(2), of c] rq(2) by auto
      show "distinct (p_children (procs ?s q)) \<and>
         (\<forall>c\<in>set (p_children (procs ?s q)). c \<in> set (proc_list ?s) \<and> p_pproc (procs ?s c) = Some q)"
        using old kids_okD(1) [OF d(2) rq(1)] kids_okD(1) [OF d(2) p(2)] kids_okD(2) [OF d(2) p(2)] by (auto simp: e)
    qed
    show "parents_ok ?s" unfolding parents_ok_def
    proof (intro ballI allI impI)
      fix c q assume c: "c \<in> set (proc_list ?s)" and q: "p_pproc (procs ?s c) = Some q"
      show "running ?s q \<and> c \<in> set (p_children (procs ?s q))"
      proof (cases "c \<in> set ?l")
        case True
        then have qi: "q = ini" using q by (simp add: e)
        show ?thesis using True ri ne unfolding qi by (simp add: e run)
      next
        case False
        then have "p_pproc (procs s c) = Some q" using q by (simp add: e)
        then show ?thesis using parents_okD [OF d(3), of c q] c False by (auto simp: e run)
      qed
    qed
  qed
  then show ?thesis using tkeep_tree_ok [OF k] by simp
qed

subsubsection \<open>Waiting\<close>

text \<open>Reaping takes the dead child out of the tree.\<close>

lemma dispose_child_effect:
  assumes r: "dispose_child pid child s = Some (res, s')" and cur: "curproc s = Some cur"
  obtains dir t th where "res = (p_pid (procs s child), Some (p_status (procs s child)))" "t = last (p_threads (procs s child))"
    "threads s t = Some th" "p_threads (procs s child) \<noteq> []"
    "procs s' = (\<lambda>q. (procs s q)\<lparr>p_threads := remove1 t (p_threads (procs s q)),
       p_children := (if q = cur then remove1 child (p_children (procs s q)) else p_children (procs s q)),
       p_pproc := (if q = child then None else p_pproc (procs s q))\<rparr>)"
    "proc_list s' = remove1 child (proc_list s)" "proc_initproc s' = proc_initproc s" "curproc s' = Some cur"
    "next_pid s' = next_pid s" "threads s' = (threads s)(t := None)" "p_pagedir (procs s child) = Some dir"
    "child \<notin> live s'" "t \<notin> live s'"
proof -
  let ?t = "last (p_threads (procs s child))"
  from r cur obtain s1 dir where ne: "p_threads (procs s child) \<noteq> []" and s1: "kthread_destroy ?t s = Some s1"
    and res: "res = (p_pid (procs s child), Some (p_status (procs s child)))" and dir: "p_pagedir (procs s1 child) = Some dir"
    and s': "s' = slab_obj_free child (log_hw (Pt_destroy_pagedir dir)
      (upd_proc cur (\<lambda>p. p\<lparr>p_children := remove1 child (p_children p)\<rparr>)
        (upd_proc child (\<lambda>p. p\<lparr>p_pproc := None\<rparr>) s1\<lparr>proc_list := remove1 child (proc_list s1)\<rparr>)))"
    by (auto simp: dispose_child_def Let_def bind_Some_iff upd_proc_def split: if_splits)
  from s1 obtain th stack where th: "threads s ?t = Some th" and
    e: "s1 = slab_obj_free ?t (free_stack stack s\<lparr>procs := (\<lambda>p. (procs s p)\<lparr>p_threads := remove1 ?t (p_threads (procs s p))\<rparr>),
       threads := (threads s)(?t := None)\<rparr>)"
    by (auto simp: kthread_destroy_def Let_def bind_Some_iff free_stack_def page_free_def)
  show thesis
    by (rule that [OF res refl th ne])
      (use dir in \<open>simp_all add: s' e cur upd_proc_def log_hw_def slab_obj_free_def free_stack_def page_free_def fun_eq_iff\<close>)
qed

lemma dispose_child_tree:
  assumes t: "tree_ok H s" and cur: "curproc s = Some cur" "running s cur"
    and child: "child \<in> set (p_children (procs s cur))" "p_state (procs s child) = PROC_DEAD"
    and r: "dispose_child pid child s = Some (res, s')"
  shows "tree_ok H s'"
proof -
  note d = tree_okD [OF t]
  obtain t where e: "procs s' = (\<lambda>q. (procs s q)\<lparr>p_threads := remove1 t (p_threads (procs s q)),
       p_children := (if q = cur then remove1 child (p_children (procs s q)) else p_children (procs s q)),
       p_pproc := (if q = child then None else p_pproc (procs s q))\<rparr>)"
    "proc_list s' = remove1 child (proc_list s)" "proc_initproc s' = proc_initproc s" "next_pid s' = next_pid s"
    by (rule dispose_child_effect [OF r cur(1)])
  have pl: "set (proc_list s') = set (proc_list s) - {child}" using d(1) e(2) by simp
  have cc: "cur \<noteq> child" using cur(2) child(2) by (auto simp: running_def)
  have run: "running s' q \<longleftrightarrow> running s q" for q using child(2) by (auto simp: running_def pl e(1))
  have nc: "child \<notin> set (p_children (procs s q))" if "running s q" "q \<noteq> cur" for q
    using kids_okD(3) [OF d(2) that(1), of child] kids_okD(3) [OF d(2) cur(2) child(1)] that(2) by auto
  show ?thesis
  proof (rule tree_okI)
    show "distinct (proc_list s')" using d(1) e(2) by simp
    have "pids s' = map (\<lambda>p. p_pid (procs s p)) (remove1 child (proc_list s))" by (simp add: pids_def e(1,2))
    then show "pids_ok H s'" using d(4) by (auto simp: pids_ok_def pids_def e(4) filter_map filter_remove1 o_def distinct_map
          intro: inj_on_diff)
    show "running s' i" if "proc_initproc s' = Some i" for i using that d(5) e(3) run by simp
    show "kids_ok s'" unfolding kids_ok_def
    proof (intro allI impI)
      fix q assume "running s' q"
      then have rq: "running s q" using run by simp
      show "distinct (p_children (procs s' q)) \<and>
         (\<forall>c\<in>set (p_children (procs s' q)). c \<in> set (proc_list s') \<and> p_pproc (procs s' c) = Some q)"
        using kids_okD [OF d(2) rq] nc [OF rq] by (auto simp: e(1) pl)
    qed
    show "parents_ok s'" unfolding parents_ok_def
    proof (intro ballI allI impI)
      fix c q assume "c \<in> set (proc_list s')" and q: "p_pproc (procs s' c) = Some q"
      then have c: "c \<in> set (proc_list s)" "c \<noteq> child" by (auto simp: pl)
      then have "running s q" "c \<in> set (p_children (procs s q))"
        using parents_okD [OF d(3) c(1), of q] q by (auto simp: e(1))
      then show "running s' q \<and> c \<in> set (p_children (procs s' q))" using run c(2) by (auto simp: e(1))
    qed
  qed
qed

lemma do_waitpid_now_tree:
  assumes t: "tree_ok H s" and cur: "curproc s = Some cur" "running s cur" and r: "do_waitpid 0 H X pid s = Some (res, s')"
  shows "tree_ok H s'"
proof -
  have d: "tree_ok H s'" if "dispose_child pid' child s = Some (res, s')" "child \<in> set (p_children (procs s cur))"
    "p_state (procs s child) = PROC_DEAD" for pid' child
    by (rule dispose_child_tree [OF t cur that(2,3,1)])
  show ?thesis
    using r cur(1) t by (auto simp: do_waitpid_def bind_Some_iff find_Some_iff split: if_splits option.splits intro: d)
qed

text \<open>
  The steps that change the tree, in any order: the running process creates a process (the allocator
  hands out no structure that is in use), exits, or waits for a child that has exited, or the
  processor goes to another process. The init process does not exit.
\<close>

inductive pstep :: "hdr \<Rightarrow> ext \<Rightarrow> kernel \<Rightarrow> kernel \<Rightarrow> bool" for H X where
  create: "curproc s = Some cur \<Longrightarrow> running s cur \<Longrightarrow> \<forall>a as. slab s = Some a # as \<longrightarrow> a \<notin> set (proc_list s) \<Longrightarrow>
     proc_create H X name s = Some (a, s') \<Longrightarrow> pstep H X s s'"
| exit: "curproc s = Some p \<Longrightarrow> running s p \<Longrightarrow> proc_initproc s \<noteq> Some p \<Longrightarrow>
     proc_cleanup n H X status s = Some s' \<Longrightarrow> pstep H X s s'"
| wait: "curproc s = Some cur \<Longrightarrow> running s cur \<Longrightarrow> do_waitpid 0 H X pid s = Some (res, s') \<Longrightarrow> pstep H X s s'"
| switch: "pstep H X s (s\<lparr>curproc := Some q\<rparr>)"

lemma pstep_tree:
  assumes "proc_api_ok X" and "pstep H X s s'" and "tree_ok H s"
  shows "tree_ok H s'"
  using assms(2,3)
proof cases
  case (create cur name a)
  show ?thesis by (rule proc_create_tree [OF assms(1,3) create(1,2) _ create(4)]) (use create(3) in auto)
next
  case (exit p n status)
  show ?thesis by (rule proc_cleanup_tree [OF assms(1,3) exit])
next
  case (wait cur pid res)
  show ?thesis by (rule do_waitpid_now_tree [OF assms(3) wait])
next
  case (switch q)
  have "tree_ok H s' = tree_ok H s" by (rule tree_ok_cong) (simp_all add: switch same_tree_def)
  then show ?thesis using assms(3) by simp
qed


text \<open>
  C19: reaping. When a child of the current process has exited, \<open>do_waitpid\<close> with its identifier returns
  it at once with the child's exit status; the child is taken out of the process list and of the list
  of children, and its last thread and its structure are given back.
\<close>

theorem do_waitpid_reaps:
  assumes "tree_ok H s" and "curproc s = Some cur" "running s cur" and "child \<in> set (p_children (procs s cur))"
    and "p_state (procs s child) = PROC_DEAD" "p_pid (procs s child) = pid" "0 < pid"
    and "p_threads (procs s child) \<noteq> []" "threads s (last (p_threads (procs s child))) = Some th" "kt_kstack th \<noteq> None"
    and "p_pagedir (procs s child) \<noteq> None"
  shows "\<exists>s'. do_waitpid k H X pid s = Some ((pid, Some (p_status (procs s child))), s') \<and>
     proc_list s' = remove1 child (proc_list s) \<and> child \<notin> set (proc_list s') \<and> tree_ok H s' \<and>
     p_children (procs s' cur) = remove1 child (p_children (procs s cur)) \<and>
     child \<notin> live s' \<and> threads s' (last (p_threads (procs s child))) = None"
proof -
  note d = tree_okD [OF assms(1)]
  have inj: "inj_on (\<lambda>p. p_pid (procs s p)) {p \<in> set (proc_list s). p_pid (procs s p) \<noteq> - 1}"
    using d(4) by (simp add: pids_ok_def pids_def filter_map o_def distinct_map)
  have sub: "c \<in> set (proc_list s)" if "c \<in> set (p_children (procs s cur))" for c
    by (rule kids_okD(2) [OF d(2) assms(3) that])
  have f: "List.find (\<lambda>c. p_pid (procs s c) = pid) (p_children (procs s cur)) = Some child"
    using inj_onD [OF inj] sub assms(4,6,7) by (subst find_unique) auto
  have "dispose_child pid child s \<noteq> None"
    using assms(2,6,8-11) by (auto simp: dispose_child_def kthread_destroy_def Let_def upd_proc_def free_stack_def page_free_def slab_obj_free_def)
  then obtain res s' where r: "dispose_child pid child s = Some (res, s')" by auto
  have w: "do_waitpid k H X pid s = Some (res, s')"
    using assms(2,4,5,7) f r by (auto simp: do_waitpid_def)
  have tr: "tree_ok H s'" by (rule dispose_child_tree [OF assms(1-5) r])
  show ?thesis
    by (rule dispose_child_effect [OF r assms(2)]) (use w tr d(1) assms(6) in \<open>auto intro!: exI [of _ s']\<close>)
qed

text \<open>
  C39: exit. When \<open>proc_cleanup\<close> returns, the current process is dead with the status given, and every
  child it had is at the end of the init process's list, in the same order, with the init process as
  its parent.
\<close>

theorem proc_cleanup_reparents:
  assumes "proc_api_ok X" and "proc_cleanup n H X status s = Some s'" and "curproc s = Some p" "proc_initproc s = Some ini"
  shows "p_state (procs s' p) = PROC_DEAD \<and> p_status (procs s' p) = status \<and>
     p_children (procs s' ini) = p_children (procs s ini) @ p_children (procs s p) \<and>
     (\<forall>c\<in>set (p_children (procs s p)). p_pproc (procs s' c) = Some ini)"
proof (rule proc_cleanup_effect [OF assms(1,2)])
  fix p' ini' assume a: "curproc s = Some p'" "proc_initproc s = Some ini'" "p_children (procs s p') = [] \<or> ini' \<noteq> p'"
    and k: "tkeep (reparent_children ini' (p_children (procs s p')) (upd_proc p' (\<lambda>q. q\<lparr>p_state := PROC_DEAD, p_status := status\<rparr>) s)) s'"
  have [simp]: "p' = p" "ini' = ini" using a assms(3,4) by simp_all
  let ?s = "reparent_children ini (p_children (procs s p)) (upd_proc p (\<lambda>q. q\<lparr>p_state := PROC_DEAD, p_status := status\<rparr>) s)"
  have e: "same_tree (procs ?s q) (procs s' q)" for q using k by (simp add: tkeep_def)
  have "p_children (procs ?s ini) = p_children (procs s ini) @ p_children (procs s p)"
    "p_state (procs ?s p) = PROC_DEAD" "p_status (procs ?s p) = status"
    "c \<in> set (p_children (procs s p)) \<Longrightarrow> p_pproc (procs ?s c) = Some ini" for c
    by (simp_all add: reparent_children_effect) (simp_all add: upd_proc_def)
  then show ?thesis using e by (auto simp: same_tree_def)
qed

subsubsection \<open>A small family\<close>

text \<open>
  The idle process 10, the init process 11 under it, process 12 under the init process, which has
  exited with status 7 or is about to, and its child 13 in the second case.
\<close>

definition exited_thread :: kthread where
  "exited_thread = zero_thread\<lparr>kt_state := KT_EXITED, kt_proc := Some 12, kt_kstack := Some 90\<rparr>"

definition family :: "proc_state \<Rightarrow> paddr list \<Rightarrow> kernel" where
  "family st kids = boot\<lparr>curproc := Some 11, threads := (threads boot)(5 \<mapsto> exited_thread), proc_list := [10, 11, 12] @ kids, next_pid := 4,
     proc_initproc := Some 11, slab := [Some 20, Some 30], procs := (\<lambda>_. blank_proc)(
       10 := blank_proc\<lparr>p_children := [11]\<rparr>,
       11 := blank_proc\<lparr>p_pid := 1, p_pproc := Some 10, p_children := [12]\<rparr>,
       12 := blank_proc\<lparr>p_pid := 2, p_pproc := Some 11, p_children := kids, p_state := st, p_status := 7, p_threads := [5],
               p_pagedir := Some 3, p_vmmap := Some 40\<rparr>,
       13 := blank_proc\<lparr>p_pid := 3, p_pproc := Some 12\<rparr>)\<rparr>"

lemma family_tree: "tree_ok std_hdr (family PROC_DEAD [])"
  by (rule tree_okI)
    (auto simp: family_def boot_def blank_proc_def kids_ok_def parents_ok_def pids_ok_def pids_def running_def std_hdr_def split: if_splits)

lemma family_create:
  "\<exists>s'. proc_create std_hdr std_ext ''sh'' (family PROC_DEAD []) = Some (20, s')"
  by (simp add: proc_create_def family_def boot_def slab_obj_alloc_def proc_getid_def getid_loop.simps pids_def upd_proc_def
      blank_proc_def zero_proc_def std_hdr_def std_ext_def Let_def proc_attach_def sched_queue_init_def vmmap_create_def upd_vmmap_def
      smod_int_alt_def)


theorem do_waitpid_reaps_witness:
  "\<exists>s'. do_waitpid 0 std_hdr std_ext 2 (family PROC_DEAD []) = Some ((2, Some 7), s') \<and> proc_list s' = [10, 11]"
  using do_waitpid_reaps [OF family_tree, where cur = 11 and child = 12 and pid = 2 and th = exited_thread and k = 0 and X = std_ext]
  by (auto simp: running_def family_def blank_proc_def boot_def exited_thread_def zero_thread_def)

definition leaving :: kernel where
  "leaving = (family PROC_RUNNING [13])\<lparr>curproc := Some 12, curthr := Some 5\<rparr>"

lemma leaving_exits: "\<exists>s'. proc_cleanup 1 (std_hdr\<lparr>NFILES := 2\<rparr>) std_ext 7 leaving = Some s'"
  by (simp add: proc_cleanup_def leaving_def family_def boot_def blank_proc_def exited_thread_def zero_thread_def upd_proc_def
      std_hdr_def std_ext_def Let_def release_resources_def wake_parent_def sched_queue_empty_def numeral_2_eq_2 nth_Cons'
      vmmap_destroy_def slab_obj_free_def)

theorem proc_cleanup_reparents_witness:
  "\<exists>s'. proc_cleanup 1 (std_hdr\<lparr>NFILES := 2\<rparr>) std_ext 7 leaving = Some s' \<and> p_state (procs s' 12) = PROC_DEAD \<and>
     p_children (procs s' 11) = [12, 13] \<and> p_pproc (procs s' 13) = Some 11"
proof -
  obtain s' where r: "proc_cleanup 1 (std_hdr\<lparr>NFILES := 2\<rparr>) std_ext 7 leaving = Some s'" using leaving_exits by blast
  show ?thesis
    using proc_cleanup_reparents [OF std_ext_proc_api_ok r, of 12 11] r by (simp add: leaving_def family_def blank_proc_def)
qed

end
