(* ===== verification/Namev.thy ===== *)
theory Namev
  imports Vn_Special
begin

text \<open>
  Resolving path names (\<open>kernel/fs/namev.c\<close>). A path is the list of its characters without the final
  \<open>NUL\<close>; an index into it is a position of that list. An out-argument that a call leaves unwritten is
  \<^const>\<open>None\<close>.
\<close>

subsection \<open>Operations\<close>

text \<open>
  \<open>lookup\<close>: the name is the pointer and length of the code, already cut to its length. A vnode whose
  operations table has no \<open>lookup\<close> entry is not checked for, and the call through it does not return.
\<close>

definition lookup :: "ext \<Rightarrow> vaddr option \<Rightarrow> string option \<Rightarrow> (int \<times> vaddr option) call" where
  "lookup X dir name s = do {
     dir \<leftarrow> dir;
     name \<leftarrow> name;
     look \<leftarrow> fs_op (fs_lookup X) (vn_ops (vnodes s dir));
     look dir name s }"

text \<open>The loops of \<open>dir_namev\<close>: back to the last slash, over slashes and over a name.\<close>

fun last_slash :: "string \<Rightarrow> nat \<Rightarrow> int" where
  "last_slash path 0 = - 1"
| "last_slash path (Suc i) = (if path ! i = CHR ''/'' then int i else last_slash path i)"

function skip_slash :: "string \<Rightarrow> nat \<Rightarrow> nat \<Rightarrow> nat" where
  "skip_slash path limit pos =
     (if pos < limit \<and> path ! pos = CHR ''/'' then skip_slash path limit (Suc pos) else pos)"
  by auto
termination by (relation "measure (\<lambda>(_, limit, pos). limit - pos)") auto

function skip_name :: "string \<Rightarrow> nat \<Rightarrow> nat \<Rightarrow> nat" where
  "skip_name path limit pos =
     (if pos < limit \<and> path ! pos \<noteq> CHR ''/'' then skip_name path limit (Suc pos) else pos)"
  by auto
termination by (relation "measure (\<lambda>(_, limit, pos). limit - pos)") auto

declare skip_slash.simps [simp del] skip_name.simps [simp del]

lemma skip_slash_step: "pos < limit \<Longrightarrow> path ! pos = CHR ''/'' \<Longrightarrow> skip_slash path limit pos = skip_slash path limit (Suc pos)"
  by (subst skip_slash.simps) simp

lemma skip_slash_stop: "pos < limit \<longrightarrow> path ! pos \<noteq> CHR ''/'' \<Longrightarrow> skip_slash path limit pos = pos"
  by (subst skip_slash.simps) auto

lemma skip_name_step: "pos < limit \<Longrightarrow> path ! pos \<noteq> CHR ''/'' \<Longrightarrow> skip_name path limit pos = skip_name path limit (Suc pos)"
  by (subst skip_name.simps) simp

lemma skip_name_stop: "pos < limit \<longrightarrow> path ! pos = CHR ''/'' \<Longrightarrow> skip_name path limit pos = pos"
  by (subst skip_name.simps) auto

lemma skip_slash_le: "pos \<le> skip_slash path limit pos"
proof (induction path limit pos rule: skip_slash.induct)
  case (1 path limit pos)
  show ?case
  proof (cases "pos < limit \<and> path ! pos = CHR ''/''")
    case True
    then show ?thesis using 1 skip_slash_step by fastforce
  qed (simp add: skip_slash_stop)
qed

lemma skip_name_le: "pos \<le> skip_name path limit pos"
proof (induction path limit pos rule: skip_name.induct)
  case (1 path limit pos)
  show ?case
  proof (cases "pos < limit \<and> path ! pos \<noteq> CHR ''/''")
    case True
    then show ?thesis using 1 skip_name_step by fastforce
  qed (simp add: skip_name_stop)
qed

lemma skip_advances:
  assumes "pos < limit"
  shows "pos < skip_slash path limit (skip_name path limit pos)"
proof (cases "path ! pos = CHR ''/''")
  case True
  then have "skip_name path limit pos = pos" by (simp add: skip_name.simps [of path limit pos])
  moreover have "skip_slash path limit pos = skip_slash path limit (Suc pos)"
    using assms True by (simp add: skip_slash.simps [of path limit pos])
  ultimately show ?thesis using skip_slash_le [of "Suc pos" path limit] by simp
next
  case False
  then have "skip_name path limit pos = skip_name path limit (Suc pos)"
    using assms by (simp add: skip_name.simps [of path limit pos])
  then show ?thesis
    using skip_name_le [of "Suc pos" path limit] skip_slash_le [of "skip_name path limit pos" path limit] by linarith
qed

text \<open>
  The main loop of \<open>dir_namev\<close>. \<open>cur_node\<close> and \<open>prev_node\<close> are equal whenever the loop starts a round.
\<close>

function namev_loop :: "ext \<Rightarrow> string \<Rightarrow> nat \<Rightarrow> nat \<Rightarrow> vaddr option \<Rightarrow> vaddr option \<Rightarrow> (int \<times> vaddr option \<times> vaddr option) call" where
  "namev_loop X path limit next_pos cur_base cur_node s =
     (if next_pos < limit
      then do {
        let cur_pos = next_pos;
        let next_pos = skip_name path limit next_pos;
        let prev_node = cur_node;
        ((res, found), s) \<leftarrow> lookup X cur_base (Some (take (next_pos - cur_pos) (drop cur_pos path))) s;
        let cur_node = (if found = None then cur_node else found);
        s \<leftarrow> (case prev_node of Some v \<Rightarrow> vput X v s | None \<Rightarrow> Some s);
        if res < 0 then Some ((res, cur_base, cur_node), s)
        else namev_loop X path limit (skip_slash path limit next_pos) cur_node cur_node s }
      else Some ((0, cur_base, cur_node), s))"
  by pat_completeness auto
termination
proof (relation "measure (\<lambda>(_, _, limit, pos, _). limit - pos)", goal_cases)
  case 1
  then show ?case by simp
next
  case (2 X path limit next_pos)
  then show ?case using skip_advances [of next_pos limit path] by auto
qed

declare namev_loop.simps [simp del]

text \<open>\<open>dir_namev\<close> returns the result, and the out-arguments \<open>name_len\<close>, \<open>name\<close> and \<open>res_vnode\<close>.\<close>

definition dir_namev :: "hdr \<Rightarrow> ext \<Rightarrow> string \<Rightarrow> vaddr option \<Rightarrow> (int \<times> nat \<times> string option \<times> vaddr option) call" where
  "dir_namev H X pathname base s = do {
     p \<leftarrow> curproc s;
     let cur_base = (if base = None then p_cwd (procs s p) else base);
     let cur_base = (if pathname \<noteq> [] \<and> hd pathname = CHR ''/'' then vfs_root_vn s else cur_base);
     let dir_index_limit = last_slash pathname (length pathname);
     let name_len = length pathname - nat (dir_index_limit + 1);
     if name_len > NAME_LEN H then Some ((- Err H ENAMETOOLONG, name_len, None, None), s)
     else do {
       let name = (if name_len > 0 then Some (drop (nat (dir_index_limit + 1)) pathname) else None);
       let limit = nat dir_index_limit;
       ((res, cur_base, cur_node), s) \<leftarrow> namev_loop X pathname limit (skip_slash pathname limit 0) cur_base None s;
       if res < 0 then Some ((res, name_len, name, None), s)
       else (case cur_node of
           Some v \<Rightarrow>
             (if fs_op (fs_lookup X) (vn_ops (vnodes s v)) = None
              then do { s \<leftarrow> vput X v s; Some ((- Err H ENOTDIR, name_len, name, None), s) }
              else Some ((0, name_len, name, Some v), s))
         | None \<Rightarrow> do {
             v \<leftarrow> cur_base;
             s \<leftarrow> vref X v s;
             Some ((0, name_len, name, Some v), s) }) } }"

definition open_namev :: "hdr \<Rightarrow> ext \<Rightarrow> string \<Rightarrow> u32 \<Rightarrow> vaddr option \<Rightarrow> (int \<times> vaddr option) call" where
  "open_namev H X pathname flag base s = do {
     ((res, name_len, name, dir_node), s) \<leftarrow> dir_namev H X pathname base s;
     if res < 0 then Some ((res, None), s)
     else if name_len = 0 then Some ((0, dir_node), s)
     else do {
       ((res, res_vnode), s) \<leftarrow> lookup X dir_node name s;
       dir_node \<leftarrow> dir_node;
       if res < 0
       then (if flag AND O_CREAT H \<noteq> 0
             then do {
               create \<leftarrow> fs_op (fs_create X) (vn_ops (vnodes s dir_node));
               name \<leftarrow> name;
               ((res, res_vnode'), s) \<leftarrow> create dir_node name s;
               s \<leftarrow> vput X dir_node s;
               Some ((res, if res_vnode' = None then res_vnode else res_vnode'), s) }
             else do { s \<leftarrow> vput X dir_node s; Some ((res, res_vnode), s) })
       else do { s \<leftarrow> vput X dir_node s; Some ((0, res_vnode), s) } } }"

subsection \<open>The specification of the path walk\<close>

text \<open>
  The names of a path between its slashes, and the walk along a list of names: each name is looked up
  in the vnode found last, whose reference is dropped after the lookup.
\<close>

function components :: "string \<Rightarrow> string list" where
  "components cs = (case dropWhile (\<lambda>c. c = CHR ''/'') cs of
     [] \<Rightarrow> []
   | d # ds \<Rightarrow> (d # takeWhile (\<lambda>c. c \<noteq> CHR ''/'') ds) # components (dropWhile (\<lambda>c. c \<noteq> CHR ''/'') ds))"
  by auto
termination
proof (relation "measure length", goal_cases)
  case (2 cs d ds)
  have "length (dropWhile (\<lambda>c. c \<noteq> CHR ''/'') ds) \<le> length ds" by (rule length_dropWhile_le)
  also have "\<dots> < length (dropWhile (\<lambda>c. c = CHR ''/'') cs)" using 2 by simp
  also have "\<dots> \<le> length cs" by (rule length_dropWhile_le)
  finally show ?case by simp
qed simp

declare components.simps [simp del]

primrec walk :: "ext \<Rightarrow> string list \<Rightarrow> vaddr option \<Rightarrow> vaddr option \<Rightarrow> (int \<times> vaddr option \<times> vaddr option) call" where
  "walk X [] base node s = Some ((0, base, node), s)"
| "walk X (name # names) base node s = do {
     ((res, found), s) \<leftarrow> lookup X base (Some name) s;
     let node' = (if found = None then node else found);
     s \<leftarrow> (case node of Some v \<Rightarrow> vput X v s | None \<Rightarrow> Some s);
     if res < 0 then Some ((res, base, node'), s) else walk X names node' node' s }"

text \<open>The part of a path before its last slash, and what follows it.\<close>

definition dirname :: "string \<Rightarrow> string" where
  "dirname path = rev (tl (dropWhile (\<lambda>c. c \<noteq> CHR ''/'') (rev path)))"

definition basename :: "string \<Rightarrow> string" where
  "basename path = rev (takeWhile (\<lambda>c. c \<noteq> CHR ''/'') (rev path))"

lemma drop_take_step:
  assumes "pos < limit" and "limit \<le> length path"
  shows "drop pos (take limit path) = path ! pos # drop (Suc pos) (take limit path)"
  using assms Cons_nth_drop_Suc [of pos "take limit path"] by simp

lemma skip_slash_dropWhile:
  assumes "limit \<le> length path"
  shows "drop (skip_slash path limit pos) (take limit path) =
     dropWhile (\<lambda>c. c = CHR ''/'') (drop pos (take limit path))"
  using assms
proof (induction path limit pos rule: skip_slash.induct)
  case (1 path limit pos)
  show ?case
  proof (cases "pos < limit \<and> path ! pos = CHR ''/''")
    case True
    then have "drop pos (take limit path) = CHR ''/'' # drop (Suc pos) (take limit path)"
      using drop_take_step [of pos limit path] 1(2) by simp
    then show ?thesis using 1 True by (simp add: skip_slash_step)
  next
    case False
    then have "dropWhile (\<lambda>c. c = CHR ''/'') (drop pos (take limit path)) = drop pos (take limit path)"
      using drop_take_step [of pos limit path] 1(2) by (cases "pos < limit") simp_all
    then show ?thesis using False by (simp add: skip_slash_stop)
  qed
qed

lemma skip_name_dropWhile:
  assumes "limit \<le> length path"
  shows "drop (skip_name path limit pos) (take limit path) =
     dropWhile (\<lambda>c. c \<noteq> CHR ''/'') (drop pos (take limit path))"
  using assms
proof (induction path limit pos rule: skip_name.induct)
  case (1 path limit pos)
  show ?case
  proof (cases "pos < limit \<and> path ! pos \<noteq> CHR ''/''")
    case True
    then show ?thesis using 1 drop_take_step [of pos limit path] by (simp add: skip_name_step)
  next
    case False
    then have "dropWhile (\<lambda>c. c \<noteq> CHR ''/'') (drop pos (take limit path)) = drop pos (take limit path)"
      using drop_take_step [of pos limit path] 1(2) by (cases "pos < limit") simp_all
    then show ?thesis using False by (simp add: skip_name_stop)
  qed
qed

lemma skip_name_takeWhile:
  assumes "limit \<le> length path"
  shows "take (skip_name path limit pos - pos) (drop pos path) =
     takeWhile (\<lambda>c. c \<noteq> CHR ''/'') (drop pos (take limit path))"
  using assms
proof (induction path limit pos rule: skip_name.induct)
  case (1 path limit pos)
  show ?case
  proof (cases "pos < limit \<and> path ! pos \<noteq> CHR ''/''")
    case True
    have "drop pos path = path ! pos # drop (Suc pos) path" using True 1(2) by (simp add: Cons_nth_drop_Suc)
    moreover have "skip_name path limit pos - pos = Suc (skip_name path limit (Suc pos) - Suc pos)"
      using True skip_name_le [of "Suc pos" path limit] by (simp add: skip_name_step)
    ultimately show ?thesis using 1 True drop_take_step [of pos limit path] by simp
  next
    case False
    then have "takeWhile (\<lambda>c. c \<noteq> CHR ''/'') (drop pos (take limit path)) = []"
      using drop_take_step [of pos limit path] 1(2) by (cases "pos < limit") simp_all
    then show ?thesis using False by (simp add: skip_name_stop)
  qed
qed

lemma components_split:
  assumes "limit \<le> length path" and "pos < limit" and "path ! pos \<noteq> CHR ''/''"
  shows "components (drop pos (take limit path)) = take (skip_name path limit pos - pos) (drop pos path) #
     components (drop (skip_slash path limit (skip_name path limit pos)) (take limit path))"
proof -
  let ?n = "skip_name path limit pos" and ?p = "skip_slash path limit (skip_name path limit pos)"
  let ?ds = "drop pos (take limit path)"
  obtain d ds where d: "?ds = d # ds" and nd: "d \<noteq> CHR ''/''" using drop_take_step [OF assms(2,1)] assms(3) by blast
  have "components ?ds = (d # takeWhile (\<lambda>c. c \<noteq> CHR ''/'') ds) # components (dropWhile (\<lambda>c. c \<noteq> CHR ''/'') ds)"
    using d nd by (subst components.simps) simp
  moreover have "dropWhile (\<lambda>c. c \<noteq> CHR ''/'') ds = drop ?n (take limit path)"
    using skip_name_dropWhile [OF assms(1), of pos] d nd by simp
  moreover have "components (drop ?n (take limit path)) = components (drop ?p (take limit path))"
    unfolding skip_slash_dropWhile [OF assms(1)] by (subst (1 2) components.simps) simp
  ultimately show ?thesis using skip_name_takeWhile [OF assms(1), of pos] d nd by simp
qed

lemma skip_slash_at:
  assumes "limit \<le> length path" and "skip_slash path limit pos < limit"
  shows "path ! skip_slash path limit pos \<noteq> CHR ''/''"
proof -
  let ?p = "skip_slash path limit pos"
  have "dropWhile (\<lambda>c. c = CHR ''/'') (drop pos (take limit path)) = path ! ?p # drop (Suc ?p) (take limit path)"
    using skip_slash_dropWhile [OF assms(1), of pos] drop_take_step [OF assms(2,1)] by simp
  then show ?thesis using hd_dropWhile [of "\<lambda>c. c = CHR ''/''" "drop pos (take limit path)"] by simp
qed

lemma namev_loop_walk:
  assumes "limit \<le> length path" and "pos < limit \<Longrightarrow> path ! pos \<noteq> CHR ''/''"
  shows "namev_loop X path limit pos base node s = walk X (components (drop pos (take limit path))) base node s"
  using assms(2)
proof (induction "limit - pos" arbitrary: pos base node s rule: less_induct)
  case less
  let ?n = "skip_name path limit pos" and ?p = "skip_slash path limit (skip_name path limit pos)"
  show ?case
  proof (cases "pos < limit")
    case False
    then show ?thesis by (subst namev_loop.simps, subst components.simps) simp
  next
    case True
    have "limit - ?p < limit - pos" using skip_advances [OF True, of path] True by linarith
    then have IH: "namev_loop X path limit ?p b n t = walk X (components (drop ?p (take limit path))) b n t" for b n t
      using less.hyps skip_slash_at [OF assms(1)] by blast
    show ?thesis
      unfolding components_split [OF assms(1) True less.prems [OF True]] walk.simps IH [symmetric]
      using True by (subst namev_loop.simps) (simp add: Let_def)
  qed
qed

lemma last_slash_none: "CHR ''/'' \<notin> set path \<Longrightarrow> n \<le> length path \<Longrightarrow> last_slash path n = - 1"
  by (induction n) (auto simp: in_set_conv_nth)

lemma last_slash_some:
  assumes "CHR ''/'' \<notin> set nm" and "k \<le> length nm"
  shows "last_slash (dir @ CHR ''/'' # nm) (Suc (length dir) + k) = int (length dir)"
  using assms(2)
proof (induction k)
  case (Suc k)
  then have "nm ! k \<noteq> CHR ''/''" using assms(1) by (auto simp: in_set_conv_nth)
  then show ?case using Suc by (simp add: nth_append)
qed simp

lemma path_cases:
  obtains (plain) "CHR ''/'' \<notin> set path" and "dirname path = []" and "basename path = path"
    and "last_slash path (length path) = - 1"
  | (slash) dir nm where "path = dir @ CHR ''/'' # nm" and "CHR ''/'' \<notin> set nm" and "dirname path = dir"
    and "basename path = nm" and "last_slash path (length path) = int (length dir)"
proof (cases "CHR ''/'' \<in> set path")
  case False
  then have t: "takeWhile (\<lambda>c. c \<noteq> CHR ''/'') (rev path) = rev path" and d: "dropWhile (\<lambda>c. c \<noteq> CHR ''/'') (rev path) = []"
    by (auto simp: takeWhile_eq_all_conv)
  show ?thesis
  proof (rule plain)
    show "dirname path = []" "basename path = path" unfolding dirname_def basename_def d t by simp_all
    show "last_slash path (length path) = - 1" using False by (rule last_slash_none) simp
  qed (rule False)
next
  case True
  then obtain dir nm where p: "path = dir @ CHR ''/'' # nm" "CHR ''/'' \<notin> set nm" by (metis split_list_last)
  then have n: "c \<noteq> CHR ''/''" if "c \<in> set (rev nm)" for c using that by auto
  have "takeWhile (\<lambda>c. c \<noteq> CHR ''/'') (rev path) = rev nm"
    "dropWhile (\<lambda>c. c \<noteq> CHR ''/'') (rev path) = CHR ''/'' # rev dir"
    using takeWhile_append2 [of "rev nm" "\<lambda>c. c \<noteq> CHR ''/''" "CHR ''/'' # rev dir", OF n]
      dropWhile_append2 [of "rev nm" "\<lambda>c. c \<noteq> CHR ''/''" "CHR ''/'' # rev dir", OF n] p(1) by simp_all
  then show ?thesis
    using slash [of dir nm] p last_slash_some [of nm "length nm" dir] by (simp add: dirname_def basename_def)
qed

text \<open>The specification of \<open>dir_namev\<close>: walk along the names of the directory part.\<close>

definition namev_spec :: "hdr \<Rightarrow> ext \<Rightarrow> string \<Rightarrow> vaddr option \<Rightarrow> (int \<times> nat \<times> string option \<times> vaddr option) call" where
  "namev_spec H X path base s = do {
     p \<leftarrow> curproc s;
     let start = (if \<exists>rest. path = CHR ''/'' # rest then vfs_root_vn s
                  else if base = None then p_cwd (procs s p) else base);
     let name = (if basename path = [] then None else Some (basename path));
     if length (basename path) > NAME_LEN H then Some ((- Err H ENAMETOOLONG, length (basename path), None, None), s)
     else do {
       ((res, last_dir, node), s) \<leftarrow> walk X (components (dirname path)) start None s;
       if res < 0 then Some ((res, length (basename path), name, None), s)
       else (case node of
           None \<Rightarrow> do { v \<leftarrow> last_dir; s \<leftarrow> vref X v s; Some ((0, length (basename path), name, Some v), s) }
         | Some v \<Rightarrow>
             (if fs_op (fs_lookup X) (vn_ops (vnodes s v)) = None
              then do { s \<leftarrow> vput X v s; Some ((- Err H ENOTDIR, length (basename path), name, None), s) }
              else Some ((0, length (basename path), name, Some v), s))) } }"

lemma dir_namev_spec: "dir_namev H X path base s = namev_spec H X path base s"
proof -
  let ?i = "last_slash path (length path)"
  have root: "(\<exists>rest. path = CHR ''/'' # rest) \<longleftrightarrow> path \<noteq> [] \<and> hd path = CHR ''/''" by (cases path) auto
  have parts: "nat ?i \<le> length path" "take (nat ?i) path = dirname path" "drop (nat (?i + 1)) path = basename path"
     "length path - nat (?i + 1) = length (basename path)"
    by (cases path rule: path_cases; simp add: nat_add_distrib)+
  have loop: "namev_loop X path (nat ?i) (skip_slash path (nat ?i) 0) b None s = walk X (components (dirname path)) b None s" for b
  proof -
    have "namev_loop X path (nat ?i) (skip_slash path (nat ?i) 0) b None s =
        walk X (components (drop (skip_slash path (nat ?i) 0) (take (nat ?i) path))) b None s"
      using skip_slash_at [OF parts(1)] by (intro namev_loop_walk [OF parts(1)])
    also have "drop (skip_slash path (nat ?i) 0) (take (nat ?i) path) = dropWhile (\<lambda>c. c = CHR ''/'') (dirname path)"
      using skip_slash_dropWhile [OF parts(1), of 0] parts(2) by simp
    also have "components (dropWhile (\<lambda>c. c = CHR ''/'') (dirname path)) = components (dirname path)"
      by (subst (1 2) components.simps) simp
    finally show ?thesis .
  qed
  show ?thesis
    unfolding dir_namev_def namev_spec_def Let_def loop parts root length_greater_0_conv
    by (simp cong: option.case_cong)
qed

text \<open>
  C7: the index arithmetic of \<open>dir_namev\<close> is right. For every path (empty, without a slash, with
  leading, repeated or trailing slashes) it looks up, in this order, exactly the non-empty names of the
  part of the path before its last slash, starting at the root for a path that begins with a slash, and
  the name it returns is what follows the last slash.
\<close>

theorem dir_namev_walks_components: "dir_namev H X path base s = namev_spec H X path base s"
  by (rule dir_namev_spec)

subsection \<open>Reference counts\<close>

definition refs :: "kernel \<Rightarrow> vaddr \<Rightarrow> int" where
  "refs s v = vn_refcount (vnodes s v)"

text \<open>\<open>one r v\<close> is the reference that a result \<open>r\<close> holds on the vnode \<open>v\<close>.\<close>

definition one :: "vaddr option \<Rightarrow> vaddr \<Rightarrow> int" where
  "one r v = of_bool (r = Some v)"

lemma one_simps [simp]: "one None v = 0" "one (Some w) v = of_bool (w = v)"
  by (simp_all add: one_def)

text \<open>
  The documented behaviour of \<open>vref\<close>, \<open>vput\<close> and the vnode operations towards reference counts:
  \<open>vref\<close> adds one and \<open>vput\<close> takes one away; \<open>lookup\<close> and \<open>create\<close> return 0 and the vnode with its count
  incremented, or an error; the other operations, and the ones that fail, leave the counts as they
  were. None of them changes the processes, the open files or the root.
\<close>

definition frame :: "kernel \<Rightarrow> kernel \<Rightarrow> bool" where
  "frame s s' \<longleftrightarrow> curproc s' = curproc s \<and> procs s' = procs s \<and> files s' = files s \<and> vfs_root_vn s' = vfs_root_vn s"

lemma frame_refl [simp]: "frame s s"
  by (simp add: frame_def)

lemma frame_trans: "frame r s \<Longrightarrow> frame s t \<Longrightarrow> frame r t"
  by (simp add: frame_def)

definition found_ok :: "(vaddr \<Rightarrow> string \<Rightarrow> (int \<times> vaddr option) call) \<Rightarrow> bool" where
  "found_ok f \<longleftrightarrow> (\<forall>dir name s r v s'. f dir name s = Some ((r, v), s') \<longrightarrow>
     r \<le> 0 \<and> frame s s' \<and> (r < 0 \<longrightarrow> refs s' = refs s) \<and>
     (r = 0 \<longrightarrow> v \<noteq> None \<and> (\<forall>w. refs s' w = refs s w + one v w)))"

definition neutral :: "'a call \<Rightarrow> bool" where
  "neutral f \<longleftrightarrow> (\<forall>s r s'. f s = Some (r, s') \<longrightarrow> refs s' = refs s \<and> frame s s')"

definition vfs_api_ok :: "ext \<Rightarrow> bool" where
  "vfs_api_ok X \<longleftrightarrow>
     (\<forall>v s s'. vref X v s = Some s' \<longrightarrow> frame s s' \<and> (\<forall>w. refs s' w = refs s w + one (Some v) w)) \<and>
     (\<forall>v s s'. vput X v s = Some s' \<longrightarrow> frame s s' \<and> (\<forall>w. refs s' w = refs s w - one (Some v) w)) \<and>
     (\<forall>i f. fs_lookup X i = Some f \<longrightarrow> found_ok f) \<and> (\<forall>i f. fs_create X i = Some f \<longrightarrow> found_ok f) \<and>
     (\<forall>i f d n m e. fs_mknod X i = Some f \<longrightarrow> neutral (f d n m e)) \<and>
     (\<forall>i f v d n. fs_link X i = Some f \<longrightarrow> neutral (f v d n)) \<and>
     (\<forall>i f d n. fs_unlink X i = Some f \<longrightarrow> neutral (f d n)) \<and>
     (\<forall>i f d n. fs_mkdir X i = Some f \<longrightarrow> neutral (f d n)) \<and>
     (\<forall>i f d n. fs_rmdir X i = Some f \<longrightarrow> neutral (f d n)) \<and>
     (\<forall>i f v. fs_stat X i = Some f \<longrightarrow> neutral (f v))"

lemma vfs_api:
  assumes "vfs_api_ok X"
  shows "vref X v s = Some s' \<Longrightarrow> refs s' w = refs s w + one (Some v) w"
    "vput X v s = Some s' \<Longrightarrow> refs s' w = refs s w - one (Some v) w"
    "fs_op (fs_create X) ops = Some f \<Longrightarrow> found_ok f" "fs_op (fs_lookup X) ops = Some f \<Longrightarrow> found_ok f"
    "fs_op (fs_mknod X) ops = Some f3 \<Longrightarrow> neutral (f3 d n m e)" "fs_op (fs_link X) ops = Some f4 \<Longrightarrow> neutral (f4 v d n)"
    "fs_op (fs_unlink X) ops = Some f5 \<Longrightarrow> neutral (f5 d n)" "fs_op (fs_mkdir X) ops = Some f6 \<Longrightarrow> neutral (f6 d n)"
    "fs_op (fs_rmdir X) ops = Some f7 \<Longrightarrow> neutral (f7 d n)" "vop_stat X ops = Some f8 \<Longrightarrow> neutral (f8 v)"
    "vref X v s = Some s' \<Longrightarrow> frame s s'" "vput X v s = Some s' \<Longrightarrow> frame s s'"
proof -
  have stat: "fs_stat X i = Some f \<Longrightarrow> neutral (f v)" for i f v using assms by (simp add: vfs_api_ok_def)
  have "neutral (special_file_stat X v)"
    unfolding neutral_def
  proof (intro allI impI)
    fix s r s' assume "special_file_stat X v s = Some (r, s')"
    then obtain root where "(case vn_ops (vnodes s root) of Fs_vops i \<Rightarrow> do { stat \<leftarrow> fs_stat X i; stat v s } | _ \<Rightarrow> None) = Some (r, s')"
      by (auto simp: special_file_stat_def bind_Some_iff)
    then show "refs s' = refs s \<and> frame s s'" using stat by (cases "vn_ops (vnodes s root)") (auto simp: bind_Some_iff neutral_def)
  qed
  then show "vop_stat X ops = Some f8 \<Longrightarrow> neutral (f8 v)"
    using stat by (auto simp: vop_stat_def split: vnode_ops.splits)
qed (use assms in \<open>auto simp: vfs_api_ok_def fs_op_def split: vnode_ops.splits\<close>)

lemma neutralD:
  assumes "neutral f" and "f s = Some (r, s')"
  shows "refs s' = refs s" and "frame s s'"
  using assms by (simp_all add: neutral_def)

lemma lookup_refs:
  assumes "vfs_api_ok X" and "lookup X dir name s = Some ((r, v), s')"
  shows "refs s' w = refs s w + (if r < 0 then 0 else one v w)" and "\<not> r < 0 \<Longrightarrow> v \<noteq> None \<and> r = 0" and "frame s s'"
proof -
  obtain d n f where f: "fs_op (fs_lookup X) (vn_ops (vnodes s d)) = Some f" "f d n s = Some ((r, v), s')"
    using assms(2) by (auto simp: lookup_def bind_Some_iff)
  have ok: "found_ok f" by (rule vfs_api(4) [OF assms(1) f(1)])
  have "r \<le> 0 \<and> frame s s' \<and> (r < 0 \<longrightarrow> refs s' = refs s) \<and> (r = 0 \<longrightarrow> v \<noteq> None \<and> (\<forall>w. refs s' w = refs s w + one v w))"
    using ok f(2) unfolding found_ok_def by blast
  then show "refs s' w = refs s w + (if r < 0 then 0 else one v w)" "\<not> r < 0 \<Longrightarrow> v \<noteq> None \<and> r = 0" "frame s s'"
    by (cases "r < 0"; simp)+
qed

lemma walk_refs:
  assumes api: "vfs_api_ok X" and run: "walk X names base node s = Some ((r, b, v), s')"
  shows "refs s' w = refs s w - one node w + (if r < 0 then 0 else one v w) \<and> frame s s' \<and> r \<le> 0"
  using run
proof (induction names arbitrary: base node s)
  case Nil
  then show ?case by simp
next
  case (Cons name names)
  obtain r1 v1 s1 where look: "lookup X base (Some name) s = Some ((r1, v1), s1)"
    using Cons.prems by (fastforce simp: bind_Some_iff)
  obtain s2 where put: "(case node of Some u \<Rightarrow> vput X u s1 | None \<Rightarrow> Some s1) = Some s2"
    using Cons.prems look by (fastforce simp: bind_Some_iff Let_def)
  let ?n = "if v1 = None then node else v1"
  have rest: "(if r1 < 0 then Some ((r1, base, ?n), s2) else walk X names ?n ?n s2) = Some ((r, b, v), s')"
    using Cons.prems look put by (simp add: Let_def)
  have s2: "refs s2 w = refs s1 w - one node w" "frame s1 s2" using put vfs_api(2,12) [OF api] by (cases node; auto)+
  note l = lookup_refs [OF api look]
  have f: "frame s s2" by (rule frame_trans [OF l(3) s2(2)])
  show ?case
  proof (cases "r1 < 0")
    case True
    then show ?thesis using rest l(1) [of w] s2 f by auto
  next
    case False
    then have n: "?n = v1" using l(2) by auto
    show ?thesis using Cons.IH [of ?n ?n s2] rest False l(1) [of w] s2 n f frame_trans [OF f, of s'] by simp
  qed
qed

lemma dir_namev_refs:
  assumes api: "vfs_api_ok X" and err: "errnos_ok (Err H)" and run: "dir_namev H X path base s = Some ((r, len, name, v), s')"
  shows "refs s' w = refs s w + (if r < 0 then 0 else one v w)" and "\<not> r < 0 \<Longrightarrow> v \<noteq> None \<and> r = 0" and "frame s s'"
    and "r < 0 \<Longrightarrow> v = None"
proof -
  have spec: "namev_spec H X path base s = Some ((r, len, name, v), s')" using run unfolding dir_namev_spec .
  obtain p where p: "curproc s = Some p" using spec by (auto simp: namev_spec_def bind_Some_iff)
  let ?b = "if \<exists>rest. path = CHR ''/'' # rest then vfs_root_vn s else if base = None then p_cwd (procs s p) else base"
  let ?P = "(refs s' w = refs s w + (if r < 0 then 0 else one v w)) \<and> (\<not> r < 0 \<longrightarrow> v \<noteq> None \<and> r = 0) \<and> frame s s' \<and> (r < 0 \<longrightarrow> v = None)"
  have ?P
  proof (cases "length (basename path) > NAME_LEN H")
    case True
    then show ?thesis using spec p err by (auto simp: namev_spec_def)
  next
    case False
    then obtain r1 b1 v1 s1 where w: "walk X (components (dirname path)) ?b None s = Some ((r1, b1, v1), s1)"
      using spec p by (fastforce simp: namev_spec_def bind_Some_iff Let_def)
    have refs1: "refs s1 w = refs s w + (if r1 < 0 then 0 else one v1 w)" "frame s s1"
      using walk_refs [OF api w, of w] by simp_all
    note eq = spec [unfolded namev_spec_def p bind.simps Let_def w]
    show ?thesis
    proof (cases "r1 < 0")
      case True
      then show ?thesis using eq False refs1 by auto
    next
      case nonneg: False
      show ?thesis
      proof (cases v1)
        case None
        then show ?thesis
          using eq False nonneg refs1 vfs_api(1) [OF api] frame_trans [OF refs1(2) vfs_api(11) [OF api]]
          by (auto simp: bind_Some_iff)
      next
        case (Some u)
        then show ?thesis
          using eq False nonneg refs1 vfs_api(2) [OF api, of u s1 s' w] frame_trans [OF refs1(2) vfs_api(12) [OF api, of u]] err
          by (auto simp: bind_Some_iff split: if_splits)
      qed
    qed
  qed
  then show "refs s' w = refs s w + (if r < 0 then 0 else one v w)" "\<not> r < 0 \<Longrightarrow> v \<noteq> None \<and> r = 0" "frame s s'" "r < 0 \<Longrightarrow> v = None"
    by blast+
qed

lemma open_namev_refs:
  assumes api: "vfs_api_ok X" and err: "errnos_ok (Err H)" and run: "open_namev H X path flag base s = Some ((r, v), s')"
  shows "refs s' w = refs s w + (if r < 0 then 0 else one v w)" and "\<not> r < 0 \<Longrightarrow> v \<noteq> None \<and> r = 0" and "frame s s'"
proof -
  obtain r1 len name dir s1 where d: "dir_namev H X path base s = Some ((r1, len, name, dir), s1)"
    using run by (fastforce simp: open_namev_def bind_Some_iff)
  note d' = dir_namev_refs [OF api err d]
  note eq = run [unfolded open_namev_def d bind.simps prod.case]
  have "(refs s' w = refs s w + (if r < 0 then 0 else one v w)) \<and> (\<not> r < 0 \<longrightarrow> v \<noteq> None \<and> r = 0) \<and> frame s s'"
  proof (cases "r1 < 0 \<or> len = 0")
    case True
    then show ?thesis using eq d'(1) [of w] d'(2,3) by (auto split: if_splits)
  next
    case False
    then have "lookup X dir name s1 \<noteq> None" using eq by (cases "lookup X dir name s1") simp_all
    then obtain r2 v2 s2 where l: "lookup X dir name s1 = Some ((r2, v2), s2)" by (metis not_None_eq prod.collapse)
    obtain dn where dn: "dir = Some dn" using d'(2) False by auto
    note l' = lookup_refs [OF api l]
    have f2: "frame s s2" by (rule frame_trans [OF d'(3) l'(3)])
    show ?thesis
    proof (cases "r2 < 0 \<and> flag AND O_CREAT H \<noteq> 0")
      case True
      then obtain f n r3 v3 s3 where c: "fs_op (fs_create X) (vn_ops (vnodes s2 dn)) = Some f" "name = Some n"
          "f dn n s2 = Some ((r3, v3), s3)" "vput X dn s3 = Some s'" "r = r3" "v = (if v3 = None then v2 else v3)"
        using eq False l dn by (auto simp: bind_Some_iff)
      have "found_ok f" by (rule vfs_api(3) [OF api c(1)])
      then have c3: "r3 \<le> 0 \<and> frame s2 s3 \<and> (r3 < 0 \<longrightarrow> refs s3 = refs s2) \<and> (r3 = 0 \<longrightarrow> v3 \<noteq> None \<and> (\<forall>w. refs s3 w = refs s2 w + one v3 w))"
        using c(3) unfolding found_ok_def by blast
      have "frame s s'" using frame_trans [OF f2] frame_trans [of s s3 s'] c3 vfs_api(12) [OF api c(4)] by blast
      then show ?thesis
        using True c(5,6) c3 l'(1) [of w] d'(1) [of w] False dn vfs_api(2) [OF api c(4), of w] by (cases "r3 < 0") auto
    next
      case nocreate: False
      have put: "vput X dn s2 = Some s'" and v: "v = v2" and r: "r = (if r2 < 0 then r2 else 0)"
        using eq False l dn nocreate by (auto simp: bind_Some_iff split: if_splits)
      show ?thesis
        using vfs_api(2) [OF api put, of w] l'(1) [of w] l'(2) d'(1) [of w] False dn v r
          frame_trans [OF f2 vfs_api(12) [OF api put]] by auto
    qed
  qed
  then show "refs s' w = refs s w + (if r < 0 then 0 else one v w)" "\<not> r < 0 \<Longrightarrow> v \<noteq> None \<and> r = 0" "frame s s'" by blast+
qed

text \<open>
  C17: path resolution loses and gains no reference. Whenever \<open>open_namev\<close> returns, whether it found the
  file, created it or failed anywhere along the path, the reference count of every vnode is as before,
  but for the vnode it returns on success, which has one reference more.
\<close>

theorem open_namev_references:
  assumes "vfs_api_ok X" and "errnos_ok (Err H)" and "open_namev H X path flag base s = Some ((r, v), s')"
  shows "refs s' w = refs s w + (if r < 0 then 0 else one v w)"
  by (rule open_namev_refs(1) [OF assms])

text \<open>
  An example: a file system with the root directory 10, its directory \<open>a\<close> (11) and the file \<open>b\<close> in
  it (12). Files have no \<open>lookup\<close>.
\<close>

definition tiny_child :: "vaddr \<Rightarrow> string \<Rightarrow> vaddr option" where
  "tiny_child dir name = (if dir = 10 \<and> name = ''a'' then Some 11 else if dir = 11 \<and> name = ''b'' then Some 12 else None)"

definition tiny_fs :: ext where
  "tiny_fs = std_ext\<lparr>
     fs_lookup := (\<lambda>i. if i = 0 then Some (\<lambda>dir name s. case tiny_child dir name of
         Some v \<Rightarrow> Some ((0, Some v), upd_vnode v (\<lambda>x. x\<lparr>vn_refcount := vn_refcount x + 1\<rparr>) s)
       | None \<Rightarrow> Some ((- std_errnos ENOENT, None), s)) else None),
     fs_create := (\<lambda>i. if i = 0 then Some (\<lambda>dir name s. Some ((0, Some 13), upd_vnode 13 (\<lambda>x. x\<lparr>vn_refcount := vn_refcount x + 1\<rparr>) s)) else None),
     fs_mkdir := (\<lambda>i. if i = 0 then Some (\<lambda>dir name s. Some (0, s)) else None),
     fs_rmdir := (\<lambda>i. if i = 0 then Some (\<lambda>dir name s. Some (0, s)) else None),
     fs_unlink := (\<lambda>i. if i = 0 then Some (\<lambda>dir name s. Some (0, s)) else None),
     fs_link := (\<lambda>i. if i = 0 then Some (\<lambda>v dir name s. Some (0, s)) else None),
     fs_mknod := (\<lambda>i. if i = 0 then Some (\<lambda>dir name m d s. Some (0, s)) else None),
     fs_stat := (\<lambda>i. Some (\<lambda>v s. Some (0, s)))\<rparr>"

definition tiny_vnode :: "nat \<Rightarrow> u32 \<Rightarrow> vnode" where
  "tiny_vnode i mode = \<lparr>vn_ops = Fs_vops i, vn_mode = mode, vn_refcount = 1, vn_len = 0, vn_devid = 0,
                   vn_cdev = None, vn_bdev = None, vn_fs_root = Some 10\<rparr>"

definition tiny_kernel :: kernel where
  "tiny_kernel = boot\<lparr>procs := (\<lambda>_. blank_proc\<lparr>p_cwd := Some 11\<rparr>), vfs_root_vn := Some 10,
     vnodes := (\<lambda>v. if v = 10 \<or> v = 11 then tiny_vnode 0 0x4000 else tiny_vnode 1 0x8000)\<rparr>"

lemma refs_upd_vnode [simp]:
  "refs (upd_vnode v (\<lambda>x. x\<lparr>vn_refcount := vn_refcount x + k\<rparr>) s) w = refs s w + (if v = w then k else 0)"
  "refs (upd_vnode v (\<lambda>x. x\<lparr>vn_refcount := vn_refcount x - k\<rparr>) s) w = refs s w - (if v = w then k else 0)"
  by (simp_all add: refs_def upd_vnode_def)

lemma tiny_fs_ok: "vfs_api_ok tiny_fs"
  by (simp add: vfs_api_ok_def tiny_fs_def std_ext_def found_ok_def neutral_def std_errnos_def frame_def upd_vnode_def refs_def split: option.split)

lemma tiny_kernel_fields [simp]:
  "curproc tiny_kernel = Some 10" "vfs_root_vn tiny_kernel = Some 10" "p_cwd (procs tiny_kernel p) = Some 11"
  "vnodes tiny_kernel v = (if v = 10 \<or> v = 11 then tiny_vnode 0 0x4000 else tiny_vnode 1 0x8000)"
  by (simp_all add: tiny_kernel_def boot_def)

lemmas tiny_simps = tiny_fs_def tiny_child_def fs_op_def tiny_vnode_def std_hdr_def std_ext_def upd_vnode_def
  Let_def namev_spec_def components.simps dirname_def basename_def lookup_def

theorem open_namev_references_witness:
  "\<exists>s'. open_namev std_hdr tiny_fs ''/a//b'' 0 None tiny_kernel = Some ((0, Some 12), s') \<and>
     refs s' 12 = 2 \<and> refs s' 11 = 1 \<and> refs s' 10 = 1"
proof -
  obtain s' where s': "open_namev std_hdr tiny_fs ''/a//b'' 0 None tiny_kernel = Some ((0, Some 12), s')"
    by (simp add: open_namev_def dir_namev_spec tiny_simps)
  have "errnos_ok (Err std_hdr)" by (simp add: std_hdr_def)
  note r = open_namev_references [OF tiny_fs_ok this s']
  have "refs tiny_kernel 12 = 1" "refs tiny_kernel 11 = 1" "refs tiny_kernel 10 = 1"
    by (simp_all add: refs_def tiny_vnode_def)
  then show ?thesis using s' r [of 12] r [of 11] r [of 10] by simp
qed

subsection \<open>A file used as a directory\<close>

lemma lookup_no_entry: "fs_op (fs_lookup X) (vn_ops (vnodes s v)) = None \<Longrightarrow> lookup X (Some v) name s = None"
  by (cases name) (simp_all add: lookup_def)

text \<open>
  C37: a path whose first name is a vnode without a \<open>lookup\<close> operation, that is, a file used as a
  directory. When the file's name is the only one before the last slash, \<open>dir_namev\<close> drops the reference
  and returns \<open>-ENOTDIR\<close>; when another name follows, it calls the missing operation and does not return.
\<close>

theorem dir_namev_file_as_directory:
  assumes "curproc s = Some p" and "path \<noteq> []" and "hd path \<noteq> CHR ''/''"
    and "length (basename path) \<le> NAME_LEN H" and "components (dirname path) = n # ns"
    and "lookup X (Some b) (Some n) s = Some ((0, Some v), s1)" and "fs_op (fs_lookup X) (vn_ops (vnodes s1 v)) = None"
    and "vput X v s1 = Some s2"
  shows "if ns \<noteq> [] then dir_namev H X path (Some b) s = None
    else \<exists>name. dir_namev H X path (Some b) s = Some ((- Err H ENOTDIR, length (basename path), name, None), s2)"
proof -
  have start: "\<not> (\<exists>rest. path = CHR ''/'' # rest)" using assms(2,3) by (cases path) auto
  show ?thesis
    using assms(1,4-8) start lookup_no_entry [OF assms(7)]
    by (cases ns) (simp_all add: dir_namev_spec namev_spec_def Let_def)
qed

theorem dir_namev_file_as_directory_witness:
  "dir_namev std_hdr tiny_fs ''b/x/y'' (Some 11) tiny_kernel = None \<and>
   (\<exists>name s2. dir_namev std_hdr tiny_fs ''b/y'' (Some 11) tiny_kernel = Some ((- 20, 1, name, None), s2))"
proof -
  have c: "components (dirname ''b/x/y'') = [''b'', ''x'']" "components (dirname ''b/y'') = [''b'']"
     "length (basename ''b/x/y'') \<le> NAME_LEN std_hdr" "length (basename ''b/y'') \<le> NAME_LEN std_hdr" "length (basename ''b/y'') = 1"
    by (simp_all add: dirname_def basename_def components.simps std_hdr_def)
  obtain s1 where s1: "lookup tiny_fs (Some 11) (Some ''b'') tiny_kernel = Some ((0, Some 12), s1)"
     "vnodes s1 = (vnodes tiny_kernel)(12 := (vnodes tiny_kernel 12)\<lparr>vn_refcount := 2\<rparr>)"
    by (simp add: lookup_def tiny_fs_def tiny_child_def fs_op_def upd_vnode_def tiny_vnode_def)
  have null: "fs_op (fs_lookup tiny_fs) (vn_ops (vnodes s1 12)) = None"
    by (simp add: s1(2) fs_op_def tiny_fs_def tiny_vnode_def)
  obtain s2 where s2: "vput tiny_fs 12 s1 = Some s2" by (simp add: tiny_fs_def std_ext_def)
  have "std_errnos ENOTDIR = 20" "Err std_hdr = std_errnos" by (simp_all add: std_errnos_def std_hdr_def)
  then show ?thesis
    using dir_namev_file_as_directory [of tiny_kernel 10 "''b/x/y''" std_hdr, OF _ _ _ c(3,1) s1(1) null s2]
      dir_namev_file_as_directory [of tiny_kernel 10 "''b/y''" std_hdr, OF _ _ _ c(4,2) s1(1) null s2] c(5)
    by auto
qed
end
