(* ===== verification/Vfs_Syscall.thy ===== *)
theory Vfs_Syscall
  imports Namev
begin

text \<open>
  Opening files (\<open>kernel/fs/open.c\<close>) and the file system calls (\<open>kernel/fs/vfs_syscall.c\<close>). A
  buffer that a call fills is part of its result. An access to \<open>p_files\<close> outside the table does not
  return. The process of a thread does not change while it is in a call, so \<open>curproc\<close> is read once.
\<close>

subsection \<open>The file descriptor table\<close>

fun empty_fd_loop :: "errnos \<Rightarrow> faddr option list \<Rightarrow> nat \<Rightarrow> int" where
  "empty_fd_loop E [] fd = - E EMFILE"
| "empty_fd_loop E (f # fs) fd = (if f = None then int fd else empty_fd_loop E fs (Suc fd))"

definition get_empty_fd :: "hdr \<Rightarrow> paddr \<Rightarrow> kernel \<Rightarrow> int" where
  "get_empty_fd H p s = empty_fd_loop (Err H) (take (NFILES H) (p_files (procs s p))) 0"

text \<open>\<open>p->p_files[fd]\<close>, read and written.\<close>

definition get_fd :: "paddr \<Rightarrow> int \<Rightarrow> kernel \<Rightarrow> faddr option option" where
  "get_fd p fd s = (if 0 \<le> fd \<and> nat fd < length (p_files (procs s p)) then Some (p_files (procs s p) ! nat fd) else None)"

definition set_fd :: "paddr \<Rightarrow> int \<Rightarrow> faddr option \<Rightarrow> proc_call" where
  "set_fd p fd f s = (if 0 \<le> fd \<and> nat fd < length (p_files (procs s p))
     then Some (upd_proc p (\<lambda>q. q\<lparr>p_files := (p_files q)[nat fd := f]\<rparr>) s) else None)"

subsection \<open>Opening a file\<close>

definition open_mode :: "hdr \<Rightarrow> u32 \<Rightarrow> u32" where
  "open_mode H oflags =
     (if oflags = O_RDONLY H then FMODE_READ H else 0) OR
     (if oflags AND O_WRONLY H \<noteq> 0 then FMODE_WRITE H else 0) OR
     (if oflags AND O_RDWR H \<noteq> 0 then FMODE_READ H OR FMODE_WRITE H else 0) OR
     (if oflags AND O_APPEND H \<noteq> 0 then FMODE_APPEND H else 0)"

definition do_open :: "hdr \<Rightarrow> ext \<Rightarrow> string \<Rightarrow> u32 \<Rightarrow> int call" where
  "do_open H X filename oflags s = (
     if oflags AND O_WRONLY H \<noteq> 0 \<and> oflags AND O_RDWR H \<noteq> 0 then Some (- Err H EINVAL, s)
     else do {
       p \<leftarrow> curproc s;
       let fd = get_empty_fd H p s;
       (file, s) \<leftarrow> fget X (- 1) s;
       s \<leftarrow> set_fd p fd file s;
       file \<leftarrow> file;
       let s = upd_file file (\<lambda>f. f\<lparr>f_mode := open_mode H oflags\<rparr>) s;
       ((res, vnode), s) \<leftarrow> open_namev H X filename oflags None s;
       if res < 0
       then do {
         s \<leftarrow> fput X file s;
         s \<leftarrow> set_fd p fd None s;
         Some (res, s) }
       else do {
         vnode \<leftarrow> vnode;
         if S_ISDIR H (vn_mode (vnodes s vnode)) \<and> (oflags AND O_WRONLY H \<noteq> 0 \<or> oflags AND O_RDWR H \<noteq> 0)
         then do {
           s \<leftarrow> vput X vnode s;
           s \<leftarrow> fput X file s;
           s \<leftarrow> set_fd p fd None s;
           Some (- Err H EISDIR, s) }
         else Some (fd, upd_file file (\<lambda>f. f\<lparr>f_vnode := Some vnode, f_pos := 0\<rparr>) s) } })"

subsection \<open>Reading, writing and positioning\<close>

definition do_read :: "hdr \<Rightarrow> ext \<Rightarrow> int \<Rightarrow> nat \<Rightarrow> (int \<times> 8 word list) call" where
  "do_read H X fd nbytes s = do {
     (file, s) \<leftarrow> fget X fd s;
     (case file of
        None \<Rightarrow> Some ((- Err H EBADF, []), s)
      | Some file \<Rightarrow>
          (if \<exists>v. f_vnode (files s file) = Some v \<and> S_ISDIR H (vn_mode (vnodes s v))
           then do { s \<leftarrow> fput X file s; Some ((- Err H EISDIR, []), s) }
           else if f_mode (files s file) AND FMODE_READ H = 0
           then do { s \<leftarrow> fput X file s; Some ((- Err H EBADF, []), s) }
           else do {
             v \<leftarrow> f_vnode (files s file);
             read \<leftarrow> vop_read H X (vn_ops (vnodes s v));
             ((bytes_read, buf), s) \<leftarrow> read v (f_pos (files s file)) nbytes s;
             let s = (if bytes_read \<ge> 0
                      then upd_file file (\<lambda>f. f\<lparr>f_pos := int32 (f_pos f + bytes_read)\<rparr>) s else s);
             s \<leftarrow> fput X file s;
             Some ((bytes_read, buf), s) })) }"

definition do_lseek :: "hdr \<Rightarrow> ext \<Rightarrow> int \<Rightarrow> int \<Rightarrow> int \<Rightarrow> int call" where
  "do_lseek H X fd offset whence s = (
     if fd < 0 \<or> fd \<ge> int (NFILES H) then Some (- Err H EBADF, s)
     else do {
       (file, s) \<leftarrow> fget X fd s;
       (case file of
          None \<Rightarrow> Some (- Err H EBADF, s)
        | Some file \<Rightarrow> do {
            new_pos \<leftarrow>
              (if whence = SEEK_SET H then Some (Some offset)
               else if whence = SEEK_CUR H then Some (Some (int32 (f_pos (files s file) + offset)))
               else if whence = SEEK_END H
               then do { v \<leftarrow> f_vnode (files s file); Some (Some (int32 (vn_len (vnodes s v) + offset))) }
               else Some None);
            (case new_pos of
               None \<Rightarrow> do { s \<leftarrow> fput X file s; Some (- Err H EINVAL, s) }
             | Some new_pos \<Rightarrow>
                 (if new_pos < 0 then do { s \<leftarrow> fput X file s; Some (- Err H EINVAL, s) }
                  else do {
                    s \<leftarrow> fput X file (upd_file file (\<lambda>f. f\<lparr>f_pos := new_pos\<rparr>) s);
                    Some (new_pos, s) })) }) })"

definition do_write :: "hdr \<Rightarrow> ext \<Rightarrow> int \<Rightarrow> 8 word list \<Rightarrow> int call" where
  "do_write H X fd buf s = do {
     (file, s) \<leftarrow> fget X fd s;
     (case file of
        None \<Rightarrow> Some (- Err H EBADF, s)
      | Some file \<Rightarrow>
          (if f_mode (files s file) AND FMODE_WRITE H = 0
           then do { s \<leftarrow> fput X file s; Some (- Err H EBADF, s) }
           else do {
             s \<leftarrow> (if f_mode (files s file) AND FMODE_APPEND H \<noteq> 0
                   then do { (_, s) \<leftarrow> do_lseek H X fd 0 (SEEK_END H) s; Some s }
                   else Some s);
             v \<leftarrow> f_vnode (files s file);
             write \<leftarrow> vop_write H X (vn_ops (vnodes s v));
             (bytes_written, s) \<leftarrow> write v (f_pos (files s file)) buf s;
             s \<leftarrow> (if bytes_written \<ge> 0
                   then do {
                     let s = upd_file file (\<lambda>f. f\<lparr>f_pos := int32 (f_pos f + bytes_written)\<rparr>) s;
                     v \<leftarrow> f_vnode (files s file);
                     let m = vn_mode (vnodes s v);
                     KASSERT (S_ISCHR H m \<or> S_ISBLK H m \<or>
                              S_ISREG H m \<and> f_pos (files s file) \<le> vn_len (vnodes s v));
                     Some s }
                   else Some s);
             s \<leftarrow> fput X file s;
             Some (bytes_written, s) })) }"

definition do_close :: "hdr \<Rightarrow> ext \<Rightarrow> int \<Rightarrow> int call" where
  "do_close H X fd s = (
     if fd < 0 \<or> fd \<ge> int (NFILES H) then Some (- Err H EBADF, s)
     else do {
       p \<leftarrow> curproc s;
       f \<leftarrow> get_fd p fd s;
       (case f of
          None \<Rightarrow> Some (- Err H EBADF, s)
        | Some f \<Rightarrow> do {
            s \<leftarrow> fput X f s;
            s \<leftarrow> set_fd p fd None s;
            Some (0, s) }) })"

definition do_dup :: "hdr \<Rightarrow> ext \<Rightarrow> int \<Rightarrow> int call" where
  "do_dup H X fd s = (
     if fd < 0 \<or> fd \<ge> int (NFILES H) then Some (- Err H EBADF, s)
     else do {
       (file, s) \<leftarrow> fget X fd s;
       (case file of
          None \<Rightarrow> Some (- Err H EBADF, s)
        | Some file \<Rightarrow> do {
            p \<leftarrow> curproc s;
            let new_fd = get_empty_fd H p s;
            s \<leftarrow> set_fd p new_fd (Some file) s;
            Some (new_fd, s) }) })"

definition do_dup2 :: "hdr \<Rightarrow> ext \<Rightarrow> int \<Rightarrow> int \<Rightarrow> int call" where
  "do_dup2 H X ofd nfd s = (
     if ofd < 0 \<or> ofd \<ge> int (NFILES H) then Some (- Err H EBADF, s)
     else if nfd < 0 \<or> nfd \<ge> int (NFILES H) then Some (- Err H EBADF, s)
     else do {
       (file, s) \<leftarrow> fget X ofd s;
       (case file of
          None \<Rightarrow> Some (- Err H EBADF, s)
        | Some file \<Rightarrow> do {
            p \<leftarrow> curproc s;
            s \<leftarrow> set_fd p nfd (Some file) s;
            s \<leftarrow> (if nfd = ofd then fput X file s else Some s);
            Some (nfd, s) }) })"

subsection \<open>Directories and links\<close>

definition do_mknod :: "hdr \<Rightarrow> ext \<Rightarrow> string \<Rightarrow> u32 \<Rightarrow> u32 \<Rightarrow> int call" where
  "do_mknod H X path mode devid s = do {
     KASSERT (S_ISCHR H mode \<or> S_ISBLK H mode);
     ((_, namelen, name, dir_vnode), s) \<leftarrow> dir_namev H X path None s;
     dir_vnode \<leftarrow> dir_vnode;
     (_, s) \<leftarrow> lookup X (Some dir_vnode) name s;
     mknod \<leftarrow> fs_op (fs_mknod X) (vn_ops (vnodes s dir_vnode));
     name \<leftarrow> name;
     (res, s) \<leftarrow> mknod dir_vnode name mode devid s;
     s \<leftarrow> vput X dir_vnode s;
     Some (res, s) }"

definition do_mkdir :: "hdr \<Rightarrow> ext \<Rightarrow> string \<Rightarrow> int call" where
  "do_mkdir H X path s = do {
     ((res, namelen, name, dir_vnode), s) \<leftarrow> dir_namev H X path None s;
     if namelen = 0 \<and> dir_vnode = vfs_root_vn s
     then do { v \<leftarrow> dir_vnode; s \<leftarrow> vput X v s; Some (- Err H EEXIST, s) }
     else if res \<noteq> 0 then Some (res, s)
     else do {
       dir_vnode \<leftarrow> dir_vnode;
       name \<leftarrow> name;
       ((res, vnode), s) \<leftarrow> lookup X (Some dir_vnode) (Some name) s;
       if res = 0
       then do {
         s \<leftarrow> vput X dir_vnode s;
         vnode \<leftarrow> vnode;
         s \<leftarrow> vput X vnode s;
         Some (- Err H EEXIST, s) }
       else do {
         mkdir \<leftarrow> fs_op (fs_mkdir X) (vn_ops (vnodes s dir_vnode));
         (res, s) \<leftarrow> mkdir dir_vnode name s;
         s \<leftarrow> vput X dir_vnode s;
         Some (res, s) } } }"

definition do_rmdir :: "hdr \<Rightarrow> ext \<Rightarrow> string \<Rightarrow> int call" where
  "do_rmdir H X path s = do {
     ((res, namelen, name, dir_vnode), s) \<leftarrow> dir_namev H X path None s;
     if res \<noteq> 0 then Some (res, s)
     else do {
       name \<leftarrow> name;
       dir_vnode \<leftarrow> dir_vnode;
       if name = ''.'' then do { s \<leftarrow> vput X dir_vnode s; Some (- Err H EINVAL, s) }
       else if name = ''..'' then do { s \<leftarrow> vput X dir_vnode s; Some (- Err H ENOTEMPTY, s) }
       else do {
         rmdir \<leftarrow> fs_op (fs_rmdir X) (vn_ops (vnodes s dir_vnode));
         (res, s) \<leftarrow> rmdir dir_vnode name s;
         s \<leftarrow> vput X dir_vnode s;
         Some (res, s) } } }"

definition do_unlink :: "hdr \<Rightarrow> ext \<Rightarrow> string \<Rightarrow> int call" where
  "do_unlink H X path s = do {
     ((res, namelen, name, dir_vnode), s) \<leftarrow> dir_namev H X path None s;
     if res \<noteq> 0 then Some (res, s)
     else do {
       dir_vnode \<leftarrow> dir_vnode;
       ((res, vnode), s) \<leftarrow> lookup X (Some dir_vnode) name s;
       if res \<noteq> 0 then do { s \<leftarrow> vput X dir_vnode s; Some (res, s) }
       else do {
         vnode \<leftarrow> vnode;
         if S_ISDIR H (vn_mode (vnodes s vnode))
         then do { s \<leftarrow> vput X dir_vnode s; s \<leftarrow> vput X vnode s; Some (- Err H EPERM, s) }
         else do {
           unlink \<leftarrow> fs_op (fs_unlink X) (vn_ops (vnodes s dir_vnode));
           name \<leftarrow> name;
           (res, s) \<leftarrow> unlink dir_vnode name s;
           s \<leftarrow> vput X dir_vnode s;
           s \<leftarrow> vput X vnode s;
           Some (res, s) } } } }"

definition do_link :: "hdr \<Rightarrow> ext \<Rightarrow> string \<Rightarrow> string \<Rightarrow> int call" where
  "do_link H X from_path to_path s = do {
     ((res, from_vnode), s) \<leftarrow> open_namev H X from_path 0 None s;
     if res \<noteq> 0 then Some (res, s)
     else do {
       from_vnode \<leftarrow> from_vnode;
       ((res, namelen, name, to_parent_vnode), s) \<leftarrow> dir_namev H X to_path None s;
       if res \<noteq> 0 then do { s \<leftarrow> vput X from_vnode s; Some (res, s) }
       else do {
         to_parent_vnode \<leftarrow> to_parent_vnode;
         (_, s) \<leftarrow> lookup X (Some to_parent_vnode) name s;
         link \<leftarrow> fs_op (fs_link X) (vn_ops (vnodes s to_parent_vnode));
         name \<leftarrow> name;
         (res, s) \<leftarrow> link from_vnode to_parent_vnode name s;
         s \<leftarrow> vput X from_vnode s;
         s \<leftarrow> vput X to_parent_vnode s;
         Some (res, s) } } }"

definition do_rename :: "hdr \<Rightarrow> ext \<Rightarrow> string \<Rightarrow> string \<Rightarrow> int call" where
  "do_rename H X oldname newname s = do {
     (res, s) \<leftarrow> do_link H X oldname newname s;
     if res \<noteq> 0 then Some (res, s) else do_unlink H X oldname s }"

definition do_chdir :: "hdr \<Rightarrow> ext \<Rightarrow> string \<Rightarrow> int call" where
  "do_chdir H X path s = do {
     ((res, vnode), s) \<leftarrow> open_namev H X path 0 None s;
     if res \<noteq> 0 then Some (res, s)
     else do {
       vnode \<leftarrow> vnode;
       if \<not> S_ISDIR H (vn_mode (vnodes s vnode)) then do { s \<leftarrow> vput X vnode s; Some (- Err H ENOTDIR, s) }
       else do {
         p \<leftarrow> curproc s;
         cwd \<leftarrow> p_cwd (procs s p);
         s \<leftarrow> vput X cwd s;
         Some (0, upd_proc p (\<lambda>q. q\<lparr>p_cwd := Some vnode\<rparr>) s) } } }"

definition do_getdent :: "hdr \<Rightarrow> ext \<Rightarrow> int \<Rightarrow> int call" where
  "do_getdent H X fd s = (
     if fd < 0 \<or> fd \<ge> int (NFILES H) then Some (- Err H EBADF, s)
     else do {
       p \<leftarrow> curproc s;
       f \<leftarrow> get_fd p fd s;
       if f = None then Some (- Err H EBADF, s)
       else do {
         (file, s) \<leftarrow> fget X fd s;
         file \<leftarrow> file;
         v \<leftarrow> f_vnode (files s file);
         (case fs_op (fs_readdir X) (vn_ops (vnodes s v)) of
            None \<Rightarrow> do { s \<leftarrow> fput X file s; Some (- Err H ENOTDIR, s) }
          | Some readdir \<Rightarrow> do {
              (bytes_read, s) \<leftarrow> readdir v (f_pos (files s file)) s;
              if bytes_read = 0 then do { s \<leftarrow> fput X file s; Some (0, s) }
              else do {
                let s = (if bytes_read > 0
                         then upd_file file (\<lambda>f. f\<lparr>f_pos := int32 (f_pos f + bytes_read)\<rparr>) s else s);
                s \<leftarrow> fput X file s;
                Some (sizeof_dirent H, s) } }) } })"

definition do_stat :: "hdr \<Rightarrow> ext \<Rightarrow> string \<Rightarrow> int call" where
  "do_stat H X path s = (
     if length path = 0 then Some (- Err H EINVAL, s)
     else do {
       ((res, vnode), s) \<leftarrow> open_namev H X path 0 None s;
       if res \<noteq> 0 then Some (res, s)
       else do {
         vnode \<leftarrow> vnode;
         stat \<leftarrow> vop_stat X (vn_ops (vnodes s vnode));
         (res, s) \<leftarrow> stat vnode s;
         s \<leftarrow> vput X vnode s;
         Some (res, s) } })"

subsection \<open>Reference counts across the calls on paths\<close>

lemma vput_refs:
  assumes "vfs_api_ok X" and "vput X v s = Some s'"
  shows "refs s' w = refs s w - one (Some v) w"
  by (rule vfs_api(2) [OF assms])

lemma refs_mkdir:
  assumes api: "vfs_api_ok X" and err: "errnos_ok (Err H)" and run: "do_mkdir H X path s = Some (r, s')"
  shows "refs s' = refs s"
proof
  fix w
  obtain r1 len name dir s1 where d: "dir_namev H X path None s = Some ((r1, len, name, dir), s1)"
    using run by (fastforce simp: do_mkdir_def bind_Some_iff)
  note d' = dir_namev_refs [OF api err d]
  note eq = run [unfolded do_mkdir_def d bind.simps prod.case]
  show "refs s' w = refs s w"
  proof (cases "len = 0 \<and> dir = vfs_root_vn s1 \<or> r1 \<noteq> 0")
    case True
    then show ?thesis using eq d'(1) [of w] d'(2,4) vput_refs [OF api] by (auto simp: bind_Some_iff split: if_splits)
  next
    case False
    then obtain dn n where dn: "dir = Some dn" "name = Some n" using eq by (auto simp: bind_Some_iff split: if_splits)
    then have "lookup X (Some dn) (Some n) s1 \<noteq> None" using eq False by (cases "lookup X (Some dn) (Some n) s1") auto
    then obtain r2 v2 s2 where l: "lookup X (Some dn) (Some n) s1 = Some ((r2, v2), s2)" by (metis not_None_eq prod.collapse)
    note l' = lookup_refs [OF api l]
    show ?thesis
    proof (cases "r2 = 0")
      case True
      then show ?thesis using eq False dn l l'(1) [of w] d'(1) [of w] vput_refs [OF api] by (auto simp: bind_Some_iff)
    next
      case nz: False
      then obtain f s3 where f: "fs_op (fs_mkdir X) (vn_ops (vnodes s2 dn)) = Some f" "f dn n s2 = Some (r, s3)" "vput X dn s3 = Some s'"
        using eq False dn l by (auto simp: bind_Some_iff)
      show ?thesis
        using neutralD(1) [OF vfs_api(8) [OF api f(1)] f(2)] vput_refs [OF api f(3), of w] l'(1) [of w] l'(2) nz d'(1) [of w] False dn
        by (auto split: if_splits)
    qed
  qed
qed

lemma refs_rmdir:
  assumes api: "vfs_api_ok X" and err: "errnos_ok (Err H)" and run: "do_rmdir H X path s = Some (r, s')"
  shows "refs s' = refs s"
proof
  fix w
  obtain r1 len name dir s1 where d: "dir_namev H X path None s = Some ((r1, len, name, dir), s1)"
    using run by (fastforce simp: do_rmdir_def bind_Some_iff)
  note d' = dir_namev_refs [OF api err d]
  note eq = run [unfolded do_rmdir_def d bind.simps prod.case]
  show "refs s' w = refs s w"
  proof (cases "r1 = 0")
    case False
    then show ?thesis using eq d'(1) [of w] d'(2) by auto
  next
    case True
    then obtain dn n where dn: "dir = Some dn" "name = Some n" using eq by (auto simp: bind_Some_iff)
    show ?thesis
    proof (cases "n = ''.'' \<or> n = ''..''")
      case True
      then show ?thesis using eq \<open>r1 = 0\<close> dn d'(1) [of w] vput_refs [OF api] by (auto simp: bind_Some_iff)
    next
      case False
      then obtain f s3 where f: "fs_op (fs_rmdir X) (vn_ops (vnodes s1 dn)) = Some f" "f dn n s1 = Some (r, s3)" "vput X dn s3 = Some s'"
        using eq \<open>r1 = 0\<close> dn by (auto simp: bind_Some_iff)
      show ?thesis
        using neutralD(1) [OF vfs_api(9) [OF api f(1)] f(2)] vput_refs [OF api f(3), of w] d'(1) [of w] \<open>r1 = 0\<close> dn by simp
    qed
  qed
qed

lemma refs_unlink:
  assumes api: "vfs_api_ok X" and err: "errnos_ok (Err H)" and run: "do_unlink H X path s = Some (r, s')"
  shows "refs s' = refs s"
proof
  fix w
  obtain r1 len name dir s1 where d: "dir_namev H X path None s = Some ((r1, len, name, dir), s1)"
    using run by (fastforce simp: do_unlink_def bind_Some_iff)
  note d' = dir_namev_refs [OF api err d]
  note eq = run [unfolded do_unlink_def d bind.simps prod.case]
  show "refs s' w = refs s w"
  proof (cases "r1 = 0")
    case False
    then show ?thesis using eq d'(1) [of w] d'(2) by auto
  next
    case True
    then obtain dn where dn: "dir = Some dn" using eq by (auto simp: bind_Some_iff)
    then have "lookup X (Some dn) name s1 \<noteq> None" using eq True by (cases "lookup X (Some dn) name s1") auto
    then obtain r2 v2 s2 where l: "lookup X (Some dn) name s1 = Some ((r2, v2), s2)" by (metis not_None_eq prod.collapse)
    note l' = lookup_refs [OF api l]
    show ?thesis
    proof (cases "r2 = 0")
      case nz: False
      then show ?thesis
        using eq True dn l l'(1) [of w] l'(2) d'(1) [of w] vput_refs [OF api] by (auto simp: bind_Some_iff)
    next
      case ok: True
      then obtain vn where vn: "v2 = Some vn" using l'(2) by auto
      show ?thesis
      proof (cases "S_ISDIR H (vn_mode (vnodes s2 vn))")
        case dir: True
        then show ?thesis
          using eq True ok vn dn l l'(1) [of w] d'(1) [of w] vput_refs [OF api] by (auto simp: bind_Some_iff)
      next
        case False
        then obtain f n s3 s4 where f: "fs_op (fs_unlink X) (vn_ops (vnodes s2 dn)) = Some f" "f dn n s2 = Some (r, s3)"
           "vput X dn s3 = Some s4" "vput X vn s4 = Some s'"
          using eq True ok vn dn l by (auto simp: bind_Some_iff)
        show ?thesis
          using neutralD(1) [OF vfs_api(7) [OF api f(1)] f(2)] vput_refs [OF api f(3), of w] vput_refs [OF api f(4), of w]
            d'(1) [of w] l'(1) [of w] True ok vn dn by simp
      qed
    qed
  qed
qed

lemma refs_stat:
  assumes api: "vfs_api_ok X" and err: "errnos_ok (Err H)" and run: "do_stat H X path s = Some (r, s')"
  shows "refs s' = refs s"
proof (cases "length path = 0")
  case True
  then show ?thesis using run by (simp add: do_stat_def)
next
  case False
  show ?thesis
  proof
    fix w
    have "open_namev H X path 0 None s \<noteq> None"
      using run False by (cases "open_namev H X path 0 None s") (simp_all add: do_stat_def)
    then obtain r1 v s1 where o: "open_namev H X path 0 None s = Some ((r1, v), s1)" by (metis not_None_eq prod.collapse)
    note o' = open_namev_refs [OF api err o]
    note eq = run [unfolded do_stat_def o bind.simps prod.case]
    show "refs s' w = refs s w"
    proof (cases "r1 = 0")
      case nz: False
      then show ?thesis using eq False o'(1) [of w] o'(2) by (auto split: if_splits)
    next
      case ok: True
      then obtain vn f s2 where f: "v = Some vn" "vop_stat X (vn_ops (vnodes s1 vn)) = Some f" "f vn s1 = Some (r, s2)" "vput X vn s2 = Some s'"
        using eq False by (auto simp: bind_Some_iff)
      show ?thesis
        using neutralD(1) [OF vfs_api(10) [OF api f(2)] f(3)] vput_refs [OF api f(4), of w] o'(1) [of w] ok f(1) by simp
    qed
  qed
qed

text \<open>
  C16: \<open>do_mkdir\<close>, \<open>do_rmdir\<close>, \<open>do_unlink\<close> and \<open>do_stat\<close> keep the reference counts balanced: whenever one
  of them returns, with success or with any error on any path, the reference count of every vnode is
  what it was.
\<close>

theorem path_calls_balance_references:
  assumes "vfs_api_ok X" and "errnos_ok (Err H)"
  shows "do_mkdir H X path s = Some (r, s') \<or> do_rmdir H X path s = Some (r, s') \<or>
      do_unlink H X path s = Some (r, s') \<or> do_stat H X path s = Some (r, s') \<Longrightarrow> refs s' v = refs s v"
  using refs_mkdir [OF assms] refs_rmdir [OF assms] refs_unlink [OF assms] refs_stat [OF assms] by fastforce

theorem path_calls_balance_references_witness:
  "\<exists>s'. do_unlink std_hdr tiny_fs ''/a/b'' tiny_kernel = Some (0, s') \<and> refs s' 12 = 1 \<and> refs s' 11 = 1"
proof -
  obtain s' where s': "do_unlink std_hdr tiny_fs ''/a/b'' tiny_kernel = Some (0, s')"
    by (simp add: do_unlink_def dir_namev_spec tiny_simps)
  have err: "errnos_ok (Err std_hdr)" by (simp add: std_hdr_def)
  have "refs tiny_kernel 12 = 1" "refs tiny_kernel 11 = 1" by (simp_all add: refs_def tiny_vnode_def)
  then show ?thesis
    using path_calls_balance_references [OF tiny_fs_ok err, of "''/a/b''" tiny_kernel 0 s'] s' by simp
qed

text \<open>
  C36: \<open>do_link\<close> leaks a reference when its target exists. It looks the target up, does not test the
  result, and never drops the reference that a successful lookup took: after the call the count of the
  target's vnode is one more than before, and every other count is unchanged.
\<close>

theorem do_link_leaks_target:
  assumes api: "vfs_api_ok X" and err: "errnos_ok (Err H)"
    and "open_namev H X from_path 0 None s = Some ((0, Some f), s1)"
    and "dir_namev H X to_path None s1 = Some ((0, len, name, Some d), s2)"
    and "lookup X (Some d) name s2 = Some ((0, Some v), s3)"
    and run: "do_link H X from_path to_path s = Some (r, s')"
  shows "refs s' w = refs s w + one (Some v) w"
proof -
  obtain g n s4 s5 where g: "fs_op (fs_link X) (vn_ops (vnodes s3 d)) = Some g" "g f d n s3 = Some (r, s4)"
      "vput X f s4 = Some s5" "vput X d s5 = Some s'"
    using run assms(3-5) by (auto simp: do_link_def bind_Some_iff)
  show ?thesis
    using open_namev_refs(1) [OF api err assms(3), of w] dir_namev_refs(1) [OF api err assms(4), of w]
      lookup_refs(1) [OF api assms(5), of w] neutralD(1) [OF vfs_api(6) [OF api g(1)] g(2)]
      vput_refs [OF api g(3), of w] vput_refs [OF api g(4), of w] by simp
qed

theorem do_link_leaks_target_witness:
  "\<exists>s'. do_link std_hdr tiny_fs ''/a'' ''b'' tiny_kernel = Some (0, s') \<and> refs tiny_kernel 12 = 1 \<and> refs s' 12 = 2 \<and> refs s' 11 = 1"
proof -
  let ?s1 = "snd (the (open_namev std_hdr tiny_fs ''/a'' 0 None tiny_kernel))"
  let ?s2 = "snd (the (dir_namev std_hdr tiny_fs ''b'' None ?s1))"
  let ?s3 = "snd (the (lookup tiny_fs (Some 11) (Some ''b'') ?s2))"
  have s1: "open_namev std_hdr tiny_fs ''/a'' 0 None tiny_kernel = Some ((0, Some 11), ?s1)"
    by (simp add: open_namev_def dir_namev_spec tiny_simps)
  have s2: "dir_namev std_hdr tiny_fs ''b'' None ?s1 = Some ((0, 1, Some ''b'', Some 11), ?s2)"
    by (simp add: open_namev_def dir_namev_spec tiny_simps)
  have s3: "lookup tiny_fs (Some 11) (Some ''b'') ?s2 = Some ((0, Some 12), ?s3)"
    by (simp add: open_namev_def dir_namev_spec tiny_simps)
  obtain s' where s': "do_link std_hdr tiny_fs ''/a'' ''b'' tiny_kernel = Some (0, s')"
    by (simp add: do_link_def open_namev_def dir_namev_spec tiny_simps)
  have err: "errnos_ok (Err std_hdr)" by (simp add: std_hdr_def)
  have "refs tiny_kernel 12 = 1" "refs tiny_kernel 11 = 1" by (simp_all add: refs_def tiny_vnode_def)
  then show ?thesis
    using do_link_leaks_target [OF tiny_fs_ok err s1 s2 s3 s', of 12] do_link_leaks_target [OF tiny_fs_ok err s1 s2 s3 s', of 11] s'
    by simp
qed

subsection \<open>The file descriptor table and the reference counts of files\<close>

text \<open>
  The documented behaviour of \<open>fget\<close> and \<open>fput\<close>: \<open>fget\<close> of a descriptor returns the file of the current
  process with its count incremented, or \<open>NULL\<close>; \<open>fput\<close> decrements the count, and touches vnodes only
  when the file has one.
\<close>

definition file_api_ok :: "ext \<Rightarrow> bool" where
  "file_api_ok X \<longleftrightarrow>
     (\<forall>fd p s. 0 \<le> fd \<longrightarrow> curproc s = Some p \<longrightarrow> nat fd < length (p_files (procs s p)) \<longrightarrow>
        fget X fd s = (case p_files (procs s p) ! nat fd of
            None \<Rightarrow> Some (None, s)
          | Some f \<Rightarrow> Some (Some f, upd_file f (\<lambda>x. x\<lparr>f_refcount := f_refcount x + 1\<rparr>) s))) \<and>
     (\<forall>f s. \<exists>s'. fput X f s = Some s' \<and> curproc s' = curproc s \<and> procs s' = procs s \<and>
        files s' = (files s)(f := (files s f)\<lparr>f_refcount := f_refcount (files s f) - 1\<rparr>) \<and>
        (f_vnode (files s f) = None \<longrightarrow> vnodes s' = vnodes s))"

lemma fget_eq:
  assumes "file_api_ok X" and "curproc s = Some p" and "0 \<le> fd" and "nat fd < length (p_files (procs s p))"
  shows "fget X fd s = (case p_files (procs s p) ! nat fd of
            None \<Rightarrow> Some (None, s)
          | Some f \<Rightarrow> Some (Some f, upd_file f (\<lambda>x. x\<lparr>f_refcount := f_refcount x + 1\<rparr>) s))"
  using assms unfolding file_api_ok_def by blast

text \<open>The state after \<open>fput\<close>.\<close>

definition put :: "ext \<Rightarrow> faddr \<Rightarrow> kernel \<Rightarrow> kernel" where
  "put X f s = the (fput X f s)"

lemma fput_eq:
  assumes "file_api_ok X"
  shows "fput X f s = Some (put X f s)" and "curproc (put X f s) = curproc s" and "procs (put X f s) = procs s"
    and "files (put X f s) = (files s)(f := (files s f)\<lparr>f_refcount := f_refcount (files s f) - 1\<rparr>)"
    and "f_vnode (files s f) = None \<Longrightarrow> vnodes (put X f s) = vnodes s"
proof -
  obtain s' where "fput X f s = Some s'" "curproc s' = curproc s" "procs s' = procs s"
     "files s' = (files s)(f := (files s f)\<lparr>f_refcount := f_refcount (files s f) - 1\<rparr>)"
     "f_vnode (files s f) = None \<longrightarrow> vnodes s' = vnodes s"
    using assms unfolding file_api_ok_def by blast
  then show "fput X f s = Some (put X f s)" "curproc (put X f s) = curproc s" "procs (put X f s) = procs s"
     "files (put X f s) = (files s)(f := (files s f)\<lparr>f_refcount := f_refcount (files s f) - 1\<rparr>)"
     "f_vnode (files s f) = None \<Longrightarrow> vnodes (put X f s) = vnodes s"
    by (simp_all add: put_def)
qed

lemma empty_fd_loop_cases:
  "(\<exists>i<length fs. fs ! i = None \<and> (\<forall>j<i. fs ! j \<noteq> None) \<and> empty_fd_loop E fs k = int (k + i)) \<or>
   (None \<notin> set fs \<and> empty_fd_loop E fs k = - E EMFILE)"
proof (induction fs arbitrary: k)
  case (Cons f fs)
  show ?case
  proof (cases f)
    case None
    then show ?thesis by auto
  next
    case (Some g)
    from Cons [of "Suc k"] show ?thesis
    proof
      assume "\<exists>i<length fs. fs ! i = None \<and> (\<forall>j<i. fs ! j \<noteq> None) \<and> empty_fd_loop E fs (Suc k) = int (Suc k + i)"
      then obtain i where i: "i < length fs" "fs ! i = None" "\<forall>j<i. fs ! j \<noteq> None" "empty_fd_loop E fs (Suc k) = int (Suc k + i)" by blast
      have "\<forall>j<Suc i. (f # fs) ! j \<noteq> None" using i(3) Some by (auto simp: less_Suc_eq_0_disj)
      then show ?thesis using i Some by (intro disjI1 exI [of _ "Suc i"]) simp
    qed (use Some in simp)
  qed
qed simp

text \<open>\<open>get_empty_fd\<close> finds the lowest free descriptor.\<close>

lemma get_empty_fd_free:
  assumes "length (p_files (procs s p)) = NFILES H" and "None \<in> set (p_files (procs s p))"
  obtains i where "get_empty_fd H p s = int i" and "i < NFILES H" and "p_files (procs s p) ! i = None"
    and "\<forall>j<i. p_files (procs s p) ! j \<noteq> None"
proof -
  let ?fs = "p_files (procs s p)"
  obtain i where "i < length ?fs" "?fs ! i = None" "\<forall>j<i. ?fs ! j \<noteq> None" "empty_fd_loop (Err H) ?fs 0 = int (0 + i)"
    using empty_fd_loop_cases [of ?fs "Err H" 0] assms(2) by blast
  then show thesis using that [of i] assms(1) by (simp add: get_empty_fd_def)
qed

lemma get_empty_fd_full:
  assumes "length (p_files (procs s p)) = NFILES H" and "None \<notin> set (p_files (procs s p))"
  shows "get_empty_fd H p s = - Err H EMFILE"
proof -
  let ?fs = "p_files (procs s p)"
  have "\<not> (\<exists>i<length ?fs. ?fs ! i = None)" using assms(2) nth_mem by metis
  then have "empty_fd_loop (Err H) ?fs 0 = - Err H EMFILE" using empty_fd_loop_cases [of ?fs "Err H" 0] by blast
  then show ?thesis using assms(1) by (simp add: get_empty_fd_def)
qed

lemma set_fd_eq:
  "0 \<le> fd \<Longrightarrow> nat fd < length (p_files (procs s p)) \<Longrightarrow>
    set_fd p fd f s = Some (s\<lparr>procs := (procs s)(p := (procs s p)\<lparr>p_files := (p_files (procs s p))[nat fd := f]\<rparr>)\<rparr>)"
  by (simp add: set_fd_def upd_proc_def)

text \<open>
  C32: duplicating a descriptor and closing the duplicate. When the table has a free slot, \<open>do_dup\<close> of
  an open descriptor returns the lowest free one, which then names the same file, whose count is one
  higher; \<open>do_close\<close> of the new descriptor returns 0 and gives back the table and all counts as they
  were.
\<close>

theorem do_dup_do_close_roundtrip:
  assumes api: "file_api_ok X" and p: "curproc s = Some p" and len: "length (p_files (procs s p)) = NFILES H"
    and fd: "0 \<le> fd" "fd < int (NFILES H)" and f: "p_files (procs s p) ! nat fd = Some f"
    and free: "None \<in> set (p_files (procs s p))"
  shows "\<exists>nfd s1 s2. do_dup H X fd s = Some (int nfd, s1) \<and> nfd < NFILES H \<and>
     p_files (procs s p) ! nfd = None \<and> (\<forall>j<nfd. p_files (procs s p) ! j \<noteq> None) \<and>
     p_files (procs s1 p) = (p_files (procs s p))[nfd := Some f] \<and> f_refcount (files s1 f) = f_refcount (files s f) + 1 \<and>
     do_close H X (int nfd) s1 = Some (0, s2) \<and> p_files (procs s2 p) = p_files (procs s p) \<and> files s2 = files s"
proof -
  obtain i where i: "get_empty_fd H p s = int i" "i < NFILES H" "p_files (procs s p) ! i = None" "\<forall>j<i. p_files (procs s p) ! j \<noteq> None"
    using get_empty_fd_free [OF len free] by blast
  let ?s0 = "upd_file f (\<lambda>x. x\<lparr>f_refcount := f_refcount x + 1\<rparr>) s"
  let ?s1 = "?s0\<lparr>procs := (procs s)(p := (procs s p)\<lparr>p_files := (p_files (procs s p))[i := Some f]\<rparr>)\<rparr>"
  have nf: "nat fd < length (p_files (procs s p))" using fd len by (simp add: nat_less_iff)
  have "get_empty_fd H p ?s0 = int i" using i(1) by (simp add: get_empty_fd_def upd_file_def)
  moreover have "set_fd p (int i) (Some f) ?s0 = Some ?s1"
    using i(2) len by (subst set_fd_eq) (simp_all add: upd_file_def)
  moreover have "fget X fd s = Some (Some f, ?s0)" using fget_eq [OF api p fd(1) nf] f by simp
  ultimately have dup: "do_dup H X fd s = Some (int i, ?s1)" using fd p by (simp add: do_dup_def upd_file_def)
  define s2 where "s2 = put X f ?s1"
  note s2 = fput_eq [where f = f and s = ?s1, OF api, folded s2_def]
  let ?s3 = "s2\<lparr>procs := (procs s2)(p := (procs s2 p)\<lparr>p_files := (p_files (procs s2 p))[i := None]\<rparr>)\<rparr>"
  have "get_fd p (int i) ?s1 = Some (Some f)" using i(2) len by (simp add: get_fd_def)
  moreover have "set_fd p (int i) None s2 = Some ?s3" using i(2) len by (subst set_fd_eq) (simp_all add: s2(3))
  ultimately have close: "do_close H X (int i) ?s1 = Some (0, ?s3)"
    using i(2) p s2(1) by (simp add: do_close_def upd_file_def)
  have "files ?s3 = files s" by (simp add: s2(4) upd_file_def)
  moreover have "p_files (procs ?s3 p) = p_files (procs s p)"
    using i(2,3) len by (simp add: s2(3) list_update_same_conv)
  ultimately show ?thesis using dup close i by (intro exI [of _ i] exI [of _ ?s1] exI [of _ ?s3]) (simp add: upd_file_def)
qed


lemma count_list_update:
  "i < length xs \<Longrightarrow> xs ! i = a \<Longrightarrow> b \<noteq> a \<Longrightarrow> Suc (count_list (xs[i := b]) a) = count_list xs a"
proof (induction xs arbitrary: i)
  case (Cons x xs)
  then show ?case by (cases i) auto
qed simp

text \<open>
  C35: \<open>do_dup2\<close> onto a descriptor that is in use by another file overwrites it without closing it: the
  old file's count stays as it was although one descriptor less names it.
\<close>

theorem do_dup2_drops_open_file:
  assumes api: "file_api_ok X" and p: "curproc s = Some p" and len: "length (p_files (procs s p)) = NFILES H"
    and ofd: "0 \<le> ofd" "ofd < int (NFILES H)" and nfd: "0 \<le> nfd" "nfd < int (NFILES H)" and "ofd \<noteq> nfd"
    and f: "p_files (procs s p) ! nat ofd = Some f" and g: "p_files (procs s p) ! nat nfd = Some g" and "f \<noteq> g"
  shows "\<exists>s'. do_dup2 H X ofd nfd s = Some (nfd, s') \<and> p_files (procs s' p) = (p_files (procs s p))[nat nfd := Some f] \<and>
     f_refcount (files s' f) = f_refcount (files s f) + 1 \<and> f_refcount (files s' g) = f_refcount (files s g) \<and>
     count_list (p_files (procs s' p)) (Some g) + 1 = count_list (p_files (procs s p)) (Some g)"
proof -
  have no: "nat ofd < length (p_files (procs s p))" and nn: "nat nfd < length (p_files (procs s p))"
    using ofd nfd len by (simp_all add: nat_less_iff)
  let ?s0 = "upd_file f (\<lambda>x. x\<lparr>f_refcount := f_refcount x + 1\<rparr>) s"
  let ?s1 = "?s0\<lparr>procs := (procs s)(p := (procs s p)\<lparr>p_files := (p_files (procs s p))[nat nfd := Some f]\<rparr>)\<rparr>"
  have "set_fd p nfd (Some f) ?s0 = Some ?s1" using nfd nn by (subst set_fd_eq) (simp_all add: upd_file_def)
  moreover have "fget X ofd s = Some (Some f, ?s0)" using fget_eq [OF api p ofd(1) no] f by simp
  ultimately have "do_dup2 H X ofd nfd s = Some (nfd, ?s1)" using ofd nfd p assms(8) by (simp add: do_dup2_def upd_file_def)
  moreover have "count_list ((p_files (procs s p))[nat nfd := Some f]) (Some g) + 1 = count_list (p_files (procs s p)) (Some g)"
    using count_list_update [OF nn g, of "Some f"] assms(11) by simp
  ultimately show ?thesis using assms(11) by (intro exI [of _ ?s1]) (simp add: upd_file_def)
qed

text \<open>
  C33: \<open>do_lseek\<close> keeps file positions in range, whatever the 32-bit sum of position and offset wraps
  to. It always returns on a descriptor that has a vnode; a negative result is an error and leaves the
  position of every file as it was; otherwise the result is the new position of the file, it is not
  negative and below \<open>2 ^ 31\<close>, and the other files and the reference counts are unchanged.
\<close>

theorem do_lseek_position:
  assumes api: "file_api_ok X" and err: "errnos_ok (Err H)" and p: "curproc s = Some p"
    and len: "length (p_files (procs s p)) = NFILES H" and "offset < 2 ^ 31"
    and vn: "\<forall>f. Some f \<in> set (p_files (procs s p)) \<longrightarrow> f_vnode (files s f) \<noteq> None"
  shows "\<exists>r s'. do_lseek H X fd offset whence s = Some (r, s') \<and> procs s' = procs s \<and>
     (if r < 0 then files s' = files s
      else 0 \<le> fd \<and> fd < int (NFILES H) \<and> r < 2 ^ 31 \<and>
        (\<exists>f. p_files (procs s p) ! nat fd = Some f \<and> files s' = (files s)(f := (files s f)\<lparr>f_pos := r\<rparr>)))"
proof (cases "0 \<le> fd \<and> fd < int (NFILES H)")
  case False
  then show ?thesis using err by (auto simp: do_lseek_def)
next
  case True
  then have nf: "nat fd < length (p_files (procs s p))" using len by (simp add: nat_less_iff)
  show ?thesis
  proof (cases "p_files (procs s p) ! nat fd")
    case None
    then show ?thesis using True err fget_eq [OF api p _ nf] by (simp add: do_lseek_def)
  next
    case (Some f)
    let ?s0 = "upd_file f (\<lambda>x. x\<lparr>f_refcount := f_refcount x + 1\<rparr>) s"
    have get: "fget X fd s = Some (Some f, ?s0)" using fget_eq [OF api p _ nf] True Some by simp
    have "Some f \<in> set (p_files (procs s p))" using nth_mem [OF nf] Some by simp
    then obtain v where v: "f_vnode (files s f) = Some v" using vn by auto
    define np where "np = (if whence = SEEK_SET H then Some offset
      else if whence = SEEK_CUR H then Some (int32 (f_pos (files s f) + offset))
      else if whence = SEEK_END H then Some (int32 (vn_len (vnodes s v) + offset)) else None)"
    have run: "do_lseek H X fd offset whence s =
       (case np of
          None \<Rightarrow> Some (- Err H EINVAL, put X f ?s0)
        | Some n \<Rightarrow> if n < 0 then Some (- Err H EINVAL, put X f ?s0)
                   else Some (n, put X f (upd_file f (\<lambda>x. x\<lparr>f_pos := n\<rparr>) ?s0)))"
      using True get v by (simp add: do_lseek_def np_def upd_file_def fput_eq(1) [OF api])
    have same: "files (put X f ?s0) = files s" "procs (put X f ?s0) = procs s"
      by (simp_all add: fput_eq [OF api] upd_file_def)
    have moved: "files (put X f (upd_file f (\<lambda>x. x\<lparr>f_pos := n\<rparr>) ?s0)) = (files s)(f := (files s f)\<lparr>f_pos := n\<rparr>)"
      "procs (put X f (upd_file f (\<lambda>x. x\<lparr>f_pos := n\<rparr>) ?s0)) = procs s" for n
      by (simp_all add: fput_eq [OF api] upd_file_def)
    have lt: "n < 2 ^ 31" if "np = Some n" for n
      using that assms(5) int32_bounds(2) by (auto simp: np_def split: if_splits)
    show ?thesis
    proof (cases np)
      case None
      then show ?thesis using run same err by simp
    next
      case (Some n)
      then show ?thesis using run same moved [of n] lt [OF Some] err True \<open>p_files (procs s p) ! nat fd = Some f\<close>
        by (cases "n < 0") simp_all
    qed
  qed
qed

lemma set_fd_undo:
  assumes "i < length (p_files (procs s p))" and "p_files (procs s p) ! i = None" and "procs t = (procs s)(p := (procs s p)\<lparr>p_files := (p_files (procs s p))[i := f]\<rparr>)"
  shows "\<exists>u. set_fd p (int i) None t = Some u \<and> p_files (procs u p) = p_files (procs s p) \<and> vnodes u = vnodes t"
  using assms by (simp add: set_fd_def upd_proc_def list_update_same_conv)


text \<open>
  An example: a process with the descriptors 0 and 1 open, on the files 40 and 41, in a table of four;
  the next fresh file is 44.
\<close>

definition four_fds :: hdr where
  "four_fds = std_hdr\<lparr>NFILES := 4\<rparr>"

definition tiny_files :: ext where
  "tiny_files = tiny_fs\<lparr>fget := (\<lambda>fd s.
     if fd = - 1 then Some (Some 44, upd_file 44 (\<lambda>_. \<lparr>f_pos = 0, f_mode = 0, f_refcount = 1, f_vnode = None\<rparr>) s)
     else fget std_ext fd s)\<rparr>"

definition open_files :: kernel where
  "open_files = tiny_kernel\<lparr>
     procs := (\<lambda>_. blank_proc\<lparr>p_cwd := Some 11, p_files := [Some 40, Some 41, None, None]\<rparr>),
     files := (\<lambda>_. \<lparr>f_pos = 7, f_mode = 3, f_refcount = 1, f_vnode = Some 12\<rparr>)\<rparr>"

definition full_files :: kernel where
  "full_files = open_files\<lparr>procs := (\<lambda>_. blank_proc\<lparr>p_cwd := Some 11, p_files := [Some 40, Some 41, Some 42, Some 43]\<rparr>)\<rparr>"

lemma open_files_fields [simp]:
  "curproc open_files = Some 10" "p_files (procs open_files p) = [Some 40, Some 41, None, None]"
  "files open_files f = \<lparr>f_pos = 7, f_mode = 3, f_refcount = 1, f_vnode = Some 12\<rparr>"
  "vnodes open_files = vnodes tiny_kernel" "vfs_root_vn open_files = Some 10" "p_cwd (procs open_files p) = Some 11"
  "curproc full_files = Some 10" "p_files (procs full_files p) = [Some 40, Some 41, Some 42, Some 43]"
  by (simp_all add: open_files_def full_files_def)

lemma four_fds_fields [simp]: "NFILES four_fds = 4" "Err four_fds = std_errnos"
  by (simp_all add: four_fds_def std_hdr_def)

lemma tiny_files_file_api: "file_api_ok tiny_files"
  by (simp add: file_api_ok_def tiny_files_def tiny_fs_def std_ext_def upd_file_def split: option.split)

lemma tiny_files_vfs_api: "vfs_api_ok tiny_files"
  using tiny_fs_ok by (simp add: vfs_api_ok_def tiny_files_def)

theorem do_dup_do_close_roundtrip_witness:
  "\<exists>nfd s1 s2. do_dup four_fds tiny_files 1 open_files = Some (int nfd, s1) \<and> f_refcount (files s1 41) = 2 \<and>
     do_close four_fds tiny_files (int nfd) s1 = Some (0, s2) \<and> p_files (procs s2 10) = [Some 40, Some 41, None, None]"
  using do_dup_do_close_roundtrip [OF tiny_files_file_api, of open_files 10 four_fds 1 41] by auto


theorem do_dup2_drops_open_file_witness:
  "\<exists>s'. do_dup2 four_fds tiny_files 0 1 open_files = Some (1, s') \<and> p_files (procs s' 10) = [Some 40, Some 40, None, None] \<and>
     f_refcount (files s' 41) = 1"
  using do_dup2_drops_open_file [OF tiny_files_file_api, of open_files 10 four_fds 0 1 40 41] by auto

theorem do_lseek_position_witness:
  "\<exists>r s'. do_lseek four_fds tiny_files 0 5 (SEEK_CUR four_fds) open_files = Some (r, s') \<and> procs s' = procs open_files \<and>
     (if r < 0 then files s' = files open_files else r < 2 ^ 31)"
  using do_lseek_position [OF tiny_files_file_api, of four_fds open_files 10 5 0 "SEEK_CUR four_fds"] by (auto split: if_splits)


end
