(* ===== verification/Boot.thy ===== *)
theory Boot
  imports Vfs_Syscall Proc
begin

text \<open>
  Starting and stopping: the pageout daemon's process and the shutdown of the page cache
  (\<open>kernel/mm/pframe.c\<close>), the first two processes and the processes of the kernel's tests
  (\<open>kernel/main/kmain.c\<close>). The device numbers, the initialisation functions, the entry into a context and
  the final shutdown are not in the sources.
\<close>

subsection \<open>The pageout daemon\<close>

definition pageoutd_init :: "hdr \<Rightarrow> ext \<Rightarrow> proc_call" where
  "pageoutd_init H X s = do {
     let s = sched_queue_init Pageoutd_waitq s;
     cur \<leftarrow> curproc s;
     KASSERT (PID_IDLE H = p_pid (procs s cur));
     (p, s) \<leftarrow> proc_create H X ''pageoutd'' s;
     let s = s\<lparr>pageoutd := Some p\<rparr>;
     (thr, s) \<leftarrow> kthread_create H (Some p) s;
     sched_make_runnable thr (s\<lparr>pageoutd_thr := Some thr\<rparr>) }"

definition pageoutd_exit :: "nat \<Rightarrow> hdr \<Rightarrow> ext \<Rightarrow> kernel \<Rightarrow> unit outcome option" where
  "pageoutd_exit n H X s = do {
     thr \<leftarrow> pageoutd_thr s;
     r \<leftarrow> kthread_cancel n H X thr 0 s;
     (case r of
        Exited s \<Rightarrow> Some (Exited s)
      | Returned _ s \<Rightarrow> Some (Returned () (s\<lparr>pageoutd_thr := None\<rparr>))) }"

text \<open>The loop of \<open>pframe_shutdown\<close> that frees the pages.\<close>

fun shutdown_free :: "hdr \<Rightarrow> ext \<Rightarrow> (oaddr \<Rightarrow> proc_call) \<Rightarrow> pfaddr list \<Rightarrow> proc_call" where
  "shutdown_free H X mput [] s = Some s"
| "shutdown_free H X mput (pf # pfs) s = do {
     KASSERT (\<not> pf_dirty (pframes s pf));
     KASSERT (\<not> pf_busy (pframes s pf));
     KASSERT (\<not> pframe_is_pinned X (pframes s pf));
     s \<leftarrow> pframe_free H X mput pf s;
     shutdown_free H X mput pfs s }"

text \<open>The numbers bound the depth of the object operations and the sleeps, as in \<open>do_waitpid\<close>.\<close>

definition pframe_shutdown :: "nat \<Rightarrow> nat \<Rightarrow> hdr \<Rightarrow> ext \<Rightarrow> kernel \<Rightarrow> unit outcome option" where
  "pframe_shutdown n k H X s = do {
     cur \<leftarrow> curproc s;
     KASSERT (PID_IDLE H = p_pid (procs s cur));
     r \<leftarrow> pageoutd_exit n H X s;
     (case r of
        Exited s \<Rightarrow> Some (Exited s)
      | Returned _ s \<Rightarrow> do {
          pd \<leftarrow> pageoutd s;
          let pid = p_pid (procs s pd);
          ((child, _), s) \<leftarrow> do_waitpid k H X (- 1) s;
          KASSERT (pid = child);
          KASSERT (npinned s = 0);
          s \<leftarrow> pframe_clean_all k H X (mmobj_cleanpage X) s;
          s \<leftarrow> shutdown_free H X (mmobj_put n H X) (alloc_list s) s;
          Some (Returned () s) }) }"

subsection \<open>The first processes\<close>

text \<open>
  \<open>bootstrap\<close> up to \<open>context_make_active\<close>, from where the machine runs the idle thread. No thread runs
  before.
\<close>

definition bootstrap :: "hdr \<Rightarrow> ext \<Rightarrow> proc_call" where
  "bootstrap H X s = do {
     (idle, s) \<leftarrow> proc_create H X ''IDLE'' s;
     let s = s\<lparr>curproc := Some idle\<rparr>;
     (thr, s) \<leftarrow> kthread_create H (Some idle) s;
     let s = s\<lparr>curthr := Some thr\<rparr>;
     KASSERT (PID_IDLE H = p_pid (procs s idle));
     Some s }"

definition initproc_create :: "hdr \<Rightarrow> ext \<Rightarrow> tid call" where
  "initproc_create H X s = do {
     (res_proc, s) \<leftarrow> proc_create H X ''init proc'' s;
     KASSERT (PID_INIT H = p_pid (procs s res_proc));
     kthread_create H (Some res_proc) s }"

record boot_ext =
  init_call_all :: proc_call
  final_shutdown :: proc_call
  S_IFCHR :: u32
  MEM_NULL_DEVID :: u32
  MEM_ZERO_DEVID :: u32
  MKDEVID :: "u32 \<Rightarrow> u32 \<Rightarrow> u32"

text \<open>The part of \<open>idleproc_run\<close> that gives the two processes a directory and makes the devices.\<close>

definition set_root :: "ext \<Rightarrow> paddr \<Rightarrow> proc_call" where
  "set_root X p s = do {
     root \<leftarrow> vfs_root_vn s;
     vref X root (upd_proc p (\<lambda>q. q\<lparr>p_cwd := Some root\<rparr>) s) }"

definition make_devices :: "hdr \<Rightarrow> ext \<Rightarrow> boot_ext \<Rightarrow> proc_call" where
  "make_devices H X B s = do {
     (_, s) \<leftarrow> do_mkdir H X ''/dev'' s;
     (_, s) \<leftarrow> do_mknod H X ''/dev/null'' (S_IFCHR B) (MEM_NULL_DEVID B) s;
     (_, s) \<leftarrow> do_mknod H X ''/dev/zero'' (S_IFCHR B) (MEM_ZERO_DEVID B) s;
     (_, s) \<leftarrow> do_mknod H X ''/dev/tty0'' (S_IFCHR B) (MKDEVID B 2 0) s;
     (_, s) \<leftarrow> do_mknod H X ''/dev/tty1'' (S_IFCHR B) (MKDEVID B 2 1) s;
     Some s }"

definition idleproc_run :: "nat \<Rightarrow> hdr \<Rightarrow> ext \<Rightarrow> boot_ext \<Rightarrow> proc_call" where
  "idleproc_run k H X B s = do {
     (initthr, s) \<leftarrow> initproc_create H X s;
     s \<leftarrow> init_call_all B s;
     cur \<leftarrow> curproc s;
     s \<leftarrow> set_root X cur s;
     th \<leftarrow> threads s initthr;
     initproc \<leftarrow> kt_proc th;
     s \<leftarrow> set_root X initproc s;
     s \<leftarrow> make_devices H X B s;
     let s = s\<lparr>intr_on := True\<rparr>;
     s \<leftarrow> sched_make_runnable initthr s;
     ((child, _), s) \<leftarrow> do_waitpid k H X (- 1) s;
     KASSERT (PID_INIT H = child);
     final_shutdown B s }"

subsection \<open>The kernel's tests\<close>

text \<open>
  A test command starts a process with the test in it and waits for children until it has none. The
  first number bounds how many there are.
\<close>

fun wait_children :: "nat \<Rightarrow> nat \<Rightarrow> hdr \<Rightarrow> ext \<Rightarrow> proc_call" where
  "wait_children j k H X s = do {
     cur \<leftarrow> curproc s;
     if p_children (procs s cur) \<noteq> []
     then (case j of 0 \<Rightarrow> None | Suc j \<Rightarrow> do { (_, s) \<leftarrow> do_waitpid k H X (- 1) s; wait_children j k H X s })
     else Some s }"

definition start_test :: "hdr \<Rightarrow> ext \<Rightarrow> string \<Rightarrow> paddr call" where
  "start_test H X name s = do {
     (tmp_proc, s) \<leftarrow> proc_create H X name s;
     (tmp_thread, s) \<leftarrow> kthread_create H (Some tmp_proc) s;
     s \<leftarrow> sched_make_runnable tmp_thread s;
     Some (tmp_proc, s) }"

definition test_dummy :: "nat \<Rightarrow> nat \<Rightarrow> hdr \<Rightarrow> ext \<Rightarrow> string \<Rightarrow> nat option \<Rightarrow> int call" where
  "test_dummy j k H X name kshell s = do {
     KASSERT (kshell \<noteq> None);
     (_, s) \<leftarrow> start_test H X name s;
     s \<leftarrow> wait_children j k H X s;
     Some (0, s) }"

definition sunghan_test_dummy :: "nat \<Rightarrow> nat \<Rightarrow> hdr \<Rightarrow> ext \<Rightarrow> nat option \<Rightarrow> int call" where
  "sunghan_test_dummy j k H X kshell s = test_dummy j k H X ''sunghanTest'' kshell s"

definition sunghan_deadlock_test_dummy :: "nat \<Rightarrow> nat \<Rightarrow> hdr \<Rightarrow> ext \<Rightarrow> nat option \<Rightarrow> int call" where
  "sunghan_deadlock_test_dummy j k H X kshell s = test_dummy j k H X ''sunghanDeadlockTest'' kshell s"

definition faber_thread_test_dummy :: "nat \<Rightarrow> nat \<Rightarrow> hdr \<Rightarrow> ext \<Rightarrow> nat option \<Rightarrow> int call" where
  "faber_thread_test_dummy j k H X kshell s = test_dummy j k H X ''faberThreadTest'' kshell s"

definition my_vfs_test :: "nat \<Rightarrow> hdr \<Rightarrow> ext \<Rightarrow> int call" where
  "my_vfs_test k H X s = do {
     (pt_vfs, s) \<leftarrow> start_test H X ''VFS'' s;
     (_, s) \<leftarrow> do_waitpid k H X (p_pid (procs s pt_vfs)) s;
     Some (0, s) }"

end
