(* ===== verification/Fd_Table.thy ===== *)
theory Fd_Table
  imports Vfs_Syscall
begin

text \<open>
  The descriptor table of a process under any sequence of \<open>do_open\<close>, \<open>do_close\<close>, \<open>do_dup\<close> and \<open>do_dup2\<close>: it
  keeps its size, and no file has fewer references than descriptors.
\<close>

definition fds_ok :: "hdr \<Rightarrow> paddr \<Rightarrow> kernel \<Rightarrow> bool" where
  "fds_ok H p s \<longleftrightarrow> curproc s = Some p \<and> length (p_files (procs s p)) = NFILES H \<and>
     (\<forall>f. int (count_list (p_files (procs s p)) (Some f)) \<le> f_refcount (files s f))"

inductive fd_step :: "hdr \<Rightarrow> ext \<Rightarrow> kernel \<Rightarrow> kernel \<Rightarrow> bool" for H X where
  opened: "do_open H X filename oflags s = Some (r, s') \<Longrightarrow> fd_step H X s s'"
| closed: "do_close H X fd s = Some (r, s') \<Longrightarrow> fd_step H X s s'"
| dupped: "do_dup H X fd s = Some (r, s') \<Longrightarrow> fd_step H X s s'"
| dupped2: "do_dup2 H X ofd nfd s = Some (r, s') \<Longrightarrow> fd_step H X s s'"

text \<open>What \<open>fget(-1)\<close> is documented to do: a new file with one reference, or NULL.\<close>

definition new_files_ok :: "ext \<Rightarrow> bool" where
  "new_files_ok X \<longleftrightarrow> (\<forall>s r s'. fget X (- 1) s = Some (r, s') \<longrightarrow>
     (case r of
        None \<Rightarrow> s' = s
      | Some f \<Rightarrow> s' = upd_file f (\<lambda>_. \<lparr>f_pos = 0, f_mode = 0, f_refcount = 1, f_vnode = None\<rparr>) s \<and>
          (\<forall>p. curproc s = Some p \<longrightarrow> Some f \<notin> set (p_files (procs s p)))))"

lemma new_filesD:
  assumes "new_files_ok X" and "fget X (- 1) s = Some (Some f, s')"
  shows "s' = upd_file f (\<lambda>_. \<lparr>f_pos = 0, f_mode = 0, f_refcount = 1, f_vnode = None\<rparr>) s"
    and "curproc s = Some p \<Longrightarrow> Some f \<notin> set (p_files (procs s p))"
  using assms(1) [unfolded new_files_ok_def, rule_format, OF assms(2)] by simp_all

lemma fds_okD:
  assumes "fds_ok H p s"
  shows "curproc s = Some p" and "length (p_files (procs s p)) = NFILES H"
    and "int (count_list (p_files (procs s p)) (Some f)) \<le> f_refcount (files s f)"
  using assms by (simp_all add: fds_ok_def)

lemma count_list_update_eq:
  "i < length xs \<Longrightarrow> int (count_list (xs[i := b]) a) =
     int (count_list xs a) - (if xs ! i = a then 1 else 0) + (if b = a then 1 else 0)"
proof (induction xs arbitrary: i)
  case (Cons x xs)
  show ?case
  proof (cases i)
    case (Suc j)
    then show ?thesis using Cons.IH [of j] Cons.prems by (auto split: if_splits)
  qed simp
qed simp

lemma set_fd_Some:
  assumes "set_fd p fd g s = Some s'"
  shows "0 \<le> fd" and "nat fd < length (p_files (procs s p))"
    and "s' = s\<lparr>procs := (procs s)(p := (procs s p)\<lparr>p_files := (p_files (procs s p))[nat fd := g]\<rparr>)\<rparr>"
  using assms by (auto simp: set_fd_def upd_proc_def split: if_splits)

text \<open>Storing a file in a slot, with the reference that the slot takes counted before.\<close>

lemma fds_ok_store:
  assumes "set_fd p fd g s = Some s'" and "curproc s = Some p" and "length (p_files (procs s p)) = NFILES H"
    and "\<And>f. int (count_list (p_files (procs s p)) (Some f)) - (if p_files (procs s p) ! nat fd = Some f then 1 else 0) +
       (if g = Some f then 1 else 0) \<le> f_refcount (files s f)"
  shows "fds_ok H p s'"
  using assms(2-) set_fd_Some [OF assms(1)] by (simp add: fds_ok_def count_list_update_eq)

lemma fget_Some:
  assumes "file_api_ok X" and "fds_ok H p s" and "0 \<le> fd" "fd < int (NFILES H)" and "fget X fd s = Some (r, s')"
  shows "r = p_files (procs s p) ! nat fd"
    and "s' = (case r of None \<Rightarrow> s | Some f \<Rightarrow> upd_file f (\<lambda>x. x\<lparr>f_refcount := f_refcount x + 1\<rparr>) s)"
proof -
  have "nat fd < length (p_files (procs s p))" using assms(3,4) fds_okD(2) [OF assms(2)] by (simp add: nat_less_iff)
  from fget_eq [OF assms(1) fds_okD(1) [OF assms(2)] assms(3) this] assms(5)
  show "r = p_files (procs s p) ! nat fd"
    "s' = (case r of None \<Rightarrow> s | Some f \<Rightarrow> upd_file f (\<lambda>x. x\<lparr>f_refcount := f_refcount x + 1\<rparr>) s)"
    by (auto split: option.splits)
qed

text \<open>A new reference on a file that a slot takes.\<close>

lemma fds_ok_share:
  assumes "fds_ok H p s" and "set_fd p fd (Some f) (upd_file f (\<lambda>x. x\<lparr>f_refcount := f_refcount x + 1\<rparr>) s) = Some s'"
  shows "fds_ok H p s'"
proof (rule fds_ok_store [OF assms(2)])
  fix g
  show "int (count_list (p_files (procs (upd_file f (\<lambda>x. x\<lparr>f_refcount := f_refcount x + 1\<rparr>) s) p)) (Some g)) -
     (if p_files (procs (upd_file f (\<lambda>x. x\<lparr>f_refcount := f_refcount x + 1\<rparr>) s) p) ! nat fd = Some g then 1 else 0) +
     (if Some f = Some g then 1 else 0) \<le> f_refcount (files (upd_file f (\<lambda>x. x\<lparr>f_refcount := f_refcount x + 1\<rparr>) s) g)"
    using fds_okD(3) [OF assms(1), of g] by (auto simp: upd_file_def)
qed (use fds_okD [OF assms(1)] in \<open>simp_all add: upd_file_def\<close>)

lemma do_close_keeps:
  assumes api: "file_api_ok X" and ok: "fds_ok H p s" and run: "do_close H X fd s = Some (r, s')"
  shows "fds_ok H p s'"
proof (cases "s' = s")
  case False
  with run ok obtain f where f: "p_files (procs s p) ! nat fd = Some f" and st: "set_fd p fd None (put X f s) = Some s'"
    by (auto simp: do_close_def bind_Some_iff get_fd_def fds_ok_def fput_eq(1) [OF api] split: if_splits option.splits)
  show ?thesis
  proof (rule fds_ok_store [OF st])
    fix g
    show "int (count_list (p_files (procs (put X f s) p)) (Some g)) - (if p_files (procs (put X f s) p) ! nat fd = Some g then 1 else 0) +
       (if None = Some g then 1 else 0) \<le> f_refcount (files (put X f s) g)"
      using fds_okD(3) [OF ok, of g] f by (auto simp: fput_eq(3,4) [OF api])
  qed (use fds_okD [OF ok] in \<open>simp_all add: fput_eq(2,3) [OF api]\<close>)
qed (use ok in simp)

lemma do_dup_keeps:
  assumes api: "file_api_ok X" and ok: "fds_ok H p s" and run: "do_dup H X fd s = Some (r, s')"
  shows "fds_ok H p s'"
proof (cases "0 \<le> fd \<and> fd < int (NFILES H)")
  case True
  then obtain fl s1 where g: "fget X fd s = Some (fl, s1)" using run by (auto simp: do_dup_def bind_Some_iff)
  show ?thesis
  proof (cases fl)
    case None
    then show ?thesis using fget_Some(2) [OF api ok _ _ g] True run g ok by (auto simp: do_dup_def)
  next
    case (Some f)
    then show ?thesis
      using fget_Some(2) [OF api ok _ _ g] True run g fds_ok_share [OF ok] fds_okD(1) [OF ok]
      by (auto simp: do_dup_def bind_Some_iff Let_def upd_file_def)
  qed
qed (use run ok in \<open>auto simp: do_dup_def\<close>)

lemma do_dup2_keeps:
  assumes api: "file_api_ok X" and ok: "fds_ok H p s" and run: "do_dup2 H X ofd nfd s = Some (r, s')"
  shows "fds_ok H p s'"
proof (cases "0 \<le> ofd \<and> ofd < int (NFILES H) \<and> 0 \<le> nfd \<and> nfd < int (NFILES H)")
  case True
  then obtain fl s1 where g: "fget X ofd s = Some (fl, s1)" using run by (auto simp: do_dup2_def bind_Some_iff)
  show ?thesis
  proof (cases fl)
    case None
    then show ?thesis using fget_Some(2) [OF api ok _ _ g] True run g ok by (auto simp: do_dup2_def)
  next
    case (Some f)
    then have s1: "s1 = upd_file f (\<lambda>x. x\<lparr>f_refcount := f_refcount x + 1\<rparr>) s" and f: "p_files (procs s p) ! nat ofd = Some f"
      using fget_Some [OF api ok _ _ g] True by simp_all
    have p: "curproc s1 = Some p" using fds_okD(1) [OF ok] by (simp add: s1 upd_file_def)
    obtain s2 where s2: "set_fd p nfd (Some f) s1 = Some s2" and s': "(if nfd = ofd then fput X f s2 else Some s2) = Some s'"
      using run True g p Some by (auto simp: do_dup2_def bind_Some_iff)
    have ok2: "fds_ok H p s2" by (rule fds_ok_share [OF ok s2 [unfolded s1]])
    show ?thesis
    proof (cases "nfd = ofd")
      case same: True
      have s2': "p_files (procs s2 p) = p_files (procs s p)" "files s2 = files s1"
        using set_fd_Some(3) [OF s2] same list_update_id [of "p_files (procs s p)" "nat ofd", unfolded f] by (simp_all add: s1 upd_file_def)
      have "s' = put X f s2" using s' same by (simp add: fput_eq(1) [OF api])
      then show ?thesis
        using fds_okD(1,2) [OF ok2] fds_okD(3) [OF ok] by (simp add: fds_ok_def fput_eq(2-4) [OF api] s2' s1 upd_file_def)
    qed (use s' ok2 in simp)
  qed
qed (use run ok in \<open>auto simp: do_dup2_def split: if_splits\<close>)


lemma do_open_keeps:
  assumes api: "file_api_ok X" and vapi: "vfs_api_ok X" and err: "errnos_ok (Err H)" and new: "new_files_ok X"
    and ok: "fds_ok H p s" and run: "do_open H X filename oflags s = Some (r, s')"
  shows "fds_ok H p s'"
proof (cases "oflags AND O_WRONLY H \<noteq> 0 \<and> oflags AND O_RDWR H \<noteq> 0")
  case False
  let ?new = "\<lambda>m. \<lparr>f_pos = 0, f_mode = m, f_refcount = 1, f_vnode = None\<rparr>"
  define fd where "fd = get_empty_fd H p s"
  obtain fl s1 where g: "fget X (- 1) s = Some (fl, s1)"
    using run False by (auto simp: do_open_def bind_Some_iff Let_def)
  obtain s2 f where s2: "set_fd p fd fl s1 = Some s2" and fl: "fl = Some f"
    using run False g fds_okD(1) [OF ok] by (auto simp: do_open_def bind_Some_iff fd_def Let_def)
  have s1: "s1 = upd_file f (\<lambda>_. ?new 0) s" and fresh: "Some f \<notin> set (p_files (procs s p))"
    using new_filesD [OF new g [unfolded fl]] fds_okD(1) [OF ok] by simp_all
  define s3 where "s3 = upd_file f (\<lambda>x. x\<lparr>f_mode := open_mode H oflags\<rparr>) s2"
  have ok3: "fds_ok H p s3"
  proof -
    have "fds_ok H p s2"
    proof (rule fds_ok_store [OF s2])
      fix h
      show "int (count_list (p_files (procs s1 p)) (Some h)) - (if p_files (procs s1 p) ! nat fd = Some h then 1 else 0) +
         (if fl = Some h then 1 else 0) \<le> f_refcount (files s1 h)"
        using fds_okD(3) [OF ok, of h] fresh by (auto simp: s1 upd_file_def fl count_notin)
    qed (use fds_okD [OF ok] in \<open>simp_all add: s1 upd_file_def\<close>)
    then show ?thesis by (simp add: fds_ok_def s3_def upd_file_def)
  qed
  have slot: "0 \<le> fd" "nat fd < length (p_files (procs s p))" "p_files (procs s3 p) ! nat fd = Some f"
    using set_fd_Some [OF s2] by (simp_all add: s1 s3_def upd_file_def fl)
  have undo: "fds_ok H p u" if "frame s3 t" "set_fd p fd None (put X f t) = Some u" for t u
  proof (rule fds_ok_store [OF that(2)])
    fix h
    show "int (count_list (p_files (procs (put X f t) p)) (Some h)) - (if p_files (procs (put X f t) p) ! nat fd = Some h then 1 else 0) +
       (if None = Some h then 1 else 0) \<le> f_refcount (files (put X f t) h)"
      using fds_okD(3) [OF ok3, of h] slot(3) that(1) by (auto simp: fput_eq(3,4) [OF api] frame_def)
  qed (use fds_okD [OF ok3] that(1) in \<open>simp_all add: fput_eq(2,3) [OF api] frame_def\<close>)
  obtain res vn s4 where o: "open_namev H X filename oflags None s3 = Some ((res, vn), s4)"
    using run False g s2 fds_okD(1) [OF ok] by (auto simp: do_open_def bind_Some_iff fd_def [symmetric] Let_def fl s3_def)
  have fr: "frame s3 s4" by (rule open_namev_refs(3) [OF vapi err o])
  have rest: "do_open H X filename oflags s = (if res < 0 then do { s \<leftarrow> fput X f s4; s \<leftarrow> set_fd p fd None s; Some (res, s) }
       else do {
         vnode \<leftarrow> vn;
         if S_ISDIR H (vn_mode (vnodes s4 vnode)) \<and> (oflags AND O_WRONLY H \<noteq> 0 \<or> oflags AND O_RDWR H \<noteq> 0)
         then do { s \<leftarrow> vput X vnode s4; s \<leftarrow> fput X f s; s \<leftarrow> set_fd p fd None s; Some (- Err H EISDIR, s) }
         else Some (fd, upd_file f (\<lambda>x. x\<lparr>f_vnode := Some vnode, f_pos := 0\<rparr>) s4) })"
    unfolding do_open_def if_not_P [OF False]
    using g s2 fds_okD(1) [OF ok] o by (simp add: fd_def Let_def fl s3_def cong: if_cong)
  have keep: "fds_ok H p (upd_file f (\<lambda>x. x\<lparr>f_vnode := w, f_pos := 0\<rparr>) s4)" for w
    using ok3 fr by (auto simp: fds_ok_def upd_file_def frame_def)
  have vput_frame: "frame s3 t" if "vput X v s4 = Some t" for v t
    using frame_trans [OF fr vfs_api(12) [OF vapi that]] .
  show ?thesis
    using run [unfolded rest] undo [OF fr] undo [OF vput_frame] keep
    by (auto simp: bind_Some_iff fput_eq(1) [OF api] split: if_splits)
qed (use run ok in \<open>simp add: do_open_def\<close>)

lemma fd_steps_keep:
  assumes "file_api_ok X" and "vfs_api_ok X" and "errnos_ok (Err H)" and "new_files_ok X"
    and "(fd_step H X)\<^sup>*\<^sup>* s s'" and "fds_ok H p s"
  shows "fds_ok H p s'"
  using assms(5,6)
proof induction
  case (step t u)
  from step.hyps(2) step.IH [OF step.prems] show ?case
    by cases (auto intro: do_open_keeps do_close_keeps do_dup_keeps do_dup2_keeps assms(1-4))
qed


lemma do_close_returns:
  assumes "file_api_ok X" and "fds_ok H p s" and "i < NFILES H" and "p_files (procs s p) ! i = Some f"
  shows "\<exists>s'. do_close H X (int i) s = Some (0, s')"
  using assms(3,4) fds_okD [OF assms(2)]
  by (simp add: do_close_def get_fd_def fput_eq [OF assms(1)] set_fd_def)


text \<open>An example: the file 44 is new while the table does not name it.\<close>

definition fresh_files :: ext where
  "fresh_files = tiny_files\<lparr>fget := (\<lambda>fd s.
     if fd = - 1
     then if (case curproc s of None \<Rightarrow> True | Some p \<Rightarrow> Some 44 \<in> set (p_files (procs s p))) then Some (None, s)
       else Some (Some 44, upd_file 44 (\<lambda>_. \<lparr>f_pos = 0, f_mode = 0, f_refcount = 1, f_vnode = None\<rparr>) s)
     else fget std_ext fd s)\<rparr>"

lemma fresh_files_ok: "file_api_ok fresh_files" "vfs_api_ok fresh_files" "new_files_ok fresh_files"
  using tiny_files_file_api tiny_files_vfs_api
  by (auto simp: file_api_ok_def vfs_api_ok_def new_files_ok_def fresh_files_def tiny_files_def split: option.splits if_splits)

lemma open_files_fds_ok: "fds_ok four_fds 10 open_files"
  by (simp add: fds_ok_def)


end
