(* ===== verification/Unmap.thy ===== *)
theory Unmap
  imports Vmmap_Ops
begin

text \<open>
  \<open>vmmap_remove\<close> refines the removal of a range of pages from the map of an address space, in which every
  page number is mapped to a page of an object with a protection and flags.
\<close>

subsection \<open>The page map of an address space\<close>

definition page_info :: "vmarea \<Rightarrow> u32 \<Rightarrow> oaddr option \<times> u32 \<times> u32 \<times> u32" where
  "page_info v p = (vma_obj v, p - vma_start v + vma_off v, vma_prot v, vma_flags v)"

definition page_of :: "vmapaddr \<Rightarrow> u32 \<Rightarrow> kernel \<Rightarrow> (oaddr option \<times> u32 \<times> u32 \<times> u32) option" where
  "page_of mp p s = map_option (\<lambda>a. page_info (vmareas s a) p) (vmmap_lookup mp p s)"

text \<open>The same as a relation over the list of areas.\<close>

definition maps_to :: "(vmaddr \<Rightarrow> vmarea) \<Rightarrow> vmaddr list \<Rightarrow> u32 \<Rightarrow> oaddr option \<times> u32 \<times> u32 \<times> u32 \<Rightarrow> bool" where
  "maps_to h l p x \<longleftrightarrow> (\<exists>a\<in>set l. covers (h a) p \<and> x = page_info (h a) p)"

lemma page_of_maps_to:
  assumes "vmmap_wf H mp s"
  shows "page_of mp p s = Some x \<longleftrightarrow> maps_to (vmareas s) (vmm_list (vmmaps s mp)) p x"
  using vmmap_lookup_Some_iff [OF assms, of p] by (auto simp: page_of_def maps_to_def)

lemma page_of_eqI:
  assumes "vmmap_wf H mp s" and "vmmap_wf H mp s'"
    and "\<And>x. maps_to (vmareas s') (vmm_list (vmmaps s' mp)) p x \<longleftrightarrow> maps_to (vmareas s) (vmm_list (vmmaps s mp)) p x \<and> \<not> gone"
  shows "page_of mp p s' = (if gone then None else page_of mp p s)"
  using assms(3) unfolding page_of_maps_to [OF assms(1), symmetric] page_of_maps_to [OF assms(2), symmetric]
  by (cases "page_of mp p s"; cases "page_of mp p s'") auto

subsection \<open>Areas that shrink, go and split\<close>

lemma areas_ok_shrink:
  assumes "areas_ok h lo hi l"
    and "\<And>a. a \<in> set l \<Longrightarrow> vma_start (h a) \<le> vma_start (h' a) \<and> vma_start (h' a) < vma_end (h' a) \<and> vma_end (h' a) \<le> vma_end (h a)"
  shows "areas_ok h' lo hi l"
  using assms
proof (induction l arbitrary: lo)
  case (Cons a l)
  have a: "lo \<le> vma_start (h a)" "areas_ok h (vma_end (h a)) hi l" using Cons.prems(1) by auto
  have b: "vma_start (h a) \<le> vma_start (h' a)" "vma_start (h' a) < vma_end (h' a)" "vma_end (h' a) \<le> vma_end (h a)"
    using Cons.prems(2) [of a] by auto
  have "areas_ok h' (vma_end (h a)) hi l" using Cons.IH [OF a(2)] Cons.prems(2) by simp
  from areas_ok_mono [OF this b(3)] show ?case using a(1) b by auto
qed simp

lemma areas_ok_remove1: "areas_ok h lo hi l \<Longrightarrow> areas_ok h lo hi (remove1 t l)"
proof (induction l arbitrary: lo)
  case (Cons a l)
  then show ?case using areas_ok_mono [of h "vma_end (h a)" hi l lo] by (auto dest: order.strict_implies_order order.trans)
qed simp

lemma covers_eq: "covers v p \<longleftrightarrow> vma_start v \<le> p \<and> p < vma_end v"
  by (simp add: covers_def)

text \<open>An area of the list replaced by a part of it: the pages that it loses are not mapped any more.\<close>

lemma maps_to_shrink:
  assumes ok: "areas_ok h lo hi l" and t: "t \<in> set l" and "\<And>p. covers v p \<longleftrightarrow> covers (h t) p \<and> \<not> gone p"
    and "\<And>p. page_info v p = page_info (h t) p"
  shows "maps_to (h(t := v)) l p x \<longleftrightarrow> maps_to h l p x \<and> \<not> (gone p \<and> covers (h t) p)"
proof -
  have u: "a = t" if "a \<in> set l" "covers (h a) p" "covers (h t) p" for a
    using areas_ok_unique [OF ok that(1) t that(2,3)] .
  show ?thesis using t u assms(3) [of p] assms(4) [of p] by (auto simp: maps_to_def)
qed

lemma maps_to_remove1:
  assumes ok: "areas_ok h lo hi l" and t: "t \<in> set l" and "distinct l"
  shows "maps_to h (remove1 t l) p x \<longleftrightarrow> maps_to h l p x \<and> \<not> covers (h t) p"
proof -
  have u: "a = t" if "a \<in> set l" "covers (h a) p" "covers (h t) p" for a
    using areas_ok_unique [OF ok that(1) t that(2,3)] .
  show ?thesis using assms(3) t u by (auto simp: maps_to_def)
qed

subsection \<open>The objects behind the areas\<close>

text \<open>
  Referencing and dropping a memory object does not touch the address spaces. For objects of vnodes
  this is a promise of the code outside the repository.
\<close>

definition akeep :: "kernel \<Rightarrow> kernel \<Rightarrow> bool" where
  "akeep s s' \<longleftrightarrow> vmmaps s' = vmmaps s \<and> vmareas s' = vmareas s"

definition areas_api_ok :: "ext \<Rightarrow> bool" where
  "areas_api_ok X \<longleftrightarrow> (\<forall>ob s s'. vno_ref X ob s = Some s' \<longrightarrow> akeep s s') \<and> (\<forall>ob s s'. vno_put X ob s = Some s' \<longrightarrow> akeep s s')"

lemma akeep_mm_objs: "areas_api_ok X \<Longrightarrow> mm_objs akeep X"
  by unfold_locales (auto simp: akeep_def areas_api_ok_def log_hw_def upd_defs slab_obj_free_def page_free_def)

lemma std_ext_areas_api_ok: "areas_api_ok std_ext"
  by (simp add: areas_api_ok_def akeep_def std_ext_def upd_defs)

interpretation std_areas: mm_objs akeep std_ext
  by (rule akeep_mm_objs [OF std_ext_areas_api_ok])

lemmas akeep_put = mm_objs.mmobj_put_keeps [OF akeep_mm_objs]

lemma akeep_ref: "areas_api_ok X \<Longrightarrow> mmobj_ref X ob s = Some s' \<Longrightarrow> akeep s s'"
  by (auto simp: mmobj_ref_def areas_api_ok_def anon_ref_def shadow_ref_def akeep_def upd_defs
      split: mmobj_ops.splits if_splits)

subsection \<open>One area\<close>

definition remove_area :: "nat \<Rightarrow> hdr \<Rightarrow> ext \<Rightarrow> vmapaddr \<Rightarrow> u32 \<Rightarrow> u32 \<Rightarrow> vmaddr \<Rightarrow> proc_call" where
  "remove_area n H X mp lo np t s = do {
     s \<leftarrow> remove_case1 H X mp lo np t s;
     remove_case4 n H X mp lo np t (remove_case3 lo np t (remove_case2 lo np t s)) }"

lemma vmmap_remove_loop_Cons:
  "vmmap_remove_loop n H X mp lo np (t # ts) s = remove_area n H X mp lo np t s \<bind> vmmap_remove_loop n H X mp lo np ts"
  by (simp add: remove_area_def Let_def Option.bind_assoc)

definition meets :: "u32 \<Rightarrow> u32 \<Rightarrow> vmarea \<Rightarrow> bool" where
  "meets lo hi v \<longleftrightarrow> lo < vma_end v \<and> vma_start v < hi"

definition split_by :: "u32 \<Rightarrow> u32 \<Rightarrow> vmarea \<Rightarrow> bool" where
  "split_by lo hi v \<longleftrightarrow> vma_start v < lo \<and> hi < vma_end v"

lemma remove_area_apart:
  assumes "lo \<le> lo + np" and "vma_start (vmareas s t) < vma_end (vmareas s t)" and "\<not> meets lo (lo + np) (vmareas s t)"
    and "\<not> split_by lo (lo + np) (vmareas s t)"
  shows "remove_area n H X mp lo np t s = Some s"
  using assms
  by (auto simp: remove_area_def remove_case1_def remove_case2_def remove_case3_def remove_case4_def Let_def
      meets_def split_by_def not_less)

lemma remove_loop_apart:
  assumes "lo \<le> lo + np" and "\<forall>t\<in>set ts. vma_start (vmareas s t) < vma_end (vmareas s t) \<and> \<not> meets lo (lo + np) (vmareas s t) \<and>
     \<not> split_by lo (lo + np) (vmareas s t)"
  shows "vmmap_remove_loop n H X mp lo np ts s = Some s"
  using assms(2) by (induction ts) (simp_all del: vmmap_remove_loop.simps(2) add: vmmap_remove_loop_Cons remove_area_apart [OF assms(1)])

lemma apart_below:
  "vma_start v < vma_end v \<Longrightarrow> vma_end v \<le> m \<Longrightarrow> m < lo \<Longrightarrow> lo \<le> hi \<Longrightarrow>
    vma_start v < vma_end v \<and> \<not> meets lo hi v \<and> \<not> split_by lo hi v"
  by (auto simp: meets_def split_by_def)

lemma apart_above:
  "vma_start v < vma_end v \<Longrightarrow> hi < m \<Longrightarrow> m \<le> vma_start v \<Longrightarrow> lo \<le> hi \<Longrightarrow>
    vma_start v < vma_end v \<and> \<not> meets lo hi v \<and> \<not> split_by lo hi v"
  by (auto simp: meets_def split_by_def)

text \<open>The three ways in which an area that is not split loses pages.\<close>

lemma remove_area_cases:
  assumes "areas_api_ok X" and "lo \<le> lo + np" and "vma_start (vmareas s t) < vma_end (vmareas s t)"
    and ns: "\<not> split_by lo (lo + np) (vmareas s t)" and run: "remove_area n H X mp lo np t s = Some s'"
  obtains (apart) "s' = s" and "\<not> meets lo (lo + np) (vmareas s t)"
  | (low) "vma_start (vmareas s t) < lo" and "lo < vma_end (vmareas s t)" and "vma_end (vmareas s t) \<le> lo + np"
      and "vmmaps s' = vmmaps s" and "vmareas s' = (vmareas s)(t := (vmareas s t)\<lparr>vma_end := lo\<rparr>)"
  | (high) "lo \<le> vma_start (vmareas s t)" and "vma_start (vmareas s t) < lo + np" and "lo + np < vma_end (vmareas s t)"
      and "vmmaps s' = vmmaps s"
      and "vmareas s' = (vmareas s)(t := (vmareas s t)\<lparr>vma_off := vma_off (vmareas s t) + (lo + np) - vma_start (vmareas s t), vma_start := lo + np\<rparr>)"
  | (whole) "lo \<le> vma_start (vmareas s t)" and "vma_end (vmareas s t) \<le> lo + np"
      and "vmmaps s' = (vmmaps s)(mp := (vmmaps s mp)\<lparr>vmm_list := remove1 t (vmm_list (vmmaps s mp))\<rparr>)" and "vmareas s' = vmareas s"
proof -
  let ?v = "vmareas s t"
  have c1: "remove_case1 H X mp lo np t s = Some s" using ns by (auto simp: remove_case1_def split_by_def Let_def)
  consider (a) "\<not> meets lo (lo + np) ?v" | (b) "vma_start ?v < lo" "lo < vma_end ?v" "vma_end ?v \<le> lo + np"
    | (c) "lo \<le> vma_start ?v" "vma_start ?v < lo + np" "lo + np < vma_end ?v" | (d) "lo \<le> vma_start ?v" "vma_end ?v \<le> lo + np"
    using ns unfolding meets_def split_by_def by (meson not_less)
  then show thesis
  proof cases
    case a
    then show ?thesis using apart remove_area_apart [OF assms(2,3) a ns] run by simp
  next
    case b
    let ?s = "upd_vmarea t (\<lambda>v. v\<lparr>vma_end := lo\<rparr>) s"
    have "remove_case2 lo np t s = ?s" using b by (simp add: remove_case2_def)
    moreover have "remove_case3 lo np t ?s = ?s" using b assms(2) by (auto simp: remove_case3_def upd_vmarea_def Let_def)
    moreover have "remove_case4 n H X mp lo np t ?s = Some ?s" using b by (auto simp: remove_case4_def upd_vmarea_def Let_def)
    ultimately have "s' = ?s" using run by (simp add: remove_area_def c1)
    then show ?thesis using b low by (simp add: upd_vmarea_def)
  next
    case c
    let ?s = "upd_vmarea t (\<lambda>v. v\<lparr>vma_off := vma_off v + (lo + np) - vma_start v, vma_start := lo + np\<rparr>) s"
    have "remove_case2 lo np t s = s" using c by (auto simp: remove_case2_def Let_def)
    moreover have "remove_case3 lo np t s = ?s" using c by (simp add: remove_case3_def)
    moreover have "remove_case4 n H X mp lo np t ?s = Some ?s" using c by (auto simp: remove_case4_def upd_vmarea_def Let_def)
    ultimately have "s' = ?s" using run by (simp add: remove_area_def c1)
    then show ?thesis using c high by (simp add: upd_vmarea_def)
  next
    case d
    then have "remove_case2 lo np t s = s" "remove_case3 lo np t s = s" by (auto simp: remove_case2_def remove_case3_def Let_def)
    then have "remove_case4 n H X mp lo np t s = Some s'" using run by (simp add: remove_area_def c1)
    then obtain ob s1 where "mmobj_put n H X ob s = Some s1"
       "s' = vmarea_free t (olink_remove t (upd_vmmap mp (\<lambda>m. m\<lparr>vmm_list := remove1 t (vmm_list m)\<rparr>) s1))"
      using d by (auto simp: remove_case4_def Let_def bind_Some_iff)
    then show ?thesis using d whole akeep_put [OF assms(1)]
      by (simp add: akeep_def vmarea_free_def olink_remove_def slab_obj_free_def upd_vmmap_def)
  qed
qed

lemma vmmap_wfD:
  assumes "vmmap_wf H mp s"
  shows "distinct (vmm_list (vmmaps s mp))" and "areas_ok (vmareas s) (lo_pn H) (hi_pn H) (vmm_list (vmmaps s mp))"
    and "a \<in> set (vmm_list (vmmaps s mp)) \<Longrightarrow> vma_vmmap (vmareas s a) = Some mp"
    and "a \<in> set (vmm_list (vmmaps s mp)) \<Longrightarrow> vma_start (vmareas s a) < vma_end (vmareas s a)"
  using assms areas_ok_mem by (auto simp: vmmap_wf_def)

text \<open>A well-formed address space in which one area is replaced by a part of it.\<close>

lemma vmmap_wf_shrink:
  assumes "vmmap_wf H mp s" and "vmmaps s' mp = vmmaps s mp" and "vmareas s' = (vmareas s)(t := v)"
    and "vma_start (vmareas s t) \<le> vma_start v" "vma_start v < vma_end v" "vma_end v \<le> vma_end (vmareas s t)"
    and "vma_vmmap v = vma_vmmap (vmareas s t)"
  shows "vmmap_wf H mp s'"
proof -
  have "areas_ok (vmareas s') (lo_pn H) (hi_pn H) (vmm_list (vmmaps s mp))"
    by (rule areas_ok_shrink [OF vmmap_wfD(2) [OF assms(1)]]) (use assms(3-6) vmmap_wfD(4) [OF assms(1)] in auto)
  then show ?thesis using assms(1-3,7) by (auto simp: vmmap_wf_def)
qed

lemma remove_area_step:
  assumes api: "areas_api_ok X" and le: "lo \<le> lo + np" and wf: "vmmap_wf H mp s" and t: "t \<in> set (vmm_list (vmmaps s mp))"
    and ns: "\<not> split_by lo (lo + np) (vmareas s t)" and run: "remove_area n H X mp lo np t s = Some s'"
  shows "vmmap_wf H mp s'" and "\<And>b. b \<noteq> t \<Longrightarrow> vmareas s' b = vmareas s b"
    and "set (vmm_list (vmmaps s mp)) - {t} \<subseteq> set (vmm_list (vmmaps s' mp))"
    and "maps_to (vmareas s') (vmm_list (vmmaps s' mp)) p x \<longleftrightarrow>
      maps_to (vmareas s) (vmm_list (vmmaps s mp)) p x \<and> \<not> ((lo \<le> p \<and> p < lo + np) \<and> covers (vmareas s t) p)"
proof -
  note ok = vmmap_wfD(2) [OF wf]
  have "vmmap_wf H mp s' \<and> (\<forall>b. b \<noteq> t \<longrightarrow> vmareas s' b = vmareas s b) \<and>
     set (vmm_list (vmmaps s mp)) - {t} \<subseteq> set (vmm_list (vmmaps s' mp)) \<and>
     (maps_to (vmareas s') (vmm_list (vmmaps s' mp)) p x \<longleftrightarrow>
      maps_to (vmareas s) (vmm_list (vmmaps s mp)) p x \<and> \<not> ((lo \<le> p \<and> p < lo + np) \<and> covers (vmareas s t) p))"
    using api le vmmap_wfD(4) [OF wf t] ns run
  proof (cases rule: remove_area_cases)
    case apart
    then have "\<not> ((lo \<le> p \<and> p < lo + np) \<and> covers (vmareas s t) p)"
      unfolding meets_def covers_def by (meson le_less_trans)
    then show ?thesis using apart wf by simp
  next
    case low
    let ?v = "(vmareas s t)\<lparr>vma_end := lo\<rparr>"
    have "vmmap_wf H mp s'" by (rule vmmap_wf_shrink [OF wf _ low(5)]) (use low in simp_all)
    moreover have "covers ?v q \<longleftrightarrow> covers (vmareas s t) q \<and> \<not> (lo \<le> q \<and> q < lo + np)" for q
      using low(1-3) unfolding covers_def by (auto simp: not_le)
    moreover have "page_info ?v q = page_info (vmareas s t) q" for q by (simp add: page_info_def)
    ultimately show ?thesis using maps_to_shrink [OF ok t, of ?v "\<lambda>q. lo \<le> q \<and> q < lo + np" p x] low(4,5) by simp
  next
    case high
    let ?v = "(vmareas s t)\<lparr>vma_off := vma_off (vmareas s t) + (lo + np) - vma_start (vmareas s t), vma_start := lo + np\<rparr>"
    have "vmmap_wf H mp s'" by (rule vmmap_wf_shrink [OF wf _ high(5)]) (use high in simp_all)
    moreover have "covers ?v q \<longleftrightarrow> covers (vmareas s t) q \<and> \<not> (lo \<le> q \<and> q < lo + np)" for q
      using high(1-3) unfolding covers_def by (auto simp: not_le)
    moreover have "page_info ?v q = page_info (vmareas s t) q" for q by (simp add: page_info_def)
    ultimately show ?thesis using maps_to_shrink [OF ok t, of ?v "\<lambda>q. lo \<le> q \<and> q < lo + np" p x] high(4,5) by simp
  next
    case whole
    have l': "vmm_list (vmmaps s' mp) = remove1 t (vmm_list (vmmaps s mp))" using whole(3) by simp
    have "vmmap_wf H mp s'"
      using wf areas_ok_remove1 [OF ok, of t] whole(4) set_remove1_subset by (fastforce simp: vmmap_wf_def l')
    moreover have "covers (vmareas s t) p \<longrightarrow> lo \<le> p \<and> p < lo + np"
      using whole(1,2) unfolding covers_def by (meson order_trans less_le_trans)
    ultimately show ?thesis
      using maps_to_remove1 [OF ok t vmmap_wfD(1) [OF wf], of p x] whole(4) vmmap_wfD(1) [OF wf] by (auto simp: l')
  qed
  then show "vmmap_wf H mp s'" "\<And>b. b \<noteq> t \<Longrightarrow> vmareas s' b = vmareas s b"
    "set (vmm_list (vmmaps s mp)) - {t} \<subseteq> set (vmm_list (vmmaps s' mp))"
    "maps_to (vmareas s') (vmm_list (vmmaps s' mp)) p x \<longleftrightarrow>
      maps_to (vmareas s) (vmm_list (vmmaps s mp)) p x \<and> \<not> ((lo \<le> p \<and> p < lo + np) \<and> covers (vmareas s t) p)"
    by blast+
qed

subsection \<open>The loop\<close>

lemma remove_loop_no_split:
  assumes api: "areas_api_ok X" and le: "lo \<le> lo + np"
  shows "vmmap_remove_loop n H X mp lo np ts s = Some s' \<Longrightarrow> vmmap_wf H mp s \<Longrightarrow> distinct ts \<Longrightarrow>
    set ts \<subseteq> set (vmm_list (vmmaps s mp)) \<Longrightarrow> \<forall>t\<in>set ts. \<not> split_by lo (lo + np) (vmareas s t) \<Longrightarrow>
    vmmap_wf H mp s' \<and> (\<forall>p x. maps_to (vmareas s') (vmm_list (vmmaps s' mp)) p x \<longleftrightarrow>
      maps_to (vmareas s) (vmm_list (vmmaps s mp)) p x \<and>
      \<not> ((lo \<le> p \<and> p < lo + np) \<and> (\<exists>t\<in>set ts. covers (vmareas s t) p)))"
proof (induction ts arbitrary: s)
  case (Cons t ts)
  from Cons.prems(1) obtain s1 where s1: "remove_area n H X mp lo np t s = Some s1" and r: "vmmap_remove_loop n H X mp lo np ts s1 = Some s'"
    unfolding vmmap_remove_loop_Cons by (auto simp: bind_Some_iff)
  have "t \<in> set (vmm_list (vmmaps s mp))" "\<not> split_by lo (lo + np) (vmareas s t)" using Cons.prems(4,5) by auto
  note st = remove_area_step [OF api le Cons.prems(2) this s1]
  have same: "vmareas s1 b = vmareas s b" if "b \<in> set ts" for b by (rule st(2)) (use that Cons.prems(3) in auto)
  have sub: "set ts \<subseteq> set (vmm_list (vmmaps s1 mp))" using st(3) Cons.prems(3,4) by auto
  have ns: "\<forall>b\<in>set ts. \<not> split_by lo (lo + np) (vmareas s1 b)" using Cons.prems(5) same by simp
  have "distinct ts" using Cons.prems(3) by simp
  note ih = Cons.IH [OF r st(1) this sub ns]
  have "maps_to (vmareas s') (vmm_list (vmmaps s' mp)) p x \<longleftrightarrow>
      maps_to (vmareas s1) (vmm_list (vmmaps s1 mp)) p x \<and>
      \<not> ((lo \<le> p \<and> p < lo + np) \<and> (\<exists>t\<in>set ts. covers (vmareas s1 t) p))" for p x
    by (rule conjunct2 [OF ih, THEN spec, THEN spec])
  moreover have "(\<exists>b\<in>set ts. covers (vmareas s1 b) p) = (\<exists>b\<in>set ts. covers (vmareas s b) p)" for p using same by simp
  ultimately show ?case using st(4) conjunct1 [OF ih] by (simp del: split_paired_All) blast
qed simp

lemma remove_loop_append:
  "vmmap_remove_loop n H X mp lo np (xs @ ys) s = vmmap_remove_loop n H X mp lo np xs s \<bind> vmmap_remove_loop n H X mp lo np ys"
proof (induction xs arbitrary: s)
  case (Cons t xs)
  have "vmmap_remove_loop n H X mp lo np (xs @ ys) = (\<lambda>s. vmmap_remove_loop n H X mp lo np xs s \<bind> vmmap_remove_loop n H X mp lo np ys)"
    by (rule ext) (rule Cons.IH)
  then show ?case by (simp only: append_Cons vmmap_remove_loop_Cons Option.bind_assoc)
qed simp

lemma insert_loop_after:
  "\<forall>b\<in>set pre. \<not> vma_end (h a) \<le> vma_start (h b) \<Longrightarrow> \<forall>b\<in>set post. vma_end (h a) \<le> vma_start (h b) \<Longrightarrow>
    vmmap_insert_loop h a (pre @ post) = pre @ a # post"
proof (induction pre)
  case Nil
  then show ?case by (cases post) auto
qed auto

text \<open>The area that contains the range in its middle: it keeps the lower part, a new area gets the upper one.\<close>

definition upper_part :: "vmapaddr \<Rightarrow> u32 \<Rightarrow> vmarea \<Rightarrow> vmarea" where
  "upper_part mp hi v = v\<lparr>vma_start := hi, vma_off := vma_off v + hi - vma_start v, vma_vmmap := Some mp\<rparr>"

lemma upper_part_eq:
  "w\<lparr>vma_vmmap := None, vma_start := hi, vma_end := vma_end v, vma_off := vma_off v + hi - vma_start v, vma_flags := vma_flags v,
     vma_prot := vma_prot v, vma_obj := vma_obj v\<rparr> = (upper_part mp hi v)\<lparr>vma_vmmap := None\<rparr>"
  by (simp add: upper_part_def)

lemma remove_area_split:
  assumes api: "areas_api_ok X" and wf: "vmmap_wf H mp s" and le: "lo \<le> lo + np" and l: "vmm_list (vmmaps s mp) = pre @ t # post"
    and sp: "split_by lo (lo + np) (vmareas s t)" and fresh: "\<forall>a as. slab s = Some a # as \<longrightarrow> a \<notin> set (vmm_list (vmmaps s mp))"
    and run: "remove_area n H X mp lo np t s = Some s'"
  shows "\<exists>a. a \<notin> set (vmm_list (vmmaps s mp)) \<and> vmm_list (vmmaps s' mp) = pre @ t # a # post \<and>
     vmareas s' = (vmareas s)(a := upper_part mp (lo + np) (vmareas s t), t := (vmareas s t)\<lparr>vma_end := lo\<rparr>)"
proof -
  let ?v = "vmareas s t"
  have v: "vma_start ?v < lo" "lo + np < vma_end ?v" using sp by (simp_all add: split_by_def)
  obtain s1 where c1: "remove_case1 H X mp lo np t s = Some s1"
    and c4: "remove_case4 n H X mp lo np t (remove_case3 lo np t (remove_case2 lo np t s1)) = Some s'"
    using run by (auto simp: remove_area_def bind_Some_iff)
  obtain a as where sl: "slab s = Some a # as"
    using c1 v by (auto simp: remove_case1_def Let_def bind_Some_iff vmarea_alloc_def slab_obj_alloc_def split: list.splits option.splits)
  then have a: "a \<notin> set (vmm_list (vmmaps s mp))" using fresh by blast
  then have ne: "a \<noteq> t" using l by auto
  let ?s0 = "s\<lparr>slab := as, live := insert a (live s), vmareas := (vmareas s)(a := (upper_part mp (lo + np) ?v)\<lparr>vma_vmmap := None\<rparr>)\<rparr>"
  obtain s2 ob s3 where s2: "vmmap_insert H mp a ?s0 = Some s2" and s3: "mmobj_ref X ob s2 = Some s3"
    and s1: "s1 = upd_vmarea t (\<lambda>v. v\<lparr>vma_end := lo\<rparr>) s3"
    using c1 v ne by (auto simp: remove_case1_def Let_def bind_Some_iff vmarea_alloc_Some [OF sl] upd_vmarea_def upper_part_eq [where mp = mp])
  have ok: "areas_ok (vmareas s) (lo_pn H) (hi_pn H) (pre @ t # post)" using vmmap_wfD(2) [OF wf] by (simp add: l)
  then obtain mid where mid: "areas_ok (vmareas s) (lo_pn H) mid pre" "mid \<le> vma_start ?v" "areas_ok (vmareas s) (vma_end ?v) (hi_pn H) post"
    unfolding areas_ok_append by auto
  have pre: "\<not> vma_end ?v \<le> vma_start (vmareas s b)" if "b \<in> set (pre @ [t])" for b
    using areas_ok_mem [OF mid(1), of b] mid(2) vmmap_wfD(4) [OF wf, of t] that by (auto simp: l)
  have post: "vma_end ?v \<le> vma_start (vmareas s b)" if "b \<in> set post" for b using areas_ok_mem [OF mid(3) that] by simp
  have "vmmap_insert_loop (vmareas ?s0) a (vmm_list (vmmaps ?s0 mp)) = (pre @ [t]) @ a # post"
    using a pre post l insert_loop_after [of "pre @ [t]" "vmareas ?s0" a post] by (auto simp: upper_part_def)
  then have s2': "vmm_list (vmmaps s2 mp) = pre @ t # a # post" "vmareas s2 = (vmareas s)(a := upper_part mp (lo + np) ?v)"
    using s2 by (auto simp: vmmap_insert_def upd_simps upper_part_def Let_def split: if_splits)
  have s3': "vmmaps s3 = vmmaps s2" "vmareas s3 = vmareas s2" using akeep_ref [OF api s3] by (simp_all add: akeep_def)
  have "remove_case2 lo np t s1 = s1" "remove_case3 lo np t s1 = s1" "remove_case4 n H X mp lo np t s1 = Some s1"
    using v le ne by (auto simp: remove_case2_def remove_case3_def remove_case4_def Let_def s1 upd_vmarea_def s3' s2')
  then have "s' = s1" using c4 by simp
  then show ?thesis using a s2' ne by (intro exI [of _ a]) (simp add: s1 s3' upd_vmarea_def fun_upd_twist)
qed

lemma split_maps_to:
  assumes ok: "areas_ok h l0 h0 (pre @ t # post)" and le: "lo \<le> hi" and sp: "split_by lo hi (h t)" and a: "a \<notin> set (pre @ t # post)"
    and h': "h' = h(a := upper_part mp hi (h t), t := (h t)\<lparr>vma_end := lo\<rparr>)"
  shows "areas_ok h' l0 h0 (pre @ t # a # post)"
    and "maps_to h' (pre @ t # a # post) p x \<longleftrightarrow> maps_to h (pre @ t # post) p x \<and> \<not> (lo \<le> p \<and> p < hi)"
proof -
  have v: "vma_start (h t) < lo" "hi < vma_end (h t)" using sp by (simp_all add: split_by_def)
  have ne: "a \<noteq> t" using a by auto
  have u: "b = t" if "b \<in> set (pre @ t # post)" "covers (h b) q" "covers (h t) q" for b q
    using areas_ok_unique [OF ok that(1) _ that(2,3)] by simp
  have t: "t \<notin> set (pre @ post)"
  proof
    assume "t \<in> set (pre @ post)"
    then obtain mid where "t \<in> set pre \<and> vma_end (h t) \<le> vma_start (h t) \<or> t \<in> set post \<and> vma_end (h t) \<le> vma_start (h t)"
      using ok unfolding areas_ok_append by (auto dest: areas_ok_mem order.trans)
    then show False using v le by auto
  qed
  have same: "h' b = h b" if "b \<in> set pre \<or> b \<in> set post" for b using that a t by (auto simp: h')
  have new: "h' t = (h t)\<lparr>vma_end := lo\<rparr>" "h' a = upper_part mp hi (h t)" using ne by (simp_all add: h')
  from ok obtain mid where "areas_ok h l0 mid pre" "mid \<le> vma_start (h t)" "areas_ok h (vma_end (h t)) h0 post"
    unfolding areas_ok_append by auto
  moreover have "areas_ok h' l0 mid pre = areas_ok h l0 mid pre" "areas_ok h' (vma_end (h t)) h0 post = areas_ok h (vma_end (h t)) h0 post"
    using same by (auto intro!: areas_ok_cong)
  ultimately show "areas_ok h' l0 h0 (pre @ t # a # post)"
    using v le unfolding areas_ok_append by (auto simp: new upper_part_def)
  have parts: "covers (h' t) p \<or> covers (h' a) p \<longleftrightarrow> covers (h t) p \<and> \<not> (lo \<le> p \<and> p < hi)"
    using v le unfolding covers_def new upper_part_def by auto
  have info: "page_info (h' t) p = page_info (h t) p" "page_info (h' a) p = page_info (h t) p"
    by (simp_all add: new page_info_def upper_part_def)
  have inside: "covers (h t) p" if "lo \<le> p \<and> p < hi" using that v unfolding covers_def by auto
  have "maps_to h' (pre @ t # a # post) p x \<longleftrightarrow>
      (\<exists>b\<in>set pre \<union> set post. covers (h b) p \<and> x = page_info (h b) p) \<or> (covers (h t) p \<and> \<not> (lo \<le> p \<and> p < hi)) \<and> x = page_info (h t) p"
    using parts info same by (auto simp: maps_to_def)
  also have "\<dots> \<longleftrightarrow> maps_to h (pre @ t # post) p x \<and> \<not> (lo \<le> p \<and> p < hi)"
    using inside u t by (auto simp: maps_to_def)
  finally show "maps_to h' (pre @ t # a # post) p x \<longleftrightarrow> maps_to h (pre @ t # post) p x \<and> \<not> (lo \<le> p \<and> p < hi)" .
qed

lemma remove_loop_pages:
  assumes api: "areas_api_ok X" and wf: "vmmap_wf H mp s" and le: "lo \<le> lo + np"
    and fresh: "\<forall>a as. slab s = Some a # as \<longrightarrow> a \<notin> set (vmm_list (vmmaps s mp))"
    and run: "vmmap_remove_loop n H X mp lo np (vmm_list (vmmaps s mp)) s = Some s'"
  shows "vmmap_wf H mp s'" and "page_of mp p s' = (if lo \<le> p \<and> p < lo + np then None else page_of mp p s)"
proof -
  have "vmmap_wf H mp s' \<and> (\<forall>p x. maps_to (vmareas s') (vmm_list (vmmaps s' mp)) p x \<longleftrightarrow>
      maps_to (vmareas s) (vmm_list (vmmaps s mp)) p x \<and> \<not> (lo \<le> p \<and> p < lo + np))"
  proof (cases "\<exists>t\<in>set (vmm_list (vmmaps s mp)). split_by lo (lo + np) (vmareas s t)")
    case False
    note st = remove_loop_no_split [OF api le run wf vmmap_wfD(1) [OF wf] subset_refl]
    have "(\<exists>t\<in>set (vmm_list (vmmaps s mp)). covers (vmareas s t) p)" if "maps_to (vmareas s) (vmm_list (vmmaps s mp)) p x" for p x
      using that by (auto simp: maps_to_def)
    then show ?thesis using st False by (simp del: split_paired_All) blast
  next
    case True
    then obtain t pre post where l: "vmm_list (vmmaps s mp) = pre @ t # post" and sp: "split_by lo (lo + np) (vmareas s t)"
      by (meson split_list)
    have v: "vma_start (vmareas s t) < lo" "lo + np < vma_end (vmareas s t)" using sp by (simp_all add: split_by_def)
    note ok = vmmap_wfD(2) [OF wf, unfolded l]
    from ok obtain mid where mid: "areas_ok (vmareas s) (lo_pn H) mid pre" "mid \<le> vma_start (vmareas s t)"
       "areas_ok (vmareas s) (vma_end (vmareas s t)) (hi_pn H) post" unfolding areas_ok_append by auto
    have below: "vma_start (vmareas s b) < vma_end (vmareas s b) \<and> \<not> meets lo (lo + np) (vmareas s b) \<and> \<not> split_by lo (lo + np) (vmareas s b)"
      if "b \<in> set pre" for b
      using areas_ok_mem [OF mid(1) that] mid(2) v(1) le by (intro apart_below [of _ "vma_start (vmareas s t)"]) auto
    have above: "vma_start (vmareas s b) < vma_end (vmareas s b) \<and> \<not> meets lo (lo + np) (vmareas s b) \<and> \<not> split_by lo (lo + np) (vmareas s b)"
      if "b \<in> set post" for b
      using areas_ok_mem [OF mid(3) that] v(2) le by (intro apart_above [of _ _ "vma_end (vmareas s t)"]) auto
    have "vmmap_remove_loop n H X mp lo np pre s = Some s"
      using below by (intro remove_loop_apart [OF le]) blast
    then obtain s1 where s1: "remove_area n H X mp lo np t s = Some s1" and r: "vmmap_remove_loop n H X mp lo np post s1 = Some s'"
      using run unfolding l remove_loop_append vmmap_remove_loop_Cons by (auto simp: bind_Some_iff)
    from remove_area_split [OF api wf le l sp fresh s1] obtain a where a: "a \<notin> set (pre @ t # post)"
      and l1: "vmm_list (vmmaps s1 mp) = pre @ t # a # post"
      and h1: "vmareas s1 = (vmareas s)(a := upper_part mp (lo + np) (vmareas s t), t := (vmareas s t)\<lparr>vma_end := lo\<rparr>)"
      using l by auto
    have "vmareas s1 b = vmareas s b" if "b \<in> set post" for b
      using that a vmmap_wfD(1) [OF wf] by (auto simp: h1 l)
    then have "s' = s1" using remove_loop_apart [OF le, of post s1 n H X mp] above r by simp
    moreover note sm = split_maps_to [OF ok le sp a h1]
    moreover have "vmmap_wf H mp s1"
      using sm(1) a vmmap_wfD(1,3) [OF wf] by (auto simp: vmmap_wf_def l1 h1 l upper_part_def)
    ultimately show ?thesis by (simp add: l l1 del: split_paired_All)
  qed
  then show wf': "vmmap_wf H mp s'" and "page_of mp p s' = (if lo \<le> p \<and> p < lo + np then None else page_of mp p s)"
    using page_of_eqI [OF wf, of s' p "lo \<le> p \<and> p < lo + np"] by (blast, blast)
qed

lemma vmmap_remove_pages:
  assumes "areas_api_ok X" and "vmmap_wf H mp s" and "lo \<le> lo + np"
    and "\<forall>a as. slab s = Some a # as \<longrightarrow> a \<notin> set (vmm_list (vmmaps s mp))"
    and run: "vmmap_remove n H X (Some mp) lo np s = Some (r, s')"
  shows "r = 0 \<and> vmmap_wf H mp s' \<and> (\<forall>p. page_of mp p s' = (if lo \<le> p \<and> p < lo + np then None else page_of mp p s))"
proof -
  obtain s1 where s1: "vmmap_remove_loop n H X mp lo np (vmm_list (vmmaps s mp)) s = Some s1" and "r = 0" and
    same: "vmmaps s' = vmmaps s1" "vmareas s' = vmareas s1"
    using run by (auto simp: vmmap_remove_def bind_Some_iff Let_def log_hw_def)
  have "vmmap_wf H mp s' = vmmap_wf H mp s1" "page_of mp p s' = page_of mp p s1" for p
    by (simp_all add: vmmap_wf_def page_of_def vmmap_lookup_def same)
  then show ?thesis using remove_loop_pages [OF assms(1-4) s1] \<open>r = 0\<close> by simp
qed

text \<open>
  C4: \<open>vmmap_remove\<close> refines the removal of a range from the page map. Whenever it returns it has
  returned 0, the address space is well formed, no page of the range is mapped any more, and every
  other page is mapped to the same page of the same object, with the same protection and flags, whether
  the areas around the range were split, cut at either end or removed. The range does not wrap around
  and the allocator does not give out an area that is in use.
\<close>

theorem vmmap_remove_refines:
  assumes "areas_api_ok X" and "vmmap_wf H mp s" and "lo \<le> lo + np"
    and "\<forall>a as. slab s = Some a # as \<longrightarrow> a \<notin> set (vmm_list (vmmaps s mp))"
    and "vmmap_remove n H X (Some mp) lo np s = Some (r, s')"
  shows "r = 0 \<and> vmmap_wf H mp s' \<and> (\<forall>p. page_of mp p s' = (if lo \<le> p \<and> p < lo + np then None else page_of mp p s))"
  by (rule vmmap_remove_pages [OF assms])

text \<open>The address space of the example with objects: unmapping four pages in the middle of the first area.\<close>

definition unmapping :: kernel where
  "unmapping = two_areas\<lparr>vmareas := (vmareas two_areas)(100 := (vmareas two_areas 100)\<lparr>vma_obj := Some 60, vma_off := 7, vma_prot := 3\<rparr>),
     mmobjs := (mmobjs two_areas)(60 := blank_mmobj\<lparr>mmo_refcount := 1\<rparr>)\<rparr>"

theorem vmmap_remove_refines_witness:
  "\<exists>s'. vmmap_remove 1 std_hdr std_ext (Some 7) 0x404 4 unmapping = Some (0, s') \<and> vmmap_wf std_hdr 7 s' \<and>
     page_of 7 0x405 s' = None \<and> page_of 7 0x408 s' = Some (Some 60, 15, 3, 0)"
proof -
  have wf: "vmmap_wf std_hdr 7 unmapping"
    using two_areas_wf by (auto simp: vmmap_wf_def unmapping_def two_areas_def)
  have "vmmap_remove 1 std_hdr std_ext (Some 7) 0x404 4 unmapping \<noteq> None"
    by (simp add: vmmap_remove_def unmapping_def two_areas_def blank_vmarea_def remove_case1_def remove_case2_def remove_case3_def
      remove_case4_def Let_def vmarea_alloc_def slab_obj_alloc_def upd_defs vmmap_insert_def mmobj_ref_def anon_ref_def boot_def
      std_hdr_def log_hw_def blank_mmobj_def)
  then obtain r s' where run: "vmmap_remove 1 std_hdr std_ext (Some 7) 0x404 4 unmapping = Some (r, s')" by auto
  have fresh: "\<forall>a as. slab unmapping = Some a # as \<longrightarrow> a \<notin> set (vmm_list (vmmaps unmapping 7))"
    by (auto simp: unmapping_def two_areas_def)
  have "(0x404 :: u32) \<le> 0x404 + 4" by simp
  note r = vmmap_remove_refines [OF std_ext_areas_api_ok wf this fresh run]
  have "page_of 7 0x408 unmapping = Some (Some 60, 15, 3, 0)"
    by (simp add: page_of_def page_info_def vmmap_lookup_def unmapping_def two_areas_def blank_vmarea_def)
  then show ?thesis using r run by (intro exI [of _ s']) simp
qed

end
