(* ===== verification/Vm_Calls.thy ===== *)
theory Vm_Calls
  imports Proc Unmap
begin

text \<open>
  The system calls on the address space and the page-fault handler: \<open>kernel/vm/brk.c\<close>,
  \<open>kernel/vm/mmap.c\<close> and \<open>kernel/vm/pagefault.c\<close>. The first argument bounds the depth of the calls of
  the object operations, as in \<open>Shadow\<close>.
\<close>

subsection \<open>The break\<close>

definition validate_brk_addr :: "hdr \<Rightarrow> paddr \<Rightarrow> u32 \<Rightarrow> kernel \<Rightarrow> int" where
  "validate_brk_addr H p addr s =
     (if addr < p_start_brk (procs s p) \<or> addr > USER_MEM_HIGH H then - Err H ENOMEM else 0)"

definition expand_brk :: "hdr \<Rightarrow> paddr \<Rightarrow> vmaddr \<Rightarrow> u32 \<Rightarrow> u32 \<Rightarrow> u32 \<Rightarrow> int call" where
  "expand_brk H p vma prev_end cur_end npages s = do {
     mp \<leftarrow> p_vmmap (procs s p);
     empty \<leftarrow> vmmap_is_range_empty H mp prev_end npages s;
     if empty = 0 then Some (- Err H ENOMEM, s)
     else Some (0, upd_vmarea vma (\<lambda>v. v\<lparr>vma_end := cur_end\<rparr>) s) }"

text \<open>
  \<open>do_brk\<close>: the second component of the result is what the call stores in \<open>*ret\<close>. A break whose first
  page is not mapped is a NULL area, which the code dereferences.
\<close>

definition do_brk :: "nat \<Rightarrow> hdr \<Rightarrow> ext \<Rightarrow> u32 \<Rightarrow> (int \<times> u32 option) call" where
  "do_brk n H X addr s = do {
     p \<leftarrow> curproc s;
     if addr = 0 then Some ((0, Some (p_brk (procs s p))), s)
     else if validate_brk_addr H p addr s < 0 then Some ((validate_brk_addr H p addr s, None), s)
     else do {
       mp \<leftarrow> p_vmmap (procs s p);
       vma \<leftarrow> vmmap_lookup mp (ADDR_TO_PN H (p_start_brk (procs s p))) s;
       let prev_end = vma_end (vmareas s vma);
       let cur_end = ADDR_TO_PN H (PAGE_ALIGN_UP H addr);
       let num_pages = cur_end - prev_end;
       (err, s) \<leftarrow>
         (if prev_end < cur_end then expand_brk H p vma prev_end cur_end num_pages s
          else if prev_end > cur_end
          then do { (_, s) \<leftarrow> vmmap_remove n H X (Some mp) cur_end (- num_pages) s; Some (0, s) }
          else Some (0, s));
       if err < 0 then Some ((err, None), s)
       else Some ((0, Some addr), upd_proc p (\<lambda>q. q\<lparr>p_brk := addr\<rparr>) s) } }"

subsection \<open>Mapping and unmapping\<close>

definition validate_mmap_args :: "hdr \<Rightarrow> u32 \<Rightarrow> u32 \<Rightarrow> u32 \<Rightarrow> u32 \<Rightarrow> u32 \<Rightarrow> int" where
  "validate_mmap_args H addr len prot flags off = (
     if \<not> PAGE_ALIGNED H off then - Err H EINVAL
     else if len = 0 then - Err H EINVAL
     else if flags AND MAP_FIXED H \<noteq> 0 \<and> addr = 0 then - Err H EINVAL
     else if addr \<noteq> 0 \<and> \<not> PAGE_ALIGNED H addr then - Err H EINVAL
     else if addr + len > USER_MEM_HIGH H then - Err H EINVAL
     else if flags AND MAP_PRIVATE H = 0 \<and> flags AND MAP_SHARED H = 0 then - Err H EINVAL
     else 0)"

text \<open>
  \<open>handle_file_related_tasks\<close>: the result, and what the call leaves in \<open>*file\<close> and \<open>*vn\<close>, which are NULL
  before. After \<open>-EACCES\<close> the file keeps its pointer, although its reference was dropped.
\<close>

definition handle_file_related_tasks ::
    "hdr \<Rightarrow> ext \<Rightarrow> int \<Rightarrow> u32 \<Rightarrow> u32 \<Rightarrow> (int \<times> faddr option \<times> vaddr option) call" where
  "handle_file_related_tasks H X fd flags prot s = (
     if flags AND MAP_ANON H = 0
     then if fd = - 1 then Some ((- Err H EBADF, None, None), s)
     else do {
       (f, s) \<leftarrow> fget X fd s;
       (case f of
          None \<Rightarrow> Some ((- Err H EBADF, None, None), s)
        | Some fl \<Rightarrow> do {
            let vn = f_vnode (files s fl);
            if f_mode (files s fl) AND FMODE_WRITE H = 0 \<and> prot AND PROT_WRITE H \<noteq> 0 \<and> flags AND MAP_PRIVATE H = 0
            then do { s \<leftarrow> fput X fl s; Some ((- Err H EACCES, f, vn), s) }
            else Some ((0, f, vn), s) }) }
     else Some ((0, None, None), s))"

definition pages_of :: "hdr \<Rightarrow> u32 \<Rightarrow> u32" where
  "pages_of H len = len div PAGE_SIZE H + (if len mod PAGE_SIZE H \<noteq> 0 then 1 else 0)"

text \<open>
  \<open>do_mmap\<close>: the results of the two helpers are stored in \<open>err\<close> and overwritten. When \<open>vmmap_map\<close> fails
  for a file, \<open>new\<close> is read although nothing was stored in it. The second component of the result is
  what the call stores in \<open>*ret\<close>.
\<close>

definition do_mmap :: "nat \<Rightarrow> hdr \<Rightarrow> ext \<Rightarrow> u32 \<Rightarrow> u32 \<Rightarrow> u32 \<Rightarrow> u32 \<Rightarrow> int \<Rightarrow> u32 \<Rightarrow> (int \<times> u32 option) call" where
  "do_mmap n H X addr len prot flags fd off s = do {
     let _ = validate_mmap_args H addr len prot flags off;
     let lopage = (if addr = 0 then 0 else ADDR_TO_PN H addr);
     ((_, fl, vn), s) \<leftarrow> handle_file_related_tasks H X fd flags prot s;
     let npages = pages_of H len;
     p \<leftarrow> curproc s;
     ((err, new), s) \<leftarrow> vmmap_map n H X (p_vmmap (procs s p)) vn lopage npages prot flags off (VMMAP_DIR_HILO H) s;
     if err < 0 \<and> fl = None then Some ((err, None), s)
     else do {
       s \<leftarrow> (case fl of Some f \<Rightarrow> fput X f s | None \<Rightarrow> Some s);
       new \<leftarrow> new;
       let ret = PN_TO_ADDR H (vma_start (vmareas s new));
       let s = log_hw Tlb_flush_all s;
       KASSERT (p_pagedir (procs s p) \<noteq> None);
       Some ((0, Some ret), s) } }"

definition validate_munmap_args :: "hdr \<Rightarrow> u32 \<Rightarrow> u32 \<Rightarrow> int" where
  "validate_munmap_args H addr len = (
     if \<not> PAGE_ALIGNED H addr then - Err H EINVAL
     else if addr + len > USER_MEM_HIGH H then - Err H EINVAL
     else if addr + len < USER_MEM_LOW H then - Err H EINVAL
     else 0)"

definition do_munmap :: "nat \<Rightarrow> hdr \<Rightarrow> ext \<Rightarrow> u32 \<Rightarrow> u32 \<Rightarrow> int call" where
  "do_munmap n H X addr len s = (
     if validate_munmap_args H addr len < 0 then Some (validate_munmap_args H addr len, s)
     else do {
       let num_pages = (if len mod PAGE_SIZE H = 0 then len div PAGE_SIZE H else len div PAGE_SIZE H + 1);
       p \<leftarrow> curproc s;
       (_, s) \<leftarrow> vmmap_remove n H X (p_vmmap (procs s p)) (ADDR_TO_PN H addr) num_pages s;
       Some (0, log_hw Tlb_flush_all s) })"

subsection \<open>Page faults\<close>

text \<open>
  A statement after which the code goes on only when \<open>do_exit\<close> returns, which it does when the calling
  thread is not one of the threads of its process.
\<close>

definition exit_then :: "nat \<Rightarrow> hdr \<Rightarrow> ext \<Rightarrow> int \<Rightarrow> (kernel \<Rightarrow> 'a outcome option) \<Rightarrow> kernel \<Rightarrow> 'a outcome option" where
  "exit_then n H X status k s = do {
     r \<leftarrow> do_exit n H X status s;
     (case r of Exited s \<Rightarrow> Some (Exited s) | Returned _ s \<Rightarrow> k s) }"

definition fault_denied :: "hdr \<Rightarrow> u32 \<Rightarrow> u32 \<Rightarrow> bool" where
  "fault_denied H cause prot \<longleftrightarrow>
     cause AND FAULT_WRITE H \<noteq> 0 \<and> prot AND PROT_WRITE H = 0 \<or>
     \<not> (cause AND FAULT_WRITE H \<noteq> 0 \<or> cause AND FAULT_EXEC H \<noteq> 0) \<and> prot AND PROT_READ H = 0 \<or>
     cause AND FAULT_EXEC H \<noteq> 0 \<and> prot AND PROT_EXEC H = 0"

text \<open>The tail of \<open>handle_pagefault\<close> from the assertions on: dirty the page on a write, enter it in the page table.\<close>

definition map_faulted :: "hdr \<Rightarrow> ext \<Rightarrow> u32 \<Rightarrow> bool \<Rightarrow> pfaddr option \<Rightarrow> kernel \<Rightarrow> unit outcome option" where
  "map_faulted H X vaddr access_is_write pf s = do {
     pf \<leftarrow> pf;
     addr \<leftarrow> pf_addr (pframes s pf);
     s \<leftarrow> (if access_is_write
           then do {
             s \<leftarrow> pframe_pin X pf s;
             (_, s) \<leftarrow> pframe_dirty (mmobj_dirtypage X) pf s;
             pframe_unpin X pf s }
           else Some s);
     p \<leftarrow> curproc s;
     let s = log_hw (Pt_map (p_pagedir (procs s p)) (PAGE_ALIGN_DOWN H vaddr) (pt_virt_to_phys X addr)
               (PD_USER_FLAGS H OR (if access_is_write then PD_WRITE H else 0))
               (PT_USER_FLAGS H OR (if access_is_write then PT_WRITE H else 0))) s;
     Some (Returned () (log_hw (Tlb_flush_user (PAGE_ALIGN_DOWN H vaddr)) s)) }"

text \<open>The middle of \<open>handle_pagefault\<close>: look the page up, with its failure ending the process.\<close>

definition look_faulted :: "nat \<Rightarrow> hdr \<Rightarrow> ext \<Rightarrow> u32 \<Rightarrow> bool \<Rightarrow> vmaddr \<Rightarrow> kernel \<Rightarrow> unit outcome option" where
  "look_faulted n H X vaddr access_is_write vma s = do {
     ((ret, pf), s) \<leftarrow> pframe_lookup n H X (vma_obj (vmareas s vma))
        (ADDR_TO_PN H vaddr - vma_start (vmareas s vma) + vma_off (vmareas s vma)) access_is_write s;
     if ret < 0 then exit_then n H X (Err H EFAULT) (map_faulted H X vaddr access_is_write pf) s
     else map_faulted H X vaddr access_is_write pf s }"

definition handle_pagefault :: "nat \<Rightarrow> hdr \<Rightarrow> ext \<Rightarrow> u32 \<Rightarrow> u32 \<Rightarrow> kernel \<Rightarrow> unit outcome option" where
  "handle_pagefault n H X vaddr cause s = do {
     p \<leftarrow> curproc s;
     mp \<leftarrow> p_vmmap (procs s p);
     (case vmmap_lookup mp (ADDR_TO_PN H vaddr) s of
        None \<Rightarrow> exit_then n H X (Err H EFAULT) (\<lambda>_. None) s
      | Some vma \<Rightarrow>
         (let access_is_write = cause AND FAULT_WRITE H \<noteq> 0 in
          if fault_denied H cause (vma_prot (vmareas s vma))
          then exit_then n H X (Err H EFAULT) (look_faulted n H X vaddr access_is_write vma) s
          else look_faulted n H X vaddr access_is_write vma s)) }"

end
