(* ===== verification/Mm_Lookup.thy ===== *)
theory Mm_Lookup
  imports Vmmap_Ops
begin

text \<open>
  What looking pages up leaves alone. Looking a page up may allocate, sleep, wake other threads and
  copy pages; the locale names these effects, and its lemmas carry a relation that all of them keep
  through the operations of the page cache and of the objects, and through \<open>vmmap_read\<close> and \<open>vmmap_write\<close>.
\<close>

locale mm_lookup = mm_objs +
  assumes K_slab: "slab_obj_alloc s = Some (r, s') \<Longrightarrow> K s s'"
    and K_pages: "page_alloc s = Some (r, s') \<Longrightarrow> K s s'"
    and K_phys: "K s (s\<lparr>phys := m\<rparr>)"
    and K_queue: "K s (sched_queue_init q s)"
    and K_broadcast: "sched_broadcast_on q s = Some s' \<Longrightarrow> K s s'"
    and K_sleep: "sleep_on X q s = Some s' \<Longrightarrow> K s s'"
    and K_vno_ref: "vno_ref X ob s = Some s' \<Longrightarrow> K s s'"
    and K_vno_lookup: "vno_lookuppage X ob pn w s = Some (res, s') \<Longrightarrow> K s s'"
    and K_vno_fill: "vno_fillpage X ob pf s = Some (err, s') \<Longrightarrow> K s s'"
    and K_vno_dirty: "vno_dirtypage X ob pf s = Some (err, s') \<Longrightarrow> K s s'"
begin

lemma K_alloc_list: "K s (s\<lparr>alloc_list := al\<rparr>)"
  using K_alloc [where s = s and na = "nallocated s" and al = al] by simp

lemma K_lists: "K s (s\<lparr>alloc_list := al, nallocated := na, pinned_list := pl, npinned := np\<rparr>)"
proof -
  have "s\<lparr>alloc_list := al, nallocated := na, pinned_list := pl, npinned := np\<rparr> =
      s\<lparr>nallocated := na, alloc_list := al, pinned_list := pl, npinned := np\<rparr>" by simp
  then show ?thesis using K_trans [OF K_alloc [where s = s and na = na and al = al] K_pinned [where pl = pl and np = np]] by metis
qed

lemma get_resident_keeps: "pframe_get_resident H X ob pn s = (r, s') \<Longrightarrow> K s s'"
  by (auto simp: pframe_get_resident_def K_refl K_alloc_list split: option.splits if_splits)

lemma ref_keeps: "mmobj_ref X ob s = Some s' \<Longrightarrow> K s s'"
  by (auto simp: mmobj_ref_def anon_ref_def shadow_ref_def split: mmobj_ops.splits if_splits intro: K_mmobj K_vno_ref)

lemma alloc_keeps: "pframe_alloc H X ob pn s = Some (r, s') \<Longrightarrow> K s s'"
proof -
  assume run: "pframe_alloc H X ob pn s = Some (r, s')"
  then obtain pf s1 where s1: "slab_obj_alloc s = Some (pf, s1)" by (auto simp: pframe_alloc_def bind_Some_iff)
  have 1: "K s s1" by (rule K_slab [OF s1])
  show ?thesis
  proof (cases pf)
    case None
    then show ?thesis using run s1 1 by (simp add: pframe_alloc_def)
  next
    case (Some f)
    then obtain addr s2 where s2: "page_alloc s1 = Some (addr, s2)" using run s1 by (auto simp: pframe_alloc_def bind_Some_iff)
    let ?s3 = "upd_pframe f (\<lambda>f. f\<lparr>pf_addr := addr\<rparr>) s2"
    have 3: "K s ?s3" by (rule K_trans [OF 1 K_trans [OF K_pages [OF s2] K_pframe]])
    show ?thesis
    proof (cases addr)
      case None
      then show ?thesis using run s1 s2 Some K_trans [OF 3 K_free, of f] by (simp add: pframe_alloc_def Let_def)
    next
      case (Some a)
      then show ?thesis using run s1 s2 \<open>pf = Some f\<close>
        by (auto simp: pframe_alloc_def Let_def bind_Some_iff
            intro!: K_trans [OF 3 K_trans [OF K_alloc K_trans [OF K_pframe K_trans [OF K_queue K_trans [OF K_pframe
              K_trans [OF K_hash K_trans [OF ref_keeps K_mmobj]]]]]]])
    qed
  qed
qed

lemma pin_keeps: "pframe_pin X pf s = Some s' \<Longrightarrow> K s s'"
  by (auto simp: pframe_pin_def Let_def split: if_splits intro: K_pframe K_trans [OF K_pframe K_lists])

lemma unpin_keeps: "pframe_unpin X pf s = Some s' \<Longrightarrow> K s s'"
proof -
  assume "pframe_unpin X pf s = Some s'"
  then obtain t where t: "t = upd_pframe pf (\<lambda>f. f\<lparr>pf_pincount := pf_pincount f - 1\<rparr>) s" and
    s': "s' = t \<or> s' = t\<lparr>alloc_list := alloc_list t @ [pf], nallocated := nallocated t + 1, pinned_list := remove1 pf (pinned_list t),
       npinned := npinned t - 1\<rparr>"
    by (auto simp: pframe_unpin_def Let_def split: if_splits)
  have "K s t" unfolding t by (rule K_pframe)
  then show ?thesis using s' K_lists K_trans by blast
qed

lemma fill_keeps:
  assumes "\<And>ob pf s r s'. fillpage ob pf s = Some (r, s') \<Longrightarrow> K s s'" and "pframe_fill fillpage pf s = Some (r, s')"
  shows "K s s'"
  using assms(2)
  by (auto simp: pframe_fill_def Let_def bind_Some_iff
      intro: K_trans [OF K_pframe K_trans [OF assms(1) K_trans [OF K_pframe K_broadcast]]])

lemma get_keeps:
  assumes fill: "\<And>ob pf s r s'. fillpage ob pf s = Some (r, s') \<Longrightarrow> K s s'" and put: "\<And>ob s s'. put ob s = Some s' \<Longrightarrow> K s s'"
  shows "pframe_get n H X fillpage put ob pn s = Some (r, s') \<Longrightarrow> K s s'"
proof (induction n arbitrary: s)
  case (Suc n)
  obtain pf s1 where g: "pframe_get_resident H X (Some ob) pn s = (pf, s1)" by (cases "pframe_get_resident H X (Some ob) pn s")
  have 1: "K s s1" by (rule get_resident_keeps [OF g])
  have free: "K t t'" if "pframe_free H X put x t = Some t'" for x t t' by (rule pframe_free_keeps [OF put that])
  have "K s1 s'"
  proof (cases pf)
    case None
    then obtain f s2 res s3 where a: "pframe_alloc H X ob pn s1 = Some (Some f, s2)" "pframe_fill fillpage f s2 = Some (res, s3)"
       "s' = s3 \<or> pframe_free H X put f s3 = Some s'"
      using Suc.prems g by (auto simp: pframe_get.simps(2) bind_Some_iff split: if_splits)
    have "K s2 s3" by (rule fill_keeps [OF _ a(2)]) (rule fill)
    from K_trans [OF alloc_keeps [OF a(1)] this] show ?thesis using a(3) free K_trans by blast
  next
    case (Some f)
    then show ?thesis using Suc.prems g by (auto simp: pframe_get.simps(2) bind_Some_iff K_refl split: if_splits intro: K_trans [OF K_sleep Suc.IH])
  qed
  then show ?case by (rule K_trans [OF 1])
qed (simp add: pframe_get.simps(1))

lemma lookup_loop_keeps: "shadow_lookup_loop n H X cur pn s = Some (r, s') \<Longrightarrow> K s s'"
proof (induction n arbitrary: cur s)
  case (Suc n)
  then show ?case
    by (auto split: option.splits prod.splits intro: K_refl K_trans [OF get_resident_keeps Suc.IH] get_resident_keeps)
qed simp

lemma fill_loop_keeps: "shadow_fill_loop n H X cur pn s = Some (r, s') \<Longrightarrow> K s s'"
proof (induction n arbitrary: cur s)
  case 0
  then show ?case by (cases cur) (auto simp: K_refl)
next
  case (Suc n)
  then show ?case
    by (cases cur) (auto split: option.splits prod.splits intro: K_refl K_trans [OF get_resident_keeps Suc.IH] get_resident_keeps)
qed

lemma dirty_keeps: "pframe_dirty (mmobj_dirtypage X) pf s = Some (r, s') \<Longrightarrow> K s s'"
proof -
  assume run: "pframe_dirty (mmobj_dirtypage X) pf s = Some (r, s')"
  have d: "K t t'" if "mmobj_dirtypage X ob pf t = Some (ret, t')" for ob t t' ret
    using that by (auto simp: mmobj_dirtypage_def anon_dirtypage_def shadow_dirtypage_def K_refl
        split: mmobj_ops.splits intro: K_vno_dirty K_pframe)
  from run obtain ob ret s2 where s2: "mmobj_dirtypage X ob pf (upd_pframe pf (\<lambda>f. f\<lparr>pf_busy := True\<rparr>) s) = Some (ret, s2)"
    and s': "sched_broadcast_on (Pf_waitq pf) (upd_pframe pf (\<lambda>f. f\<lparr>pf_busy := False\<rparr>)
       (if ret = 0 then upd_pframe pf (\<lambda>f. f\<lparr>pf_dirty := True\<rparr>) s2 else s2)) = Some s'"
    by (auto simp: pframe_dirty_def Let_def bind_Some_iff split: if_splits)
  have "K s s2" by (rule K_trans [OF K_pframe d [OF s2]])
  moreover have "K s2 (if ret = 0 then upd_pframe pf (\<lambda>f. f\<lparr>pf_dirty := True\<rparr>) s2 else s2)" using K_pframe K_refl by simp
  ultimately show ?thesis using K_trans [OF K_pframe K_broadcast [OF s']] K_trans by blast
qed

lemma copy_fill_keeps:
  assumes "pframe_pin X pf (s\<lparr>phys := m\<rparr>) = Some s'"
  shows "K s s'"
  by (rule K_trans [OF K_phys pin_keeps [OF assms]])

lemma anon_fill_keeps: "anon_fillpage X ob pf s = Some (r, s') \<Longrightarrow> K s s'"
  by (auto simp: anon_fillpage_def bind_Some_iff intro: K_trans [OF pin_keeps K_phys])

lemma shadow_fill_keeps:
  assumes look: "\<And>ob pn w s r s'. lookuppage ob pn w s = Some (r, s') \<Longrightarrow> K s s'"
    and run: "shadow_fillpage n H X lookuppage ob pf s = Some (r, s')"
  shows "K s s'"
proof -
  obtain f s1 where f: "shadow_fill_loop n H X (Some ob) (pf_pagenum (pframes s pf)) s = Some (f, s1)"
    using run by (auto simp: shadow_fillpage_def bind_Some_iff)
  have "K s1 s'"
  proof (cases f)
    case None
    then show ?thesis using run f
      by (auto simp: shadow_fillpage_def bind_Some_iff split: if_splits intro: look K_trans [OF look copy_fill_keeps])
  next
    case (Some x)
    then show ?thesis using run f by (auto simp: shadow_fillpage_def bind_Some_iff dest!: copy_fill_keeps)
  qed
  then show ?thesis by (rule K_trans [OF fill_loop_keeps [OF f]])
qed

lemma shadow_lookup_keeps:
  assumes look: "\<And>ob pn w s r s'. lookuppage ob pn w s = Some (r, s') \<Longrightarrow> K s s'"
    and fill: "\<And>ob pf s r s'. fillpage ob pf s = Some (r, s') \<Longrightarrow> K s s'" and put: "\<And>ob s s'. put ob s = Some s' \<Longrightarrow> K s s'"
    and run: "shadow_lookuppage n H X lookuppage fillpage put ob pn w s = Some (r, s')"
  shows "K s s'"
proof (cases w)
  case False
  then obtain f s1 where f: "shadow_lookup_loop n H X ob pn s = Some (f, s1)" using run by (auto simp: shadow_lookuppage_def bind_Some_iff)
  have "K s1 s'"
    using run f False by (auto simp: shadow_lookuppage_def bind_Some_iff K_refl split: option.splits if_splits intro: look)
  then show ?thesis by (rule K_trans [OF lookup_loop_keeps [OF f]])
next
  case True
  obtain f s1 where f: "pframe_get_resident H X (Some ob) pn s = (f, s1)" by (cases "pframe_get_resident H X (Some ob) pn s")
  have get: "K t t'" if "pframe_get n H X fillpage put ob pn t = Some (x, t')" for x t t'
    by (rule get_keeps [OF _ _ that]) (erule fill put)+
  have "K s1 s'"
    using run f True
    by (cases f) (auto simp: shadow_lookuppage_def bind_Some_iff K_refl split: if_splits intro: get K_trans [OF get dirty_keeps])
  then show ?thesis by (rule K_trans [OF get_resident_keeps [OF f]])
qed

lemma lookuppage_keeps:
  "(mmobj_fillpage n H X ob pf s = Some (e, s') \<longrightarrow> K s s') \<and> (mmobj_lookuppage n H X ob2 pn w s = Some (r, s') \<longrightarrow> K s s')"
proof (induction n arbitrary: ob pf s e s' ob2 pn w r)
  case (Suc n)
  have look: "mmobj_lookuppage n H X o' p' w' t = Some (x, t') \<Longrightarrow> K t t'" for o' p' w' t x t' using Suc.IH by blast
  have fill: "mmobj_fillpage n H X o' p' t = Some (x, t') \<Longrightarrow> K t t'" for o' p' t x t' using Suc.IH by blast
  have put: "mmobj_put (Suc n) H X o' t = Some t' \<Longrightarrow> K t t'" for o' t t' by (rule mmobj_put_keeps)
  have "K s s'" if run: "mmobj_fillpage (Suc n) H X ob pf s = Some (e, s')"
  proof (cases "mmo_ops (mmobjs s ob)")
    case Anon_mmobj_ops
    then show ?thesis using run by (auto simp: mmobj_fillpage.simps intro: anon_fill_keeps)
  next
    case Shadow_mmobj_ops
    then have "shadow_fillpage (Suc n) H X (mmobj_lookuppage n H X) ob pf s = Some (e, s')" using run by (simp add: mmobj_fillpage.simps)
    then show ?thesis by (rule shadow_fill_keeps [rotated]) (erule look)
  next
    case Vnode_mmobj_ops
    then show ?thesis using run by (auto simp: mmobj_fillpage.simps intro: K_vno_fill)
  qed
  moreover have "K s s'" if run: "mmobj_lookuppage (Suc n) H X ob2 pn w s = Some (r, s')"
  proof (cases "mmo_ops (mmobjs s ob2)")
    case Anon_mmobj_ops
    then have "pframe_get (Suc n) H X (mmobj_fillpage n H X) (mmobj_put (Suc n) H X) ob2 pn s = Some (r, s')"
      using run by (simp only: mmobj_lookuppage.simps mmobj_ops.case anon_lookuppage_def)
    then show ?thesis by (rule get_keeps [rotated 2]) (erule fill put)+
  next
    case Shadow_mmobj_ops
    then have "shadow_lookuppage (Suc n) H X (mmobj_lookuppage n H X) (mmobj_fillpage n H X) (mmobj_put (Suc n) H X) ob2 pn w s = Some (r, s')"
      using run by (simp only: mmobj_lookuppage.simps mmobj_ops.case)
    then show ?thesis by (rule shadow_lookup_keeps [rotated 3]) (erule look fill put)+
  next
    case Vnode_mmobj_ops
    then show ?thesis using run by (auto simp: mmobj_lookuppage.simps intro: K_vno_lookup)
  qed
  ultimately show ?case by blast
qed (simp add: mmobj_fillpage.simps mmobj_lookuppage.simps)

lemma mmobj_lookup_keeps: "mmobj_lookuppage n H X ob pn w s = Some (r, s') \<Longrightarrow> K s s'"
  using lookuppage_keeps by blast

lemma pframe_lookup_keeps: "pframe_lookup n H X ob pn w s = Some (r, s') \<Longrightarrow> K s s'"
  by (auto simp: pframe_lookup_def bind_Some_iff intro: mmobj_lookup_keeps)

lemma vmmap_read_loop_keeps: "vmmap_read_loop n k H X mp e cnt cur readed s = Some (r, s') \<Longrightarrow> K s s'"
proof (induction k arbitrary: cur readed s r)
  case (Suc k)
  then show ?case
    by (auto simp: bind_Some_iff Let_def K_refl split: if_splits intro: K_trans [OF mmobj_lookup_keeps Suc.IH])
qed simp

lemma vmmap_write_loop_keeps: "vmmap_write_loop n k H X mp e cnt cur written buf s = Some s' \<Longrightarrow> K s s'"
proof (induction k arbitrary: cur written s)
  case (Suc k)
  then show ?case
    by (auto simp: bind_Some_iff Let_def K_refl split: if_splits
        intro: K_trans [OF mmobj_lookup_keeps K_trans [OF K_phys K_trans [OF dirty_keeps Suc.IH]]])
qed simp

end

end
