(* ===== verification/Page_Fault.thy ===== *)
theory Page_Fault
  imports Vm_Calls Mm_Lookup
begin

text \<open>
  The page-fault handler: it enters only what the protection of the area allows, ends the process
  otherwise, and the page it enters holds what the object of the area shows.
\<close>

subsection \<open>Waking threads and ending the process\<close>

text \<open>Waking and cancelling threads writes threads and queues only.\<close>

definition tq_only :: "kernel \<Rightarrow> kernel \<Rightarrow> bool" where
  "tq_only s s' \<longleftrightarrow> s' = s\<lparr>threads := threads s', queues := queues s'\<rparr>"

lemma tq_only_refl [simp]: "tq_only s s"
  by (simp add: tq_only_def)

lemma tq_onlyI: "s' = s\<lparr>threads := T, queues := Q\<rparr> \<Longrightarrow> tq_only s s'"
  by (simp add: tq_only_def)

lemma tq_only_trans:
  assumes "tq_only r s" and "tq_only s t"
  shows "tq_only r t"
proof -
  obtain T Q where "s = r\<lparr>threads := T, queues := Q\<rparr>" using assms(1) unfolding tq_only_def by blast
  moreover obtain T' Q' where "t = s\<lparr>threads := T', queues := Q'\<rparr>" using assms(2) unfolding tq_only_def by blast
  ultimately show ?thesis by (simp add: tq_only_def)
qed

lemma tq_onlyD:
  assumes "tq_only s s'"
  shows "curproc s' = curproc s" "curthr s' = curthr s" "procs s' = procs s" "phys s' = phys s" "hw s' = hw s" "pframes s' = pframes s"
    "mmobjs s' = mmobjs s" "in_use s' = in_use s"
proof -
  obtain T Q where "s' = s\<lparr>threads := T, queues := Q\<rparr>" using assms unfolding tq_only_def by blast
  then show "curproc s' = curproc s" "curthr s' = curthr s" "procs s' = procs s" "phys s' = phys s" "hw s' = hw s" "pframes s' = pframes s"
    "mmobjs s' = mmobjs s" "in_use s' = in_use s" by (simp_all add: in_use_def)
qed

lemma tq_only_upd_thr: "upd_thr t f s = Some s' \<Longrightarrow> tq_only s s'"
  by (auto simp: upd_thr_def bind_Some_iff tq_only_def)

lemma tq_only_make_runnable: "sched_make_runnable t s = Some s' \<Longrightarrow> tq_only s s'"
  by (auto simp: sched_make_runnable_def ktqueue_enqueue_def Let_def bind_Some_iff tq_only_def split: if_splits)

lemma tq_only_dequeue: "ktqueue_dequeue q s = Some (r, s') \<Longrightarrow> tq_only s s'"
  by (auto simp: ktqueue_dequeue_def Let_def bind_Some_iff tq_only_def split: if_splits)

lemma tq_only_remove: "ktqueue_remove q t s = Some s' \<Longrightarrow> tq_only s s'"
  by (auto simp: ktqueue_remove_def Let_def bind_Some_iff tq_only_def split: if_splits)

lemma tq_only_broadcast_loop: "sched_broadcast_loop n q s = Some s' \<Longrightarrow> tq_only s s'"
proof (induction n arbitrary: s)
  case (Suc n)
  then show ?case
    by (auto simp: bind_Some_iff split: if_splits
        intro: tq_only_trans [OF tq_only_dequeue tq_only_trans [OF tq_only_upd_thr tq_only_trans [OF tq_only_make_runnable Suc.IH]]])
qed (simp split: if_splits)

lemma tq_only_broadcast: "sched_broadcast_on q s = Some s' \<Longrightarrow> tq_only s s'"
  unfolding sched_broadcast_on_def by (rule tq_only_broadcast_loop)

lemma tq_only_cancel: "sched_cancel t s = Some s' \<Longrightarrow> tq_only s s'"
  by (auto simp: sched_cancel_def bind_Some_iff split: if_splits
      intro: tq_only_upd_thr tq_only_trans [OF tq_only_upd_thr tq_only_trans [OF tq_only_remove tq_only_make_runnable]])

text \<open>\<open>do_exit\<close> of a thread that its process lists does not return.\<close>

lemma cancel_threads_exits:
  "cancel_threads n H X st ts s = Some r \<Longrightarrow> curthr s = Some c \<Longrightarrow> c \<in> set ts \<Longrightarrow> \<exists>s'. r = Exited s'"
proof (induction ts arbitrary: s)
  case (Cons t ts)
  show ?case
  proof (cases "t = c")
    case True
    then show ?thesis using Cons.prems(1,2) by (auto simp: kthread_cancel_def bind_Some_iff)
  next
    case False
    then obtain s1 s2 where s1: "upd_thr t (\<lambda>th. th\<lparr>kt_cancelled := True, kt_retval := st\<rparr>) s = Some s1" and
       s2: "sched_cancel t s1 = Some s2" and r: "cancel_threads n H X st ts s2 = Some r"
      using Cons.prems(1,2) by (auto simp: kthread_cancel_def bind_Some_iff)
    have "curthr s2 = Some c"
      using tq_onlyD(2) [OF tq_only_trans [OF tq_only_upd_thr [OF s1] tq_only_cancel [OF s2]]] Cons.prems(2) by simp
    then show ?thesis using Cons.IH [OF r] Cons.prems(3) False by simp
  qed
qed simp

lemma do_exit_exits:
  assumes "curproc s = Some p" and "curthr s = Some c" and "c \<in> set (p_threads (procs s p))" and "do_exit n H X st s = Some r"
  obtains s' where "r = Exited s'"
  using assms cancel_threads_exits [of n H X st "p_threads (procs s p)" s r c] by (auto simp: do_exit_def)

subsection \<open>What the handler enters\<close>

text \<open>What the protection of an area permits: the specification of the test in the handler.\<close>

definition permits :: "hdr \<Rightarrow> u32 \<Rightarrow> u32 \<Rightarrow> bool" where
  "permits H cause prot \<longleftrightarrow>
     (cause AND FAULT_WRITE H \<noteq> 0 \<longrightarrow> prot AND PROT_WRITE H \<noteq> 0) \<and> (cause AND FAULT_EXEC H \<noteq> 0 \<longrightarrow> prot AND PROT_EXEC H \<noteq> 0) \<and>
     (cause AND FAULT_WRITE H = 0 \<and> cause AND FAULT_EXEC H = 0 \<longrightarrow> prot AND PROT_READ H \<noteq> 0)"

lemma fault_denied_iff: "fault_denied H cause prot \<longleftrightarrow> \<not> permits H cause prot"
  by (auto simp: fault_denied_def permits_def)

definition entry :: "hdr \<Rightarrow> ext \<Rightarrow> nat option \<Rightarrow> u32 \<Rightarrow> bool \<Rightarrow> nat \<Rightarrow> hw_call list" where
  "entry H X dir vaddr w a =
     [Pt_map dir (PAGE_ALIGN_DOWN H vaddr) (pt_virt_to_phys X a)
        (PD_USER_FLAGS H OR (if w then PD_WRITE H else 0)) (PT_USER_FLAGS H OR (if w then PT_WRITE H else 0)),
      Tlb_flush_user (PAGE_ALIGN_DOWN H vaddr)]"

lemma map_faulted_entry:
  assumes "map_faulted H X vaddr w pf s = Some r"
  shows "\<exists>s' dir a l. r = Returned () s' \<and> hw s' = l @ entry H X dir vaddr w a"
  using assms by (auto simp: map_faulted_def bind_Some_iff Let_def log_hw_def entry_def)

lemma exit_then_cases:
  assumes "exit_then n H X st k s = Some r"
  shows "(\<exists>s'. r = Exited s' \<and> do_exit n H X st s = Some (Exited s')) \<or> (\<exists>s1. do_exit n H X st s = Some (Returned () s1) \<and> k s1 = Some r)"
proof -
  obtain o' where o': "do_exit n H X st s = Some o'" using assms by (auto simp: exit_then_def bind_Some_iff)
  then show ?thesis using assms by (cases o') (auto simp: exit_then_def)
qed

lemma look_faulted_entry:
  assumes "look_faulted n H X vaddr w vma s = Some (Returned u s')"
  shows "\<exists>dir a l. hw s' = l @ entry H X dir vaddr w a"
proof -
  obtain pf t where "map_faulted H X vaddr w pf t = Some (Returned u s')"
    using assms by (auto simp: look_faulted_def bind_Some_iff split: if_splits dest!: exit_then_cases)
  from map_faulted_entry [OF this] show ?thesis by auto
qed

text \<open>
  C9: the page-fault handler respects the protection of the areas. A fault at an address that is in no
  area, or that the protection of its area forbids, ends the process with \<open>EFAULT\<close>. Whenever the handler
  returns, the area allows the access and the handler has entered the page of the address in the page
  table, writable for a write access only, and flushed its entry from the TLB.
\<close>

theorem pagefault_protection:
  assumes p: "curproc s = Some p" "p_vmmap (procs s p) = Some mp" and c: "curthr s = Some c" "c \<in> set (p_threads (procs s p))"
  shows "(case vmmap_lookup mp (ADDR_TO_PN H vaddr) s of
       None \<Rightarrow> handle_pagefault n H X vaddr cause s = do_exit n H X (Err H EFAULT) s
     | Some vma \<Rightarrow>
        (if \<not> permits H cause (vma_prot (vmareas s vma))
         then handle_pagefault n H X vaddr cause s = do_exit n H X (Err H EFAULT) s
         else \<forall>u s'. handle_pagefault n H X vaddr cause s = Some (Returned u s') \<longrightarrow>
           (\<exists>dir a l. hw s' = l @ entry H X dir vaddr (cause AND FAULT_WRITE H \<noteq> 0) a))) \<and>
     do_exit n H X (Err H EFAULT) s \<noteq> Some (Returned u s')"
proof -
  have no: "do_exit n H X (Err H EFAULT) s \<noteq> Some (Returned u s')" for u s' using do_exit_exits [OF p(1) c] by fastforce
  have ex: "exit_then n H X (Err H EFAULT) k s = do_exit n H X (Err H EFAULT) s" for k
    using no by (auto simp: exit_then_def split: Option.bind_splits outcome.splits)
  show ?thesis
    using p look_faulted_entry no by (auto simp: handle_pagefault_def Let_def ex fault_denied_iff split: option.splits)
qed

subsection \<open>The page that is entered\<close>

text \<open>
  A call that sleeps or calls the code outside the repository comes back in the process that made it,
  with the page directory and the address space of that process as they were.
\<close>

definition self_keep :: "kernel \<Rightarrow> kernel \<Rightarrow> bool" where
  "self_keep s s' \<longleftrightarrow> curproc s' = curproc s \<and>
     (\<forall>p. curproc s = Some p \<longrightarrow> p_pagedir (procs s' p) = p_pagedir (procs s p) \<and> p_vmmap (procs s' p) = p_vmmap (procs s p))"

definition self_api_ok :: "ext \<Rightarrow> bool" where
  "self_api_ok X \<longleftrightarrow> (\<forall>q s s'. sleep_on X q s = Some s' \<longrightarrow> self_keep s s') \<and>
     (\<forall>ob s s'. vno_put X ob s = Some s' \<longrightarrow> self_keep s s') \<and> (\<forall>ob s s'. vno_ref X ob s = Some s' \<longrightarrow> self_keep s s') \<and>
     (\<forall>ob pn w s r s'. vno_lookuppage X ob pn w s = Some (r, s') \<longrightarrow> self_keep s s') \<and>
     (\<forall>ob pf s r s'. vno_fillpage X ob pf s = Some (r, s') \<longrightarrow> self_keep s s') \<and>
     (\<forall>ob pf s r s'. vno_dirtypage X ob pf s = Some (r, s') \<longrightarrow> self_keep s s')"

lemma self_mm_lookup:
  assumes "self_api_ok X"
  shows "mm_lookup self_keep X"
proof
  show "self_keep s s'" if "sched_broadcast_on q s = Some s'" for q s s'
    using tq_onlyD(1,3) [OF tq_only_broadcast [OF that]] by (simp add: self_keep_def)
qed (use assms in \<open>auto simp: self_api_ok_def self_keep_def log_hw_def upd_defs slab_obj_free_def page_free_def slab_obj_alloc_def
      page_alloc_def sched_queue_init_def split: list.splits option.splits\<close>)

text \<open>An environment in which a thread that goes to sleep is not woken.\<close>

definition no_wake :: ext where
  "no_wake = std_ext\<lparr>w_resume := (\<lambda>_. None)\<rparr>"

lemma no_wake_ok: "self_api_ok no_wake" "mm_api_ok no_wake"
  using std_ext_mm_api_ok
  by (auto simp: self_api_ok_def no_wake_def sleep_on_def bind_Some_iff std_ext_def self_keep_def upd_defs mm_api_ok_def)

interpretation alone: mm_lookup self_keep no_wake
  by (rule self_mm_lookup [OF no_wake_ok(1)])

text \<open>What pinning, dirtying and unpinning a page keep of the pages.\<close>

definition page_ids :: "kernel \<Rightarrow> kernel \<Rightarrow> bool" where
  "page_ids s s' \<longleftrightarrow> phys s' = phys s \<and> mmobjs s' = mmobjs s \<and>
     (\<forall>x. pf_obj (pframes s' x) = pf_obj (pframes s x) \<and> pf_pagenum (pframes s' x) = pf_pagenum (pframes s x) \<and>
          pf_addr (pframes s' x) = pf_addr (pframes s x))"

lemma page_ids_trans: "page_ids r s \<Longrightarrow> page_ids s t \<Longrightarrow> page_ids r t"
  by (simp add: page_ids_def)

lemma page_ids_pin: "pframe_pin X pf s = Some s' \<Longrightarrow> page_ids s s'"
  by (auto simp: pframe_pin_def Let_def page_ids_def upd_pframe_def split: if_splits)

lemma page_ids_unpin: "pframe_unpin X pf s = Some s' \<Longrightarrow> page_ids s s'"
  by (auto simp: pframe_unpin_def Let_def page_ids_def upd_pframe_def split: if_splits)

lemma page_ids_dirty:
  assumes "pframe_dirty (mmobj_dirtypage X) pf s = Some (r, s')" and "pf_obj (pframes s pf) = Some ob"
    and "mmo_ops (mmobjs s ob) \<noteq> Vnode_mmobj_ops"
  shows "page_ids s s'"
proof -
  obtain t where t: "sched_broadcast_on (Pf_waitq pf) t = Some s'" and "page_ids s t"
    using assms
    by (cases "mmo_ops (mmobjs s ob)")
      (auto simp: pframe_dirty_def Let_def bind_Some_iff mmobj_dirtypage_def anon_dirtypage_def shadow_dirtypage_def upd_pframe_def page_ids_def
        split: if_splits)
  moreover have "page_ids t s'" using tq_onlyD [OF tq_only_broadcast [OF t]] by (simp add: page_ids_def)
  ultimately show ?thesis using page_ids_trans by blast
qed

lemma map_faulted_page:
  assumes api: "self_api_ok X" and p: "curproc s = Some p" and pf: "w \<longrightarrow> pf_obj (pframes s pf) = Some ob \<and> mmo_ops (mmobjs s ob) \<noteq> Vnode_mmobj_ops"
    and a: "pf_addr (pframes s pf) = Some a" and run: "map_faulted H X vaddr w (Some pf) s = Some r"
  shows "\<exists>s' l. r = Returned () s' \<and> hw s' = l @ entry H X (p_pagedir (procs s p)) vaddr w a \<and> page_ids s s'"
proof -
  note keep = mm_lookup.pin_keeps [OF self_mm_lookup [OF api]] mm_lookup.dirty_keeps [OF self_mm_lookup [OF api]]
    mm_lookup.unpin_keeps [OF self_mm_lookup [OF api]]
  have fin: "\<exists>s' l. r = Returned () s' \<and> hw s' = l @ entry H X (p_pagedir (procs s p)) vaddr w a \<and> page_ids s s'"
    if t: "self_keep s t" "page_ids s t" and r: "(do { p \<leftarrow> curproc t;
       let s = log_hw (Pt_map (p_pagedir (procs t p)) (PAGE_ALIGN_DOWN H vaddr) (pt_virt_to_phys X a)
               (PD_USER_FLAGS H OR (if w then PD_WRITE H else 0)) (PT_USER_FLAGS H OR (if w then PT_WRITE H else 0))) t;
       Some (Returned () (log_hw (Tlb_flush_user (PAGE_ALIGN_DOWN H vaddr)) s)) }) = Some r" for t
    using t r p by (auto simp: self_keep_def Let_def log_hw_def entry_def page_ids_def)
  show ?thesis
  proof (cases w)
    case False
    then show ?thesis using run a by (intro fin [of s]) (auto simp: map_faulted_def self_keep_def page_ids_def)
  next
    case True
    then obtain s1 e s2 s3 where s1: "pframe_pin X pf s = Some s1" and s2: "pframe_dirty (mmobj_dirtypage X) pf s1 = Some (e, s2)"
      and s3: "pframe_unpin X pf s2 = Some s3"
      using run a by (auto simp: map_faulted_def bind_Some_iff)
    have "self_keep s s3" using keep(1) [OF s1] keep(2) [OF s2] keep(3) [OF s3] by (simp add: self_keep_def)
    moreover have i1: "page_ids s s1" by (rule page_ids_pin [OF s1])
    then have "page_ids s1 s2" using page_ids_dirty [OF s2, of ob] pf True by (simp add: page_ids_def)
    then have "page_ids s s3" using page_ids_trans [OF page_ids_trans [OF i1]] page_ids_unpin [OF s3] by blast
    ultimately show ?thesis using run a True s1 s2 s3 by (intro fin [of s3]) (simp_all add: map_faulted_def)
  qed
qed

text \<open>
  C5: the page-fault handler enters the right page. Let the area of the address allow the access and its
  object stand over a chain of \<open>n\<close> shadow objects that ends in an anonymous object, no page be busy and
  two pages be free. Then the handler does not end the process. When it returns, and for a read access it
  does, the last entry of the page table of the process is for the page of the address and for a frame
  that holds what the object of the area shows there; for a write access the frame belongs to the
  object of the area itself, and the entry is writable.
\<close>

theorem pagefault_maps_page:
  assumes p: "curproc s = Some p" "p_vmmap (procs s p) = Some mp" and vma: "vmmap_lookup mp (ADDR_TO_PN H vaddr) s = Some vma"
    and ob: "vma_obj (vmareas s vma) = Some ob" and ok: "permits H cause (vma_prot (vmareas s vma))"
    and inv: "cache_inv H s" and api: "mm_api_ok X" "self_api_ok X" and ch: "obj_chain s ob n b"
    and busy: "\<forall>x\<in>in_use s. \<not> pf_busy (pframes s x)" and free: "two_free s pf1 a1 pf2 a2" and k: "n + 3 \<le> k"
    and w: "w \<longleftrightarrow> cause AND FAULT_WRITE H \<noteq> 0" and pn: "pn = ADDR_TO_PN H vaddr - vma_start (vmareas s vma) + vma_off (vmareas s vma)"
  shows "(w \<or> handle_pagefault k H X vaddr cause s \<noteq> None) \<and>
    (\<forall>r. handle_pagefault k H X vaddr cause s = Some r \<longrightarrow>
      (\<exists>s' l a. r = Returned () s' \<and> hw s' = l @ entry H X (p_pagedir (procs s p)) vaddr w a \<and> view s pn ob (phys s' a) \<and>
        (w \<longrightarrow> (\<exists>pf. pf_obj (pframes s' pf) = Some ob \<and> pf_pagenum (pframes s' pf) = pn \<and> pf_addr (pframes s' pf) = Some a))))"
proof -
  obtain pf t where look: "pframe_lookup k H X (Some ob) pn w s = Some ((0, Some pf), t)" and l: "looked_up H s ob pn w pf t"
    using pframe_lookup_looked_up [OF inv api(1) ch busy free k] by blast
  obtain ow a where ow: "resident t ow pn pf" "w \<longrightarrow> ow = ob" and a: "pf_addr (pframes t pf) = Some a" "view s pn ob (phys t a)" and g: "grows s t"
    using l unfolding looked_up_def by blast
  have keep: "self_keep s t" by (rule mm_lookup.pframe_lookup_keeps [OF self_mm_lookup [OF api(2)] look])
  have run: "handle_pagefault k H X vaddr cause s = map_faulted H X vaddr w (Some pf) t"
    using p vma ok look by (simp add: handle_pagefault_def look_faulted_def fault_denied_iff ob w [symmetric] pn [symmetric])
  have "mmo_ops (mmobjs t ob) \<noteq> Vnode_mmobj_ops" using obj_chain_ops [OF ch] keepsD(5) [OF grows_keeps [OF g]] by simp
  then have own: "w \<longrightarrow> pf_obj (pframes t pf) = Some ob \<and> mmo_ops (mmobjs t ob) \<noteq> Vnode_mmobj_ops" using ow by (simp add: resident_def)
  have tp: "curproc t = Some p" "p_pagedir (procs t p) = p_pagedir (procs s p)" using keep p(1) by (simp_all add: self_keep_def)
  have "w \<or> handle_pagefault k H X vaddr cause s \<noteq> None" using a(1) tp(1) by (auto simp: run map_faulted_def)
  moreover have "\<exists>s' l a. r = Returned () s' \<and> hw s' = l @ entry H X (p_pagedir (procs s p)) vaddr w a \<and> view s pn ob (phys s' a) \<and>
        (w \<longrightarrow> (\<exists>pf. pf_obj (pframes s' pf) = Some ob \<and> pf_pagenum (pframes s' pf) = pn \<and> pf_addr (pframes s' pf) = Some a))"
    if r: "handle_pagefault k H X vaddr cause s = Some r" for r
  proof -
    obtain s' m where s': "r = Returned () s'" "hw s' = m @ entry H X (p_pagedir (procs s p)) vaddr w a" "page_ids t s'"
      using map_faulted_page [OF api(2) tp(1) own a(1) r [unfolded run]] unfolding tp(2) by blast
    then show ?thesis using a ow
      by (intro exI [of _ s'] exI [of _ m] exI [of _ a]) (auto simp: page_ids_def resident_def)
  qed
  ultimately show ?thesis by blast
qed

text \<open>
  An example: a process with one area of sixteen pages, readable and writable, over the object 50 of
  \<open>shadowed_page\<close>, whose page 5 is in the object below.
\<close>

definition faulting :: kernel where
  "faulting = shadowed_page\<lparr>
     procs := (\<lambda>_. blank_proc\<lparr>p_vmmap := Some 7, p_pagedir := Some 3, p_threads := [1]\<rparr>),
     vmmaps := (vmmaps shadowed_page)(7 := \<lparr>vmm_list = [100], vmm_proc = Some 10\<rparr>),
     vmareas := (vmareas shadowed_page)(100 := blank_vmarea\<lparr>vma_start := 0x400, vma_end := 0x410, vma_off := 5, vma_prot := 3,
       vma_vmmap := Some 7, vma_obj := Some 50\<rparr>)\<rparr>"

lemma faulting_fields:
  "curproc faulting = Some 10" "curthr faulting = Some 1" "procs faulting p = blank_proc\<lparr>p_vmmap := Some 7, p_pagedir := Some 3, p_threads := [1]\<rparr>"
  "vmmap_lookup 7 0x400 faulting = Some 100" "vmmap_lookup 7 0x410 faulting = None"
  "vmareas faulting 100 = blank_vmarea\<lparr>vma_start := 0x400, vma_end := 0x410, vma_off := 5, vma_prot := 3, vma_vmmap := Some 7, vma_obj := Some 50\<rparr>"
  by (simp_all add: faulting_def shadowed_page_def boot_def vmmap_lookup_def blank_vmarea_def)

lemma faulting_pages:
  "in_use faulting = in_use shadowed_page" "pframes faulting = pframes shadowed_page" "mmobjs faulting = mmobjs shadowed_page"
  "phys faulting = phys shadowed_page" "slab faulting = slab shadowed_page" "pages faulting = pages shadowed_page"
  by (simp_all add: faulting_def in_use_def)

lemma faulting_inv: "cache_inv std_hdr faulting"
  using shadowed_page_inv by (simp add: cache_inv_defs faulting_def in_use_def)

theorem pagefault_maps_page_witness:
  "\<exists>s' l a. handle_pagefault 4 std_hdr no_wake 0x400123 0 faulting = Some (Returned () s') \<and>
     hw s' = l @ [Pt_map (Some 3) 0x400000 a 5 5, Tlb_flush_user 0x400000] \<and> phys s' a = (\<lambda>_. 7)"
proof -
  have b: "obj_chain faulting 60 0 60"
    by (rule obj_chain.bottom) (simp_all add: faulting_pages shadowed_page_fields blank_mmobj_def)
  have ch: "obj_chain faulting 50 (Suc 0) 60"
    by (rule obj_chain.shadow [OF _ _ _ _ b]) (simp_all add: faulting_pages shadowed_page_fields blank_mmobj_def)
  have busy: "\<forall>x\<in>in_use faulting. \<not> pf_busy (pframes faulting x)" by (simp add: faulting_pages shadowed_page_fields)
  have free: "two_free faulting 71 81 72 82" by (simp add: two_free_def faulting_pages shadowed_page_fields)
  have r: "resident faulting 60 5 70" by (simp add: resident_def faulting_pages shadowed_page_fields)
  have "phys faulting 80 = (\<lambda>_. 7)" by (simp add: faulting_pages shadowed_page_def)
  then have v60: "view faulting 5 60 (\<lambda>_. 7)"
    using view.here [OF r, of 80] by (simp add: faulting_pages shadowed_page_fields)
  have "\<forall>pf. \<not> resident faulting 50 5 pf" "mmo_shadowed (mmobjs faulting 50) = Some 60"
    by (auto simp: resident_def faulting_pages shadowed_page_fields)
  from view.below [OF this v60] have v50: "view faulting 5 50 (\<lambda>_. 7)" .
  have pn: "(5 :: u32) = ADDR_TO_PN std_hdr 0x400123 - vma_start (vmareas faulting 100) + vma_off (vmareas faulting 100)"
    by (simp add: std_hdr_def faulting_fields blank_vmarea_def)
  have area: "vmmap_lookup 7 (ADDR_TO_PN std_hdr 0x400123) faulting = Some 100" "vma_obj (vmareas faulting 100) = Some 50"
     "permits std_hdr 0 (vma_prot (vmareas faulting 100))"
    by (simp_all add: std_hdr_def faulting_fields blank_vmarea_def permits_def)
  have p: "curproc faulting = Some 10" "p_vmmap (procs faulting 10) = Some 7" by (simp_all add: faulting_fields)
  have "False \<longleftrightarrow> (0 :: u32) AND FAULT_WRITE std_hdr \<noteq> 0" "Suc 0 + 3 \<le> (4 :: nat)" by simp_all
  from pagefault_maps_page [OF p area faulting_inv no_wake_ok(2,1) ch busy free this(2,1) pn]
  obtain s' l a where s': "handle_pagefault 4 std_hdr no_wake 0x400123 0 faulting = Some (Returned () s')"
     "hw s' = l @ entry std_hdr no_wake (Some 3) 0x400123 False a" "view faulting 5 50 (phys s' a)"
    by (auto simp: faulting_fields)
  have "phys s' a = (\<lambda>_. 7)" using view_unique [OF faulting_inv v50 s'(3)] by simp
  moreover have "pt_virt_to_phys no_wake a = a" by (simp add: no_wake_def std_ext_def)
  ultimately show ?thesis using s'(1,2) by (auto simp: entry_def std_hdr_def)
qed

theorem pagefault_protection_witness:
  "handle_pagefault 1 std_hdr std_ext 0x410000 2 faulting = do_exit 1 std_hdr std_ext 14 faulting \<and>
     (\<forall>s'. do_exit 1 std_hdr std_ext 14 faulting \<noteq> Some (Returned () s'))"
proof -
  have "curproc faulting = Some 10" "p_vmmap (procs faulting 10) = Some 7" "curthr faulting = Some 1" "1 \<in> set (p_threads (procs faulting 10))"
    by (simp_all add: faulting_fields)
  from pagefault_protection [OF this, where H = std_hdr and vaddr = "0x410000" and n = 1 and X = std_ext and cause = 2 and u = "()"]
  moreover have "ADDR_TO_PN std_hdr 0x410000 = 0x410" "Err std_hdr EFAULT = 14" by (simp_all add: std_hdr_def std_errnos_def)
  ultimately show ?thesis by (simp add: faulting_fields)
qed

end
