(* ===== verification/Access.thy ===== *)
theory Access
  imports Vm_Calls
begin

text \<open>
  The checked access of the kernel to user memory, \<open>kernel/api/access.c\<close>. The layouts of the argument
  structures and the allocator's behaviour on NULL are not in the sources; they are the fields of
  \<open>abi\<close>, an argument of the definitions that use them.
\<close>

type_synonym bytes = "8 word list"

text \<open>
  A structure as it is copied from user memory: its size, and how its bytes are read. On fewer bytes
  than the size the second component stands for what an uninitialised structure holds.
\<close>

type_synonym 'a layout = "u32 \<times> (bytes \<Rightarrow> 'a)"

record argstr =
  as_str :: u32
  as_len :: u32

record argvec =
  av_vec :: u32
  av_len :: u32

record abi =
  argstr_t :: "argstr layout"
  kfree_null :: proc_call
  page_free_null :: proc_call

text \<open>A string in kernel memory: its address and the bytes of its buffer.\<close>

type_synonym kstr = "nat \<times> bytes"

definition c_string :: "bytes \<Rightarrow> string option" where
  "c_string bs = (if 0 \<in> set bs then Some (map (\<lambda>b. char_of (unat b)) (takeWhile (\<lambda>b. b \<noteq> 0) bs)) else None)"

definition kfree :: "'z abi_scheme \<Rightarrow> nat option \<Rightarrow> proc_call" where
  "kfree A a s = (case a of Some a \<Rightarrow> Some (slab_obj_free a s) | None \<Rightarrow> kfree_null A s)"

definition set_errno :: "int \<Rightarrow> proc_call" where
  "set_errno e s = do { thr \<leftarrow> curthr s; upd_thr thr (\<lambda>th. th\<lparr>kt_errno := e\<rparr>) s }"

definition get_errno :: "kernel \<Rightarrow> int option" where
  "get_errno s = do { thr \<leftarrow> curthr s; th \<leftarrow> threads s thr; Some (kt_errno th) }"

subsection \<open>Permissions\<close>

definition addr_perm :: "hdr \<Rightarrow> paddr \<Rightarrow> u32 \<Rightarrow> u32 \<Rightarrow> kernel \<Rightarrow> int option" where
  "addr_perm H p vaddr perm s = do {
     mp \<leftarrow> p_vmmap (procs s p);
     Some (case vmmap_lookup mp (ADDR_TO_PN H vaddr) s of
             None \<Rightarrow> 0
           | Some vma \<Rightarrow> (if vma_prot (vmareas s vma) AND perm \<noteq> perm then 0 else 1)) }"

text \<open>
  The loop of \<open>range_perm\<close> over the page numbers from the first to the last one, both included. Page
  numbers have fewer bits than a word, so that \<open>++pn\<close> does not wrap around.
\<close>

fun range_perm_loop :: "hdr \<Rightarrow> paddr \<Rightarrow> u32 \<Rightarrow> u32 list \<Rightarrow> kernel \<Rightarrow> int option" where
  "range_perm_loop H p perm [] s = Some 1"
| "range_perm_loop H p perm (pn # pns) s = do {
     ok \<leftarrow> addr_perm H p (PN_TO_ADDR H pn) perm s;
     if ok = 0 then Some 0 else range_perm_loop H p perm pns s }"

definition range_perm :: "hdr \<Rightarrow> paddr \<Rightarrow> u32 \<Rightarrow> u32 \<Rightarrow> u32 \<Rightarrow> kernel \<Rightarrow> int option" where
  "range_perm H p avaddr len perm s =
     (let start_pn = ADDR_TO_PN H avaddr; end_pn = ADDR_TO_PN H (avaddr + len)
      in range_perm_loop H p perm (map word_of_nat [unat start_pn..<Suc (unat end_pn)]) s)"

subsection \<open>Copying\<close>

text \<open>The result of \<open>copy_from_user\<close> has the bytes that it stores from \<open>kaddr\<close> on.\<close>

definition copy_from_user :: "nat \<Rightarrow> hdr \<Rightarrow> ext \<Rightarrow> u32 \<Rightarrow> u32 \<Rightarrow> (int \<times> bytes) call" where
  "copy_from_user n H X uaddr nbytes s = do {
     p \<leftarrow> curproc s;
     ok \<leftarrow> range_perm H p uaddr nbytes (PROT_READ H) s;
     if ok = 0 then Some ((- Err H EFAULT, []), s)
     else vmmap_read n H X (p_vmmap (procs s p)) uaddr nbytes s }"

definition copy_to_user :: "nat \<Rightarrow> hdr \<Rightarrow> ext \<Rightarrow> u32 \<Rightarrow> bytes \<Rightarrow> u32 \<Rightarrow> int call" where
  "copy_to_user n H X uaddr kbytes nbytes s = do {
     p \<leftarrow> curproc s;
     ok \<leftarrow> range_perm H p uaddr nbytes (PROT_WRITE H) s;
     if ok = 0 then Some (- Err H EFAULT, s)
     else vmmap_write n H X (p_vmmap (procs s p)) uaddr kbytes nbytes s }"

definition user_strdup :: "nat \<Rightarrow> hdr \<Rightarrow> ext \<Rightarrow> argstr \<Rightarrow> kstr option call" where
  "user_strdup n H X ustr s = do {
     (kstr, s) \<leftarrow> slab_obj_alloc s;
     (case kstr of
        None \<Rightarrow> do { s \<leftarrow> set_errno (Err H ENOMEM) s; Some (None, s) }
      | Some k \<Rightarrow> do {
          ((ret, bs), s) \<leftarrow> copy_from_user n H X (as_str ustr) (as_len ustr + 1) s;
          if 0 > ret
          then do { s \<leftarrow> set_errno (- ret) s; Some (None, slab_obj_free k s) }
          else Some (Some (k, bs), s) }) }"

text \<open>The element \<open>temp_kvec[i]\<close> of the copied array; there is none past the bytes that were copied.\<close>

definition vec_nth :: "'a layout \<Rightarrow> bytes \<Rightarrow> nat \<Rightarrow> 'a option" where
  "vec_nth l bs i = (let sz = unat (fst l) in
     if (i + 1) * sz \<le> length bs then Some (snd l (take sz (drop (i * sz) bs))) else None)"

text \<open>
  The loop of \<open>user_vecdup\<close> over the indices: \<open>Inl strs\<close> has the strings copied before the one that
  failed, \<open>Inr strs\<close> all of them.
\<close>

fun user_vecdup_loop :: "nat \<Rightarrow> hdr \<Rightarrow> ext \<Rightarrow> argstr layout \<Rightarrow> bytes \<Rightarrow> nat list \<Rightarrow> kstr list \<Rightarrow>
    (kstr list + kstr list) call" where
  "user_vecdup_loop n H X l temp_kvec [] kvec s = Some (Inr kvec, s)"
| "user_vecdup_loop n H X l temp_kvec (i # is) kvec s = do {
     ustr \<leftarrow> vec_nth l temp_kvec i;
     (k, s) \<leftarrow> user_strdup n H X ustr s;
     (case k of
        None \<Rightarrow> Some (Inl kvec, s)
      | Some k \<Rightarrow> user_vecdup_loop n H X l temp_kvec is (kvec @ [k]) s) }"

definition free_strs :: "kstr list \<Rightarrow> kernel \<Rightarrow> kernel" where
  "free_strs strs s = fold (\<lambda>k. slab_obj_free (fst k)) strs s"

text \<open>
  The code after \<open>fail\<close>, for a vector that is NULL or ends with a NULL entry. When copying the array
  fails the entries of \<open>kvec\<close> are not initialised and the loop after \<open>fail\<close> frees what they hold; the
  model gives that no result.
\<close>

definition vecdup_fail :: "'z abi_scheme \<Rightarrow> nat option \<Rightarrow> (nat \<times> kstr list) option \<Rightarrow> int \<Rightarrow>
    (nat \<times> kstr list) option call" where
  "vecdup_fail A temp_kvec kvec ret s = do {
     let s = (case kvec of None \<Rightarrow> s | Some (v, strs) \<Rightarrow> slab_obj_free v (free_strs strs s));
     s \<leftarrow> kfree A temp_kvec s;
     s \<leftarrow> set_errno (- ret) s;
     Some (None, s) }"

definition user_vecdup :: "nat \<Rightarrow> hdr \<Rightarrow> ext \<Rightarrow> 'z abi_scheme \<Rightarrow> argvec \<Rightarrow> (nat \<times> kstr list) option call" where
  "user_vecdup n H X A uvec s = do {
     (temp_kvec, s) \<leftarrow> slab_obj_alloc s;
     if temp_kvec = None then vecdup_fail A None None (- Err H ENOMEM) s
     else do {
       (kvec, s) \<leftarrow> slab_obj_alloc s;
       (case kvec of
          None \<Rightarrow> vecdup_fail A temp_kvec None (- Err H ENOMEM) s
        | Some v \<Rightarrow> do {
            ((ret, bs), s) \<leftarrow> copy_from_user n H X (av_vec uvec) ((av_len uvec + 1) * fst (argstr_t A)) s;
            if 0 > ret then None
            else do {
              (r, s) \<leftarrow> user_vecdup_loop n H X (argstr_t A) bs [0..<unat (av_len uvec)] [] s;
              (case r of
                 Inl strs \<Rightarrow> do { e \<leftarrow> get_errno s; vecdup_fail A temp_kvec (Some (v, strs)) (- e) s }
               | Inr strs \<Rightarrow> do { s \<leftarrow> kfree A temp_kvec s; Some (Some (v, strs), s) }) } }) } }"

subsection \<open>What the checks decide\<close>

text \<open>The page has an area whose protection allows the access.\<close>

definition allowed :: "vmapaddr \<Rightarrow> u32 \<Rightarrow> u32 \<Rightarrow> kernel \<Rightarrow> bool" where
  "allowed mp perm pn s \<longleftrightarrow> (\<exists>vma. vmmap_lookup mp pn s = Some vma \<and> vma_prot (vmareas s vma) AND perm = perm)"

lemma unat_pn: "page_ok H \<Longrightarrow> unat (ADDR_TO_PN H a) = unat a div 2 ^ PAGE_SHIFT H"
  by (simp add: page_ok_def unat_drop_bit_eq flip: drop_bit_eq_div)

lemma pn_of_pn:
  assumes "page_ok H" and "pn \<le> ADDR_TO_PN H a"
  shows "ADDR_TO_PN H (PN_TO_ADDR H pn) = pn"
proof -
  let ?k = "PAGE_SHIFT H"
  have k: "?k < 32" using assms(1) by (simp add: page_ok_def)
  have "unat pn \<le> unat (ADDR_TO_PN H a)" using assms(2) by (simp add: word_le_nat_alt)
  also have "\<dots> = unat a div 2 ^ ?k" by (rule unat_pn [OF assms(1)])
  also have "\<dots> < 2 ^ (32 - ?k)"
    using k unsigned_less [of a] by (intro less_mult_imp_div_less) (simp flip: power_add)
  finally have "unat (take_bit (32 - ?k) pn) = unat pn"
    by (simp add: unsigned_take_bit_eq take_bit_nat_eq_self_iff)
  then have "take_bit (32 - ?k) pn = pn" by (rule word_eq_iff_unsigned [THEN iffD2])
  moreover have "drop_bit ?k (push_bit ?k pn) = take_bit (32 - ?k) pn"
    by (rule bit_word_eqI) (auto simp: bit_simps)
  ultimately show ?thesis using assms(1) by (simp add: page_ok_def)
qed

lemma addr_perm_eq:
  "p_vmmap (procs s p) = Some mp \<Longrightarrow> addr_perm H p vaddr perm s = Some (if allowed mp perm (ADDR_TO_PN H vaddr) s then 1 else 0)"
  by (auto simp: addr_perm_def allowed_def split: option.split)

lemma range_perm_loop_eq:
  assumes "p_vmmap (procs s p) = Some mp"
  shows "range_perm_loop H p perm pns s = Some (if \<forall>pn\<in>set pns. allowed mp perm (ADDR_TO_PN H (PN_TO_ADDR H pn)) s then 1 else 0)"
  by (induction pns) (auto simp: addr_perm_eq [OF assms])

lemma range_perm_eq:
  assumes "page_ok H" and "p_vmmap (procs s p) = Some mp"
  shows "range_perm H p avaddr len perm s =
    Some (if \<forall>pn. ADDR_TO_PN H avaddr \<le> pn \<and> pn \<le> ADDR_TO_PN H (avaddr + len) \<longrightarrow> allowed mp perm pn s then 1 else 0)"
proof -
  let ?st = "ADDR_TO_PN H avaddr" let ?en = "ADDR_TO_PN H (avaddr + len)"
  have pns: "set (map word_of_nat [unat ?st..<Suc (unat ?en)]) = {pn. ?st \<le> pn \<and> pn \<le> ?en}"
  proof (intro set_eqI iffI)
    fix pn :: u32
    assume "pn \<in> {pn. ?st \<le> pn \<and> pn \<le> ?en}"
    then show "pn \<in> set (map word_of_nat [unat ?st..<Suc (unat ?en)])"
      by (auto simp: word_le_nat_alt simp del: upt_Suc intro!: image_eqI [of _ _ "unat pn"])
  next
    fix pn :: u32
    assume "pn \<in> set (map word_of_nat [unat ?st..<Suc (unat ?en)])"
    then obtain i where i: "pn = word_of_nat i" "unat ?st \<le> i" "i \<le> unat ?en" by auto
    have "unat ?en < 2 ^ LENGTH(32)" by (rule unsigned_less)
    then have "i < 2 ^ 32" using i(3) by simp
    then have "unat pn = i" using i(1) by (simp add: unsigned_of_nat take_bit_nat_eq_self_iff)
    then show "pn \<in> {pn. ?st \<le> pn \<and> pn \<le> ?en}" using i by (simp add: word_le_nat_alt)
  qed
  have "(\<forall>pn\<in>set (map word_of_nat [unat ?st..<Suc (unat ?en)]). allowed mp perm (ADDR_TO_PN H (PN_TO_ADDR H pn)) s) \<longleftrightarrow>
      (\<forall>pn. ?st \<le> pn \<and> pn \<le> ?en \<longrightarrow> allowed mp perm pn s)"
    unfolding pns using pn_of_pn [OF assms(1)] by auto
  then show ?thesis by (simp only: range_perm_def Let_def range_perm_loop_eq [OF assms(2)])
qed

text \<open>The addresses of a range that does not wrap around lie on the pages that \<open>range_perm\<close> looks at.\<close>

lemma pn_mono: "page_ok H \<Longrightarrow> a \<le> b \<Longrightarrow> ADDR_TO_PN H a \<le> ADDR_TO_PN H b"
  by (simp add: word_le_nat_alt unat_pn div_le_mono)

lemma vmmap_read_result: "vmmap_read n H X mp vaddr cnt s = Some ((r, bs), s') \<Longrightarrow> r = 0"
  by (auto simp: vmmap_read_def bind_Some_iff)

lemma vmmap_write_result: "vmmap_write n H X mp vaddr buf cnt s = Some (r, s') \<Longrightarrow> r = 0"
  by (auto simp: vmmap_write_def bind_Some_iff)


text \<open>
  C40: a range that wraps around the end of the address space passes the check with no page looked at,
  and nothing is copied: the calls return 0, which is success, and leave the buffer as it was.
\<close>

theorem user_copy_wraps:
  assumes p: "curproc s = Some p" "p_vmmap (procs s p) = Some mp" and "ADDR_TO_PN H (a + len) < ADDR_TO_PN H a" and "a + len \<le> a"
  shows "copy_from_user n H X a len s = Some ((0, []), s) \<and> copy_to_user n H X a b len s = Some (0, s)"
proof -
  have "[unat (ADDR_TO_PN H a)..<Suc (unat (ADDR_TO_PN H (a + len)))] = []" using assms(3) by (simp add: word_less_nat_alt)
  then have "range_perm H p a len perm s = Some 1" for perm by (simp only: range_perm_def Let_def list.map range_perm_loop.simps)
  moreover have "\<not> a < a + len" using assms(4) by (simp only: not_less)
  ultimately show ?thesis using p by (simp add: copy_from_user_def copy_to_user_def vmmap_read_def vmmap_write_def)
qed

text \<open>An example: a process whose first area can be read and not written.\<close>

definition user_mem :: kernel where
  "user_mem = two_areas\<lparr>procs := (\<lambda>_. blank_proc\<lparr>p_vmmap := Some 7\<rparr>),
     vmareas := (vmareas two_areas)(100 := (vmareas two_areas 100)\<lparr>vma_prot := 1\<rparr>)\<rparr>"

lemma user_mem_fields [simp]: "curproc user_mem = Some 10" "p_vmmap (procs user_mem p) = Some 7"
  by (simp_all add: user_mem_def two_areas_def boot_def)

lemma std_hdr_access:
  "ADDR_TO_PN std_hdr = drop_bit 12" "PN_TO_ADDR std_hdr = push_bit 12" "PROT_READ std_hdr = 1" "PROT_WRITE std_hdr = 2"
  "Err std_hdr = std_errnos"
  by (simp_all add: std_hdr_def)


theorem user_copy_wraps_witness:
  "copy_from_user 1 std_hdr std_ext 0xFFFFF000 0x2000 user_mem = Some ((0, []), user_mem) \<and>
     copy_to_user 1 std_hdr std_ext 0xFFFFF000 [1] 0x2000 user_mem = Some (0, user_mem)"
  by (rule user_copy_wraps [of _ 10 7]) (simp_all add: std_hdr_access)

end
