(* ===== verification/Vm_Space.thy ===== *)
theory Vm_Space
  imports Access
begin

text \<open>
  \<open>do_brk\<close> and \<open>do_munmap\<close> against the page map of the address space (\<open>page_of\<close>): which pages they map
  and unmap, and when they refuse.
\<close>

subsection \<open>An area that grows\<close>

lemma areas_ok_grow:
  assumes "areas_ok h lo hi l" and "distinct l" and "t \<in> set l" and "vma_end (h t) \<le> e" and "e \<le> hi"
    and "\<forall>a\<in>set l. \<not> (vma_start (h a) < e \<and> vma_end (h a) > vma_end (h t))"
  shows "areas_ok (h(t := (h t)\<lparr>vma_end := e\<rparr>)) lo hi l"
  using assms
proof (induction l arbitrary: lo)
  case (Cons a l)
  show ?case
  proof (cases "a = t")
    case True
    then have t: "t \<notin> set l" "areas_ok h (vma_end (h t)) hi l" "lo \<le> vma_start (h t)" "vma_start (h t) < vma_end (h t)"
      using Cons.prems(1,2) by auto
    have "areas_ok h e hi l"
    proof (cases l)
      case (Cons b l')
      have "vma_end (h t) < vma_end (h b)" using t(2) Cons by (auto intro: order.strict_trans1)
      then have "e \<le> vma_start (h b)" using Cons.prems(6) Cons by (auto simp: not_less)
      then show ?thesis using t(2) Cons by simp
    qed (use Cons.prems(5) in simp)
    moreover have "areas_ok (h(t := (h t)\<lparr>vma_end := e\<rparr>)) e hi l = areas_ok h e hi l" by (rule areas_ok_cong) (use t(1) in auto)
    moreover have "vma_start (h t) < e" using t(4) Cons.prems(4) by (rule order.strict_trans2)
    ultimately show ?thesis using True t(3) by (simp del: fun_upd_apply add: fun_upd_same)
  next
    case False
    then show ?thesis using Cons by auto
  qed
qed simp

lemma maps_to_grow:
  assumes "t \<in> set l" and "vma_start (h t) \<le> vma_end (h t)" and "vma_end (h t) \<le> e"
  shows "maps_to (h(t := (h t)\<lparr>vma_end := e\<rparr>)) l p x \<longleftrightarrow>
     maps_to h l p x \<or> vma_end (h t) \<le> p \<and> p < e \<and> x = page_info (h t) p"
proof -
  have "covers ((h t)\<lparr>vma_end := e\<rparr>) p \<longleftrightarrow> covers (h t) p \<or> vma_end (h t) \<le> p \<and> p < e"
    using assms(2,3) by (auto simp: covers_def not_less intro: order.trans order.strict_trans2)
  moreover have "page_info ((h t)\<lparr>vma_end := e\<rparr>) p = page_info (h t) p" by (simp add: page_info_def)
  ultimately show ?thesis using assms(1) by (auto simp: maps_to_def)
qed

lemma expand_brk_pages:
  assumes wf: "vmmap_wf H mp s" and mp: "p_vmmap (procs s p) = Some mp" and t: "t \<in> set (vmm_list (vmmaps s mp))"
    and prev: "prev = vma_end (vmareas s t)" "prev < cur" and run: "expand_brk H p t prev cur (cur - prev) s = Some (r, s')"
  shows "r = 0 \<and> vmmap_wf H mp s' \<and>
       (\<forall>q. page_of mp q s' = (if prev \<le> q \<and> q < cur then Some (page_info (vmareas s t) q) else page_of mp q s)) \<or>
     r = - Err H ENOMEM \<and> s' = s \<and> (\<exists>q. prev \<le> q \<and> q < cur \<and> page_of mp q s \<noteq> None)"
proof -
  let ?l = "vmm_list (vmmaps s mp)"
  let ?free = "\<forall>a\<in>set ?l. \<not> (vma_start (vmareas s a) < cur \<and> vma_end (vmareas s a) > prev)"
  have hi: "cur \<le> hi_pn H" and r: "(r, s') = (if ?free then (0, upd_vmarea t (\<lambda>v. v\<lparr>vma_end := cur\<rparr>) s) else (- Err H ENOMEM, s))"
    using run mp by (auto simp: expand_brk_def vmmap_is_range_empty_def is_range_empty_loop_eq Let_def split: if_splits)
  show ?thesis
  proof (cases ?free)
    case True
    then have s': "r = 0" "s' = upd_vmarea t (\<lambda>v. v\<lparr>vma_end := cur\<rparr>) s" using r by auto
    then have h: "vmmaps s' = vmmaps s" "vmareas s' = (vmareas s)(t := (vmareas s t)\<lparr>vma_end := cur\<rparr>)" by (simp_all add: upd_defs)
    have ok: "areas_ok (vmareas s') (lo_pn H) (hi_pn H) ?l" unfolding h
      by (rule areas_ok_grow [OF vmmap_wfD(2,1) [OF wf] t]) (use prev hi True in auto)
    have wf': "vmmap_wf H mp s'" using wf ok h by (auto simp: vmmap_wf_def)
    have st: "vma_start (vmareas s t) \<le> vma_end (vmareas s t)" using vmmap_wfD(4) [OF wf t] by simp
    have new: "page_of mp q s' = Some x \<longleftrightarrow> page_of mp q s = Some x \<or> prev \<le> q \<and> q < cur \<and> x = page_info (vmareas s t) q" for q x
      unfolding page_of_maps_to [OF wf'] page_of_maps_to [OF wf]
      using maps_to_grow [where h = "vmareas s", OF t st, of cur q x] prev h by simp
    have none: "page_of mp q s = None" if "prev \<le> q" "q < cur" for q
      using True that by (auto simp: page_of_def vmmap_lookup_None_iff covers_def not_less intro: order.trans order.strict_trans1)
    have "page_of mp q s' = (if prev \<le> q \<and> q < cur then Some (page_info (vmareas s t) q) else page_of mp q s)" for q
    proof (cases "prev \<le> q \<and> q < cur")
      case False
      then show ?thesis using new [of q] by (cases "page_of mp q s"; cases "page_of mp q s'") auto
    qed (use new in auto)
    then show ?thesis using wf' s'(1) by simp
  next
    case False
    then obtain a where a: "a \<in> set ?l" "vma_start (vmareas s a) < cur" "prev < vma_end (vmareas s a)" by auto
    let ?q = "max prev (vma_start (vmareas s a))"
    have "covers (vmareas s a) ?q" using a vmmap_wfD(4) [OF wf a(1)] by (auto simp: covers_def max_def)
    then have "page_of mp ?q s \<noteq> None" using a(1) by (auto simp: page_of_def vmmap_lookup_None_iff)
    moreover have "prev \<le> ?q" "?q < cur" using a prev by (auto simp: max_def)
    moreover have "(r, s') = (- Err H ENOMEM, s)" using r unfolding if_not_P [OF False] .
    ultimately show ?thesis by blast
  qed
qed

subsection \<open>The break\<close>

text \<open>
  C12: \<open>do_brk\<close> moves the end of the area of the break. Let that area end at page \<open>prev\<close> and the new break
  need the pages below \<open>cur\<close>. When the call succeeds the address space is well formed, the pages from
  \<open>prev\<close> up to \<open>cur\<close> continue the object of the area, the pages from \<open>cur\<close> up to \<open>prev\<close> are unmapped, every
  other page is as it was, and the new break, which lies between the start of the break and the end of
  user memory, is stored and returned. Otherwise it returns \<open>-ENOMEM\<close> with the state as it was, and the
  break is out of these bounds or a page that it needs is mapped.
\<close>

theorem do_brk_refines:
  assumes H: "errnos_ok (Err H)" and api: "areas_api_ok X" and wf: "vmmap_wf H mp s"
    and p: "curproc s = Some p" "p_vmmap (procs s p) = Some mp"
    and vma: "vmmap_lookup mp (ADDR_TO_PN H (p_start_brk (procs s p))) s = Some vma"
    and fresh: "\<forall>a as. slab s = Some a # as \<longrightarrow> a \<notin> set (vmm_list (vmmaps s mp))"
    and prev: "prev = vma_end (vmareas s vma)" and cur: "cur = ADDR_TO_PN H (PAGE_ALIGN_UP H addr)"
    and addr: "addr \<noteq> 0" and run: "do_brk n H X addr s = Some ((r, ret), s')"
  shows "r = 0 \<and> ret = Some addr \<and> p_brk (procs s' p) = addr \<and> p_start_brk (procs s p) \<le> addr \<and> addr \<le> USER_MEM_HIGH H \<and> vmmap_wf H mp s' \<and>
       (\<forall>q. page_of mp q s' = (if prev \<le> q \<and> q < cur then Some (page_info (vmareas s vma) q)
          else if cur \<le> q \<and> q < prev then None else page_of mp q s)) \<or>
     r = - Err H ENOMEM \<and> ret = None \<and> s' = s \<and>
       (addr < p_start_brk (procs s p) \<or> addr > USER_MEM_HIGH H \<or> (\<exists>q. prev \<le> q \<and> q < cur \<and> page_of mp q s \<noteq> None))"
proof (cases "addr < p_start_brk (procs s p) \<or> addr > USER_MEM_HIGH H")
  case True
  then show ?thesis using run p addr H by (auto simp: do_brk_def validate_brk_addr_def errnos_ok_def)
next
  case False
  have t: "vma \<in> set (vmm_list (vmmaps s mp))" using vma vmmap_lookup_Some_iff [OF wf] by simp
  let ?pages = "\<lambda>s1. \<forall>q. page_of mp q s1 = (if prev \<le> q \<and> q < cur then Some (page_info (vmareas s vma) q)
          else if cur \<le> q \<and> q < prev then None else page_of mp q s)"
  obtain e s1 where e: "(if prev < cur then expand_brk H p vma prev cur (cur - prev) s
       else if prev > cur then do { (_, s) \<leftarrow> vmmap_remove n H X (Some mp) cur (- (cur - prev)) s; Some (0, s) } else Some (0, s)) = Some (e, s1)"
    and out: "(if e < 0 then ((e, None), s1) else ((0, Some addr), upd_proc p (\<lambda>q. q\<lparr>p_brk := addr\<rparr>) s1)) = ((r, ret), s')"
    using run p addr vma False prev cur by (auto simp: do_brk_def validate_brk_addr_def Let_def bind_Some_iff split: if_splits)
  consider (less) "prev < cur" | (greater) "cur < prev" | (same) "cur = prev" by (metis linorder_cases)
  then have "e = 0 \<and> vmmap_wf H mp s1 \<and> ?pages s1 \<or> e = - Err H ENOMEM \<and> s1 = s \<and> (\<exists>q. prev \<le> q \<and> q < cur \<and> page_of mp q s \<noteq> None)"
  proof cases
    case less
    then show ?thesis using expand_brk_pages [OF wf p(2) t prev less, of e s1] e by auto
  next
    case greater
    then have "\<not> prev < cur" by simp
    with greater have rm: "\<exists>r. vmmap_remove n H X (Some mp) cur (- (cur - prev)) s = Some (r, s1)" "e = 0"
      using e by (auto simp: bind_Some_iff)
    have "cur \<le> cur + - (cur - prev)" using greater by simp
    from rm(1) vmmap_remove_pages [OF api wf this fresh]
    have rest: "vmmap_wf H mp s1" "\<forall>q. page_of mp q s1 = (if cur \<le> q \<and> q < prev then None else page_of mp q s)" by auto
    have "(prev \<le> q \<and> q < cur) = False" for q using greater by (metis order.strict_trans order.strict_trans1 order.irrefl)
    then have "?pages s1" using rest(2) by (simp only: if_False) simp
    then show ?thesis using rm(2) rest(1) by blast
  next
    case same
    then show ?thesis using e wf by auto
  qed
  then have "r = 0 \<and> ret = Some addr \<and> s' = upd_proc p (\<lambda>q. q\<lparr>p_brk := addr\<rparr>) s1 \<and> vmmap_wf H mp s1 \<and> ?pages s1 \<or>
      r = - Err H ENOMEM \<and> ret = None \<and> s' = s \<and> (\<exists>q. prev \<le> q \<and> q < cur \<and> page_of mp q s \<noteq> None)"
  proof (elim disjE conjE)
    assume "e = 0" "vmmap_wf H mp s1" "?pages s1"
    with out show ?thesis by (intro disjI1) simp
  next
    assume "e = - Err H ENOMEM" "s1 = s" "\<exists>q. prev \<le> q \<and> q < cur \<and> page_of mp q s \<noteq> None"
    with out errnos_okD [OF H, of ENOMEM] show ?thesis by (intro disjI2) simp
  qed
  moreover have "vmmap_wf H mp (upd_proc p f s1) = vmmap_wf H mp s1" "page_of mp q (upd_proc p f s1) = page_of mp q s1"
      "p_brk (procs (upd_proc p (\<lambda>q. q\<lparr>p_brk := addr\<rparr>) s1) p) = addr" for q f
    by (simp_all add: vmmap_wf_def page_of_def vmmap_lookup_def upd_defs)
  moreover have "p_start_brk (procs s p) \<le> addr" "addr \<le> USER_MEM_HIGH H" using False by (simp_all add: not_less)
  ultimately show ?thesis by (elim disjE conjE) (rule disjI1, simp, rule disjI2, simp)
qed

subsection \<open>Unmapping\<close>

text \<open>The pages of a range of addresses that starts with a page.\<close>

lemma pages_of_range:
  fixes a len q sz :: nat
  assumes "0 < sz" and "a mod sz = 0"
  shows "(\<exists>x. a \<le> x \<and> x < a + len \<and> x div sz = q) \<longleftrightarrow> a div sz \<le> q \<and> q < a div sz + (if len mod sz = 0 then len div sz else len div sz + 1)"
proof -
  obtain k where a: "a = sz * k" using assms(2) by auto
  let ?n = "if len mod sz = 0 then len div sz else len div sz + 1"
  have len: "sz * (len div sz) + len mod sz = len" by simp
  have up: "len \<le> sz * ?n"
  proof -
    have "len mod sz < sz" using assms(1) by simp
    then have "len \<le> sz * (len div sz) + sz" using len by linarith
    then have "len mod sz = 0 \<longrightarrow> len \<le> sz * (len div sz)" "len \<le> sz * (len div sz + 1)"
      using len by (linarith, simp add: algebra_simps)
    then show ?thesis by simp
  qed
  have low: "sz * i < len" if "i < ?n" for i
  proof (cases "i < len div sz")
    case True
    then have "sz * Suc i \<le> sz * (len div sz)" by (intro mult_le_mono2) simp
    then have "sz + sz * i \<le> sz * (len div sz)" by simp
    then show ?thesis using len assms(1) by linarith
  next
    case False
    then have i: "i = len div sz" "0 < len mod sz" using that by (auto split: if_splits)
    then show ?thesis unfolding i(1) using len by linarith
  qed
  show ?thesis
  proof (intro iffI)
    assume "\<exists>x. a \<le> x \<and> x < a + len \<and> x div sz = q"
    then obtain x where x: "a \<le> x" "x < a + len" "x div sz = q" by blast
    have "x < sz * (k + ?n)" using x(2) up a by (simp add: algebra_simps)
    then have "x div sz < k + ?n" by (simp add: less_mult_imp_div_less mult.commute)
    moreover have "k \<le> x div sz" using x(1) a assms(1) by (simp add: less_eq_div_iff_mult_less_eq mult.commute)
    ultimately show "a div sz \<le> q \<and> q < a div sz + ?n" using x(3) a assms(1) by simp
  next
    assume q: "a div sz \<le> q \<and> q < a div sz + ?n"
    then have "q - k < ?n" "k \<le> q" using a assms(1) by auto
    moreover have "sz * q = a + sz * (q - k)" using a \<open>k \<le> q\<close> by (simp add: diff_mult_distrib2 algebra_simps)
    ultimately have "a \<le> sz * q" "sz * q < a + len" using low [of "q - k"] by linarith+
    then show "\<exists>x. a \<le> x \<and> x < a + len \<and> x div sz = q" using assms(1) by (intro exI [of _ "sz * q"]) simp
  qed
qed

lemma munmap_pages:
  assumes H: "page_ok H" and al: "PAGE_ALIGNED H addr" and le: "addr \<le> addr + len"
    and np: "np = (if len mod PAGE_SIZE H = 0 then len div PAGE_SIZE H else len div PAGE_SIZE H + 1)"
  shows "ADDR_TO_PN H addr \<le> ADDR_TO_PN H addr + np"
    and "ADDR_TO_PN H addr \<le> q \<and> q < ADDR_TO_PN H addr + np \<longleftrightarrow> (\<exists>x. addr \<le> x \<and> x < addr + len \<and> ADDR_TO_PN H x = q)"
proof -
  let ?k = "PAGE_SHIFT H" let ?z = "(2 :: nat) ^ PAGE_SHIFT H"
  have k: "0 < ?k" "?k < 32" using H by (auto simp: page_ok_def)
  have sz: "unat (PAGE_SIZE H) = ?z" using H k(2) by (simp add: page_ok_def push_bit_eq_mult unat_pow2)
  have z: "1 < ?z" using k(1) by (intro one_less_power) simp_all
  have sum: "unat (addr + len) = unat addr + unat len"
  proof -
    have "unat (addr + len) = (unat addr + unat len) mod 2 ^ 32" by (simp add: unat_word_ariths(1))
    moreover have "unat addr \<le> unat (addr + len)" using le by (simp only: word_le_nat_alt)
    moreover have "unat len < 2 ^ 32" "unat addr < 2 ^ 32" using unsigned_less [of len] unsigned_less [of addr] by simp_all
    ultimately show ?thesis by (cases "unat addr + unat len < 2 ^ 32") (simp, simp add: le_mod_geq not_less)
  qed
  have "unat (take_bit ?k addr) = 0" using al H by (simp add: page_ok_def)
  then have al': "unat addr mod ?z = 0" by (simp only: unsigned_take_bit_eq take_bit_eq_mod [of _ "unat _"])
  let ?n = "if unat len mod ?z = 0 then unat len div ?z else unat len div ?z + 1"
  have "unat len div ?z \<le> unat len div 2" using z by (intro div_le_mono2) simp_all
  also have "\<dots> < 2 ^ 31" by (rule less_mult_imp_div_less) (use unsigned_less [of len] in simp)
  finally have d: "unat len div ?z < 2 ^ 31" .
  have unat_np: "unat np = ?n"
  proof -
    have dv: "unat (len div PAGE_SIZE H) = unat len div ?z" by (simp add: unat_div sz)
    have "len mod PAGE_SIZE H = 0 \<longleftrightarrow> unat len mod ?z = 0" by (simp add: unat_mod sz flip: unat_eq_0)
    moreover have "unat (len div PAGE_SIZE H + 1) = unat len div ?z + 1" using d dv by (simp add: unat_word_ariths(1))
    ultimately show ?thesis using dv by (simp add: np)
  qed
  have "unat np \<le> 2 ^ 31" using d unat_np by simp
  then have pn: "unat (ADDR_TO_PN H addr + np) = unat addr div ?z + ?n"
    using pn_bound [OF H, of addr] unat_np by (simp add: unat_word_ariths(1) unat_pn [OF H])
  show "ADDR_TO_PN H addr \<le> ADDR_TO_PN H addr + np" by (simp only: word_le_nat_alt pn) (simp add: unat_pn [OF H])
  have "(\<exists>x. addr \<le> x \<and> x < addr + len \<and> ADDR_TO_PN H x = q) \<longleftrightarrow> (\<exists>x. unat addr \<le> x \<and> x < unat addr + unat len \<and> x div ?z = unat q)"
  proof (intro iffI)
    assume "\<exists>x. addr \<le> x \<and> x < addr + len \<and> ADDR_TO_PN H x = q"
    then show "\<exists>x. unat addr \<le> x \<and> x < unat addr + unat len \<and> x div ?z = unat q"
      by (auto simp: word_le_nat_alt word_less_nat_alt sum unat_pn [OF H, symmetric])
  next
    assume "\<exists>x. unat addr \<le> x \<and> x < unat addr + unat len \<and> x div ?z = unat q"
    then obtain x where x: "unat addr \<le> x" "x < unat (addr + len)" "x div ?z = unat q" using sum by auto
    have "unat (addr + len) < 2 ^ LENGTH(32)" by (rule unsigned_less)
    then have "x < 2 ^ 32" using x(2) by simp
    then have u: "unat (word_of_nat x :: u32) = x" by (simp add: unsigned_of_nat take_bit_nat_eq_self_iff)
    then have "unat (ADDR_TO_PN H (word_of_nat x)) = unat q" using x(3) by (simp add: unat_pn [OF H])
    then have "ADDR_TO_PN H (word_of_nat x) = q" by (rule word_eq_iff_unsigned [THEN iffD2])
    then show "\<exists>x. addr \<le> x \<and> x < addr + len \<and> ADDR_TO_PN H x = q"
      using x(1,2) u by (intro exI [of _ "word_of_nat x"]) (simp add: word_le_nat_alt word_less_nat_alt)
  qed
  also have "\<dots> \<longleftrightarrow> unat addr div ?z \<le> unat q \<and> unat q < unat addr div ?z + ?n" by (rule pages_of_range [OF _ al']) simp
  finally show "ADDR_TO_PN H addr \<le> q \<and> q < ADDR_TO_PN H addr + np \<longleftrightarrow> (\<exists>x. addr \<le> x \<and> x < addr + len \<and> ADDR_TO_PN H x = q)"
    by (simp only: word_le_nat_alt word_less_nat_alt pn unat_pn [OF H])
qed


subsection \<open>An example\<close>

text \<open>A process whose break starts in the first of two areas, pages \<open>0x400\<close> up to \<open>0x410\<close>.\<close>

definition breaking :: kernel where
  "breaking = unmapping\<lparr>procs := (\<lambda>_. blank_proc\<lparr>p_vmmap := Some 7, p_start_brk := 0x408000, p_brk := 0x410000\<rparr>)\<rparr>"

lemma breaking_wf: "vmmap_wf std_hdr 7 breaking"
  using two_areas_wf by (auto simp: vmmap_wf_def breaking_def unmapping_def two_areas_def)

lemma breaking_proc:
  "curproc breaking = Some 10" "p_vmmap (procs breaking 10) = Some 7"
  "\<forall>a as. slab breaking = Some a # as \<longrightarrow> a \<notin> set (vmm_list (vmmaps breaking 7))"
  by (auto simp: breaking_def unmapping_def two_areas_def boot_def)

theorem do_brk_refines_witness:
  "\<exists>s'. do_brk 1 std_hdr std_ext 0x411800 breaking = Some ((0, Some 0x411800), s') \<and> vmmap_wf std_hdr 7 s' \<and>
     page_of 7 0x411 s' = Some (Some 60, 0x18, 3, 0) \<and> page_of 7 0x412 s' = None"
proof -
  have vma: "vmmap_lookup 7 (ADDR_TO_PN std_hdr (p_start_brk (procs breaking 10))) breaking = Some 100"
    by (simp add: vmmap_lookup_def breaking_def unmapping_def two_areas_def blank_vmarea_def std_hdr_def)
  have "\<exists>ret s'. do_brk 1 std_hdr std_ext 0x411800 breaking = Some ((0, ret), s')"
    using breaking_proc vma by (simp add: do_brk_def validate_brk_addr_def expand_brk_def vmmap_is_range_empty_def breaking_def unmapping_def two_areas_def
      blank_vmarea_def std_hdr_def)
  then obtain ret s' where run: "do_brk 1 std_hdr std_ext 0x411800 breaking = Some ((0, ret), s')" by blast
  have ends: "0x410 = vma_end (vmareas breaking 100)" "0x412 = ADDR_TO_PN std_hdr (PAGE_ALIGN_UP std_hdr 0x411800)"
    by (simp_all add: breaking_def unmapping_def two_areas_def blank_vmarea_def std_hdr_def)
  have "Err std_hdr ENOMEM > 0" and H: "errnos_ok (Err std_hdr)" by (simp_all add: std_hdr_def)
  then have "- Err std_hdr ENOMEM \<noteq> 0" by simp
  moreover note do_brk_refines [OF H std_ext_areas_api_ok breaking_wf breaking_proc(1,2) vma breaking_proc(3) ends _ run]
  moreover have "page_info (vmareas breaking 100) 0x411 = (Some 60, 0x18, 3, 0)" "page_of 7 0x412 breaking = None"
    by (simp_all add: page_info_def page_of_def vmmap_lookup_def breaking_def unmapping_def two_areas_def blank_vmarea_def)
  ultimately show ?thesis using run by (intro exI [of _ s']) auto
qed


end
