(* ===== verification/Fork.thy ===== *)
theory Fork
  imports Proc
begin

text \<open>
  \<open>fork\<close> (\<open>kernel/proc/fork.c\<close>): a child process with a copy of the address space, in which private areas
  of parent and child stand over two new shadow objects on the parent's object, and with copies of
  the open files and of the registers.
\<close>

subsection \<open>Registers and context\<close>

text \<open>
  The register \<open>eax\<close> of \<open>regs_t\<close>, with the other registers as further fields, and the fields of the
  thread's context that \<open>fork\<close> writes. A forked thread starts on a stack frame with the registers and a
  pointer to them.
\<close>

record regs =
  r_eax :: int

record context_t =
  c_pdptr :: "nat option"
  c_esp :: u32
  c_eip :: u32
  c_kstacksz :: nat
  c_kstack :: nat

datatype 'r fork_frame = Fork_frame (frame_esp: u32) (frame_arg: u32) (frame_regs: 'r)

definition fork_setup_stack :: "hdr \<Rightarrow> nat \<Rightarrow> 'z regs_scheme \<Rightarrow> nat \<Rightarrow> 'z regs_scheme fork_frame" where
  "fork_setup_stack H sizeof_regs regs kstack =
     (let esp = word_of_nat kstack + word_of_nat (DEFAULT_STACK_SIZE H) - word_of_nat (sizeof_regs + 12)
      in Fork_frame esp (esp + 8) regs)"

definition setup_process_context ::
  "hdr \<Rightarrow> nat \<Rightarrow> u32 \<Rightarrow> nat \<Rightarrow> proc \<Rightarrow> 'z regs_scheme \<Rightarrow> context_t \<times> 'z regs_scheme fork_frame \<times> 'z regs_scheme" where
  "setup_process_context H sizeof_regs userland_entry kstack childProcess regs =
     (let regs = regs\<lparr>r_eax := 0\<rparr>;
          frame = fork_setup_stack H sizeof_regs regs kstack;
          ctx = \<lparr>c_pdptr = p_pagedir childProcess, c_esp = frame_esp frame, c_eip = userland_entry,
                 c_kstacksz = DEFAULT_STACK_SIZE H, c_kstack = kstack\<rparr>;
          regs = regs\<lparr>r_eax := p_pid childProcess\<rparr>
      in (ctx, frame, regs))"

subsection \<open>The child process\<close>

definition create_child_process :: "hdr \<Rightarrow> ext \<Rightarrow> paddr call" where
  "create_child_process H X s = do {
     (child, s) \<leftarrow> proc_create H X ''childProcess'' s;
     cur \<leftarrow> curproc s;
     mp \<leftarrow> p_vmmap (procs s cur);
     (newmap, s) \<leftarrow> vmmap_clone mp s;
     let s = upd_proc child (\<lambda>p. p\<lparr>p_vmmap := Some newmap\<rparr>) s;
     Some (child, upd_vmmap newmap (\<lambda>m. m\<lparr>vmm_proc := Some child\<rparr>) s) }"

text \<open>Two shadow objects over the object of the parent's area.\<close>

definition share_private :: "ext \<Rightarrow> vmaddr \<Rightarrow> vmaddr \<Rightarrow> proc_call" where
  "share_private X childVmArea parentVmArea s = do {
     (parentSO, s) \<leftarrow> shadow_create X s;
     let s = upd_mmobj parentSO (\<lambda>m. m\<lparr>mmo_shadowed := vma_obj (vmareas s parentVmArea)\<rparr>) s;
     ob \<leftarrow> vma_obj (vmareas s parentVmArea);
     let s = upd_mmobj parentSO (\<lambda>m. m\<lparr>mmo_un := Mmo_bottom_obj (mmobj_bottom_obj X ob (mmobjs s ob))\<rparr>) s;
     (childSO, s) \<leftarrow> shadow_create X s;
     let s = upd_mmobj childSO (\<lambda>m. m\<lparr>mmo_shadowed := Some ob\<rparr>) s;
     s \<leftarrow> mmobj_ref X ob s;
     let bottom = mmobj_bottom_obj X ob (mmobjs s ob);
     let s = upd_mmobj childSO (\<lambda>m. m\<lparr>mmo_un := Mmo_bottom_obj bottom\<rparr>) s;
     b \<leftarrow> bottom;
     s \<leftarrow> mmobj_ref X b s;
     let s = upd_vmarea childVmArea (\<lambda>v. v\<lparr>vma_obj := Some childSO\<rparr>) s;
     pb \<leftarrow> (case mmo_un (mmobjs s parentSO) of Mmo_bottom_obj pb \<Rightarrow> pb | Mmo_vmas _ \<Rightarrow> None);
     s \<leftarrow> mmobj_ref X pb s;
     Some (upd_vmarea parentVmArea (\<lambda>v. v\<lparr>vma_obj := Some parentSO\<rparr>) s) }"

definition handle_memory_object :: "hdr \<Rightarrow> ext \<Rightarrow> vmaddr \<Rightarrow> vmaddr option \<Rightarrow> proc_call" where
  "handle_memory_object H X childVmArea parentVmArea s = do {
     parentVmArea \<leftarrow> parentVmArea;
     s \<leftarrow> (if MAP_SHARED H \<noteq> vma_flags (vmareas s childVmArea) AND MAP_TYPE H
          then share_private X childVmArea parentVmArea s
          else do {
            let s = upd_vmarea childVmArea (\<lambda>v. v\<lparr>vma_obj := vma_obj (vmareas s parentVmArea)\<rparr>) s;
            ob \<leftarrow> vma_obj (vmareas s childVmArea);
            mmobj_ref X ob s });
     ob \<leftarrow> vma_obj (vmareas s parentVmArea);
     b \<leftarrow> mmobj_bottom_obj X ob (mmobjs s ob);
     olink_insert b childVmArea s }"

fun fork_areas :: "hdr \<Rightarrow> ext \<Rightarrow> vmapaddr \<Rightarrow> vmaddr list \<Rightarrow> proc_call" where
  "fork_areas H X mp [] s = Some s"
| "fork_areas H X mp (childVmArea # areas) s = do {
     s \<leftarrow> handle_memory_object H X childVmArea (vmmap_lookup mp (vma_start (vmareas s childVmArea)) s) s;
     fork_areas H X mp areas s }"

fun copy_fds :: "ext \<Rightarrow> paddr \<Rightarrow> paddr \<Rightarrow> nat list \<Rightarrow> proc_call" where
  "copy_fds X cur child [] s = Some s"
| "copy_fds X cur child (i # is) s = do {
     KASSERT (i < length (p_files (procs s cur)) \<and> i < length (p_files (procs s child)));
     let f = p_files (procs s cur) ! i;
     let s = upd_proc child (\<lambda>p. p\<lparr>p_files := (p_files p)[i := f]\<rparr>) s;
     s \<leftarrow> (case f of Some a \<Rightarrow> fref X a s | None \<Rightarrow> Some s);
     copy_fds X cur child is s }"

definition copy_parent_files :: "hdr \<Rightarrow> ext \<Rightarrow> paddr \<Rightarrow> proc_call" where
  "copy_parent_files H X child s = do {
     cur \<leftarrow> curproc s;
     s \<leftarrow> copy_fds X cur child [0..<NFILES H] s;
     s \<leftarrow> (case p_cwd (procs s child) of Some v \<Rightarrow> vput X v s | None \<Rightarrow> Some s);
     let s = upd_proc child (\<lambda>p. p\<lparr>p_cwd := p_cwd (procs s cur)\<rparr>) s;
     (case p_cwd (procs s cur) of Some v \<Rightarrow> vref X v s | None \<Rightarrow> Some s) }"

text \<open>
  \<open>do_fork\<close> returns the child's identifier; with it go the context and the stack frame of the new thread
  and the caller's registers as the call leaves them.
\<close>

definition do_fork :: "hdr \<Rightarrow> ext \<Rightarrow> nat \<Rightarrow> u32 \<Rightarrow> 'z regs_scheme \<Rightarrow>
    (int \<times> context_t \<times> 'z regs_scheme fork_frame \<times> 'z regs_scheme) call" where
  "do_fork H X sizeof_regs userland_entry regs s = do {
     cur \<leftarrow> curproc s;
     KASSERT (p_state (procs s cur) = PROC_RUNNING);
     (newproc, s) \<leftarrow> create_child_process H X s;
     cmap \<leftarrow> p_vmmap (procs s newproc);
     pmap \<leftarrow> p_vmmap (procs s cur);
     s \<leftarrow> fork_areas H X pmap (vmm_list (vmmaps s cmap)) s;
     let s = log_hw (Pt_unmap_range (p_pagedir (procs s cur)) (USER_MEM_LOW H) (USER_MEM_HIGH H)) s;
     let s = log_hw Tlb_flush_all s;
     thr \<leftarrow> curthr s;
     (newthr, s) \<leftarrow> kthread_clone thr s;
     KASSERT (p_state (procs s newproc) = PROC_RUNNING);
     KASSERT (p_pagedir (procs s newproc) \<noteq> None);
     nt \<leftarrow> threads s newthr;
     kstack \<leftarrow> kt_kstack nt;
     let (ctx, frame, regs) = setup_process_context H sizeof_regs userland_entry kstack (procs s newproc) regs;
     s \<leftarrow> copy_parent_files H X newproc s;
     s \<leftarrow> upd_thr newthr (\<lambda>th. th\<lparr>kt_proc := Some newproc\<rparr>) s;
     let s = upd_proc newproc (\<lambda>p. p\<lparr>p_threads := p_threads p @ [newthr]\<rparr>) s;
     let s = upd_proc newproc (\<lambda>p. p\<lparr>p_brk := p_brk (procs s cur), p_start_brk := p_start_brk (procs s cur)\<rparr>) s;
     s \<leftarrow> sched_make_runnable newthr s;
     Some ((p_pid (procs s newproc), ctx, frame, regs), s) }"

subsection \<open>Parent and child see the same pages\<close>

text \<open>
  \<open>extends F s s'\<close>: from \<open>s\<close> to \<open>s'\<close> the pages are the same, and the objects outside \<open>F\<close> are linked as
  before and have no fewer references.
\<close>

definition extends :: "oaddr set \<Rightarrow> kernel \<Rightarrow> kernel \<Rightarrow> bool" where
  "extends F s s' \<longleftrightarrow> in_use s' = in_use s \<and> pframes s' = pframes s \<and> phys s' = phys s \<and>
     (\<forall>ob. ob \<notin> F \<longrightarrow> mmo_ops (mmobjs s' ob) = mmo_ops (mmobjs s ob) \<and> mmo_shadowed (mmobjs s' ob) = mmo_shadowed (mmobjs s ob) \<and>
        (mmo_ops (mmobjs s ob) = Shadow_mmobj_ops \<longrightarrow> mmo_un (mmobjs s' ob) = mmo_un (mmobjs s ob)) \<and>
        mmo_refcount (mmobjs s ob) \<le> mmo_refcount (mmobjs s' ob))"

text \<open>Objects that are referenced, and objects that have pages, are allocated.\<close>

definition objs_live :: "kernel \<Rightarrow> bool" where
  "objs_live s \<longleftrightarrow> (\<forall>ob. 0 < mmo_refcount (mmobjs s ob) \<longrightarrow> ob \<in> live s) \<and>
     (\<forall>pf\<in>in_use s. \<forall>ob. pf_obj (pframes s pf) = Some ob \<longrightarrow> ob \<in> live s)"

lemma extends_resident: "extends F s s' \<Longrightarrow> resident s' = resident s"
  by (simp add: extends_def resident_def fun_eq_iff)

lemma obj_chain_live: "objs_live s \<Longrightarrow> obj_chain s ob n b \<Longrightarrow> ob \<in> live s"
  by (auto simp: objs_live_def elim: obj_chain.cases)

lemma extends_chain:
  assumes "extends F s s'" and "objs_live s" and "F \<inter> live s = {}" and "obj_chain s ob n b"
  shows "obj_chain s' ob n b"
  using assms(4)
proof induction
  case (bottom b)
  then have "b \<notin> F" using assms(2,3) by (auto simp: objs_live_def)
  then show ?case using bottom assms(1) unfolding extends_def by (intro obj_chain.bottom) (metis order_less_le_trans)+
next
  case (shadow ob sh b n)
  then have "ob \<notin> F" using assms(2,3) by (auto simp: objs_live_def)
  then show ?case using shadow assms(1) unfolding extends_def by (intro obj_chain.shadow [of _ _ sh]) (metis order_less_le_trans)+
qed

lemma extends_view:
  assumes "extends F s s'" and "objs_live s" and "F \<inter> live s = {}" and "obj_chain s ob n b" and "view s pn ob c"
  shows "view s' pn ob c"
  using assms(4,5)
proof induction
  case (bottom b)
  then have "b \<notin> F" using assms(2,3) by (auto simp: objs_live_def)
  then have e: "mmo_ops (mmobjs s' b) = Anon_mmobj_ops" "mmo_shadowed (mmobjs s' b) = None"
    using assms(1) bottom by (simp_all add: extends_def)
  from bottom.prems show ?case
  proof cases
    case (here pf a)
    then show ?thesis using view.here [of s' b pn pf a] assms(1) extends_resident [OF assms(1)] by (simp add: extends_def)
  next
    case zero
    then show ?thesis using view.zero [of s' b pn] e extends_resident [OF assms(1)] by simp
  qed (use bottom in simp)
next
  case (shadow ob sh b n)
  then have "ob \<notin> F" using assms(2,3) by (auto simp: objs_live_def)
  then have e: "mmo_shadowed (mmobjs s' ob) = Some sh" using assms(1) shadow by (simp add: extends_def)
  from shadow.prems show ?case
  proof cases
    case (here pf a)
    then show ?thesis using view.here [of s' ob pn pf a] assms(1) extends_resident [OF assms(1)] by (simp add: extends_def)
  next
    case (below sh')
    then show ?thesis using view.below [of s' ob pn sh c] e shadow extends_resident [OF assms(1)] by simp
  qed (use shadow in simp)
qed

lemma mmobj_bottom_of_chain:
  assumes "mm_api_ok X" and "obj_chain s ob n b"
  shows "mmobj_bottom_obj X ob (mmobjs s ob) = Some b"
  using assms(2) by cases (simp_all add: mm_api_simps [OF assms(1)])

definition new_shadow :: "oaddr \<Rightarrow> oaddr \<Rightarrow> mmobj" where
  "new_shadow ob b = \<lparr>mmo_ops = Shadow_mmobj_ops, mmo_refcount = 1, mmo_nrespages = 0, mmo_respages = [],
     mmo_shadowed = Some ob, mmo_un = Mmo_bottom_obj (Some b)\<rparr>"

definition add_ref :: "oaddr \<Rightarrow> int \<Rightarrow> (oaddr \<Rightarrow> mmobj) \<Rightarrow> oaddr \<Rightarrow> mmobj" where
  "add_ref ob i m = m(ob := (m ob)\<lparr>mmo_refcount := mmo_refcount (m ob) + i\<rparr>)"

lemma mmobj_ref_add:
  "refable s ob \<Longrightarrow> mmobj_ref X ob s = Some (s\<lparr>mmobjs := add_ref ob 1 (mmobjs s)\<rparr>)"
  by (simp add: mmobj_ref_eq add_ref_def upd_mmobj_def)

lemma refable_add_ref:
  "refable s ob \<Longrightarrow> mmobjs s' = add_ref x 1 (mmobjs s) \<Longrightarrow> refable s' ob"
  by (auto simp: refable_def add_ref_def)

lemma shadow_create_eq:
  assumes "mm_api_ok X" and "slab s = Some p # as"
  shows "shadow_create X s = Some (p, s\<lparr>slab := as, live := insert p (live s), mmobjs := (mmobjs s)(p :=
     \<lparr>mmo_ops = Shadow_mmobj_ops, mmo_refcount = 1, mmo_nrespages = 0, mmo_respages = [],
       mmo_shadowed = None, mmo_un = Mmo_bottom_obj None\<rparr>)\<rparr>)"
  using assms by (simp add: shadow_create_def slab_obj_alloc_def upd_mmobj_def mm_api_simps)

lemma share_private_eq:
  assumes api: "mm_api_ok X" and ch: "obj_chain s ob n b" and vo: "vma_obj (vmareas s par) = Some ob"
    and sl: "slab s = Some p # Some c # as" and fr: "p \<notin> live s" "c \<notin> live s" "p \<noteq> c" and lv: "objs_live s" and ne: "par \<noteq> chi"
  shows "share_private X chi par s = Some (s\<lparr>slab := as, live := insert c (insert p (live s)),
     mmobjs := add_ref b 1 (add_ref b 1 (add_ref ob 1 ((mmobjs s)(p := new_shadow ob b, c := new_shadow ob b)))),
     vmareas := (vmareas s)(chi := (vmareas s chi)\<lparr>vma_obj := Some c\<rparr>, par := (vmareas s par)\<lparr>vma_obj := Some p\<rparr>)\<rparr>)"
proof -
  have l: "ob \<in> live s" "b \<in> live s" using obj_chain_live [OF lv] ch obj_chain_bottom [OF ch] by blast+
  then have d: "ob \<noteq> p" "ob \<noteq> c" "b \<noteq> p" "b \<noteq> c" using fr by auto
  have rf: "refable s ob" "refable s b" using obj_chain_refable ch obj_chain_bottom [OF ch] by blast+
  have bo: "mmobj_bottom_obj X ob m = Some b" if "mmo_shadowed m = mmo_shadowed (mmobjs s ob)" "mmo_un m = mmo_un (mmobjs s ob)" for m
    using mmobj_bottom_of_chain [OF api ch] that by (auto simp: mm_api_simps [OF api] split: if_splits)
  note defs = share_private_def shadow_create_eq [OF api] sl upd_mmobj_def upd_vmarea_def mmobj_ref_add
        refable_def add_ref_def new_shadow_def Let_def fun_upd_twist
  show ?thesis
  proof (cases "ob = b")
    case True
    show ?thesis
      using rf d fr(3) ne vo unfolding True by (simp add: defs bo [unfolded True])
  next
    case False
    then show ?thesis using rf d fr(3) ne by (simp add: defs vo bo)
  qed
qed

text \<open>A new shadow object shows what the object below it shows.\<close>

lemma shadow_pair:
  assumes ext: "extends F s s'" and lv: "objs_live s" and fr: "F \<inter> live s = {}" and ch: "obj_chain s ob n b"
    and q: "q \<in> F" "mmobjs s' q = new_shadow ob b"
  shows "obj_chain s' q (Suc n) b" "view s pn ob x \<Longrightarrow> view s' pn q x"
proof -
  have "obj_chain s' ob n b" by (rule extends_chain [OF ext lv fr ch])
  from obj_chain.shadow [OF _ _ _ _ this, of q] q show "obj_chain s' q (Suc n) b" by (simp add: new_shadow_def)
  have "\<not> resident s' q pn pf" for pf
    using q fr lv extends_resident [OF ext] by (auto simp: resident_def objs_live_def)
  then show "view s' pn q x" if "view s pn ob x"
    using view.below [OF _ _ extends_view [OF ext lv fr ch that], of q] q by (auto simp: new_shadow_def)
qed

text \<open>A private area with its object, two free structures, and the state after the call.\<close>

definition private_area :: "hdr \<Rightarrow> kernel \<Rightarrow> oaddr \<Rightarrow> nat \<Rightarrow> oaddr \<Rightarrow> vmaddr \<Rightarrow> vmaddr \<Rightarrow> bool" where
  "private_area H s ob n b par chi \<longleftrightarrow> obj_chain s ob n b \<and> vma_obj (vmareas s par) = Some ob \<and> objs_live s \<and> par \<noteq> chi \<and>
     MAP_SHARED H \<noteq> vma_flags (vmareas s chi) AND MAP_TYPE H \<and> (\<exists>l. mmo_un (mmobjs s b) = Mmo_vmas l)"

definition fresh_pair :: "kernel \<Rightarrow> oaddr \<Rightarrow> oaddr \<Rightarrow> bool" where
  "fresh_pair s p c \<longleftrightarrow> (\<exists>as. slab s = Some p # Some c # as) \<and> p \<notin> live s \<and> c \<notin> live s \<and> p \<noteq> c"

lemma handle_private_effect:
  assumes api: "mm_api_ok X" and pa: "private_area H s ob n b par chi" and fp: "fresh_pair s p c"
  obtains M as l s' where "handle_memory_object H X chi (Some par) s = Some s'" "slab s = Some p # Some c # as"
    "s' = s\<lparr>slab := as, live := insert c (insert p (live s)), mmobjs := M,
      vmareas := (vmareas s)(chi := (vmareas s chi)\<lparr>vma_obj := Some c\<rparr>, par := (vmareas s par)\<lparr>vma_obj := Some p\<rparr>)\<rparr>"
    "M p = new_shadow ob b" "M c = new_shadow ob b" "extends {p, c} s s'"
    "mmo_refcount (M ob) = mmo_refcount (mmobjs s ob) + (if ob = b then 3 else 1)"
    "mmo_un (mmobjs s b) = Mmo_vmas l" "mmo_un (M b) = Mmo_vmas (l @ [chi])"
    "\<And>q. q \<notin> {p, c} \<Longrightarrow> mmo_respages (M q) = mmo_respages (mmobjs s q) \<and> mmo_nrespages (M q) = mmo_nrespages (mmobjs s q)"
proof -
  obtain as l where sl: "slab s = Some p # Some c # as" and un: "mmo_un (mmobjs s b) = Mmo_vmas l"
    using pa fp by (auto simp: private_area_def fresh_pair_def)
  have a: "obj_chain s ob n b" "vma_obj (vmareas s par) = Some ob" "objs_live s" "par \<noteq> chi"
    "MAP_SHARED H \<noteq> vma_flags (vmareas s chi) AND MAP_TYPE H" "p \<notin> live s" "c \<notin> live s" "p \<noteq> c"
    using pa fp by (auto simp: private_area_def fresh_pair_def)
  define M where "M = add_ref b 1 (add_ref b 1 (add_ref ob 1 ((mmobjs s)(p := new_shadow ob b, c := new_shadow ob b))))"
  define M' where "M' = M(b := (M b)\<lparr>mmo_un := Mmo_vmas (l @ [chi])\<rparr>)"
  let ?s' = "s\<lparr>slab := as, live := insert c (insert p (live s)), mmobjs := M',
     vmareas := (vmareas s)(chi := (vmareas s chi)\<lparr>vma_obj := Some c\<rparr>, par := (vmareas s par)\<lparr>vma_obj := Some p\<rparr>)\<rparr>"
  have l: "ob \<in> live s" "b \<in> live s" using obj_chain_live [OF a(3)] a(1) obj_chain_bottom [OF a(1)] by blast+
  then have d: "ob \<noteq> p" "ob \<noteq> c" "b \<noteq> p" "b \<noteq> c" using a(6,7) by auto
  have bops: "mmo_ops (mmobjs s b) = Anon_mmobj_ops" using obj_chain_bottom [OF a(1)] by (auto elim: obj_chain_0E)
  have M: "M p = new_shadow ob b" "M c = new_shadow ob b" "mmo_un (M b) = Mmo_vmas l"
    "mmo_refcount (M ob) = mmo_refcount (mmobjs s ob) + (if ob = b then 3 else 1)"
    using d a(8) un by (auto simp: M_def add_ref_def)
  have bot: "mmobj_bottom_obj X p (M p) = Some b" by (simp add: M(1) new_shadow_def mm_api_simps [OF api])
  have run: "handle_memory_object H X chi (Some par) s = Some ?s'"
    using a(4,5) M(3) bot share_private_eq [OF api a(1,2) sl a(6,7,8,3,4), folded M_def]
    by (simp add: handle_memory_object_def olink_insert_def upd_mmobj_def M'_def)
  have ext: "extends {p, c} s ?s'"
    using d bops by (auto simp: extends_def in_use_def add_ref_def M_def M'_def)
  show thesis
    by (rule that [OF run sl refl _ _ ext _ un]) (use d M in \<open>auto simp: M'_def M_def add_ref_def\<close>)
qed

text \<open>
  C38: after \<open>fork\<close> has handled a private area, parent and child see the same pages. The area's object
  \<open>ob\<close> stands over a chain that ends in an anonymous object \<open>b\<close>; the allocator hands out two structures
  that are not in use. Then \<open>handle_memory_object\<close> returns, the areas of parent and child have new
  objects, both on a chain one longer that ends in \<open>b\<close>, and both show at every page number what \<open>ob\<close>
  showed, as do all objects on chains of their own. \<open>ob\<close> has one reference more for the second shadow
  object (three when it is \<open>b\<close> itself, which each shadow object refers to as its bottom object).
\<close>

theorem fork_shares_private_area:
  assumes "mm_api_ok X" and "private_area H s ob n b par chi" and "fresh_pair s p c"
  shows "\<exists>s'. handle_memory_object H X chi (Some par) s = Some s' \<and>
     vma_obj (vmareas s' par) = Some p \<and> vma_obj (vmareas s' chi) = Some c \<and>
     obj_chain s' p (Suc n) b \<and> obj_chain s' c (Suc n) b \<and>
     (\<forall>pn x. view s pn ob x \<longrightarrow> view s' pn p x \<and> view s' pn c x) \<and>
     (\<forall>o' m b' pn x. obj_chain s o' m b' \<and> view s pn o' x \<longrightarrow> view s' pn o' x) \<and>
     mmo_refcount (mmobjs s' ob) = mmo_refcount (mmobjs s ob) + (if ob = b then 3 else 1)"
proof -
  obtain M as s' where run: "handle_memory_object H X chi (Some par) s = Some s'" and
    s': "s' = s\<lparr>slab := as, live := insert c (insert p (live s)), mmobjs := M,
      vmareas := (vmareas s)(chi := (vmareas s chi)\<lparr>vma_obj := Some c\<rparr>, par := (vmareas s par)\<lparr>vma_obj := Some p\<rparr>)\<rparr>"
    and M: "M p = new_shadow ob b" "M c = new_shadow ob b" and ext: "extends {p, c} s s'"
    and rf: "mmo_refcount (M ob) = mmo_refcount (mmobjs s ob) + (if ob = b then 3 else 1)"
    by (rule handle_private_effect [OF assms])
  have ch: "obj_chain s ob n b" "objs_live s" "par \<noteq> chi" using assms(2) by (auto simp: private_area_def)
  have fr: "{p, c} \<inter> live s = {}" using assms(3) by (simp add: fresh_pair_def)
  note new = shadow_pair [OF ext ch(2) fr ch(1)]
  have "mmobjs s' q = new_shadow ob b" if "q \<in> {p, c}" for q using M that by (auto simp: s')
  then have "obj_chain s' q (Suc n) b" "\<forall>pn x. view s pn ob x \<longrightarrow> view s' pn q x" if "q \<in> {p, c}" for q
    using new that by blast+
  moreover have "\<forall>o' m b' pn x. obj_chain s o' m b' \<and> view s pn o' x \<longrightarrow> view s' pn o' x"
    using extends_view [OF ext ch(2) fr] by blast
  ultimately show ?thesis using run rf ch(3) by (auto simp: s')
qed

subsection \<open>Isolation\<close>

text \<open>A write to a page of \<open>c\<close> is not seen by another object that has a page or looks at one below.\<close>

lemma view_other_page:
  assumes inv: "cache_inv H t" and r: "resident t c pn pf" "pf_addr (pframes t pf) = Some a" and q: "resident t q pn' pf'" "q \<noteq> c"
    and a: "pf_addr (pframes t pf') = Some a'"
  shows "a' \<noteq> a"
proof
  assume "a' = a"
  then have "pf' = pf" using inv r q a by (auto simp: cache_inv_def ident_inv_def resident_def)
  then show False using r q by (simp add: resident_def)
qed

lemma view_write_step:
  assumes inv: "cache_inv H t" and r: "resident t c pn pf" "pf_addr (pframes t pf) = Some a" and q: "q \<noteq> c"
    and v: "view t pn' q y" and below: "\<And>sh. mmo_shadowed (mmobjs t q) = Some sh \<Longrightarrow> view t pn' sh y \<Longrightarrow> view (t\<lparr>phys := (phys t)(a := d)\<rparr>) pn' sh y"
  shows "view (t\<lparr>phys := (phys t)(a := d)\<rparr>) pn' q y"
proof -
  let ?t = "t\<lparr>phys := (phys t)(a := d)\<rparr>"
  have res: "resident ?t = resident t" by (simp add: resident_def in_use_def fun_eq_iff)
  from v show ?thesis
  proof cases
    case (here pf' a')
    then have "a' \<noteq> a" using view_other_page [OF inv r _ q] by blast
    then show ?thesis using here view.here [of ?t q pn' pf' a'] res by simp
  next
    case (below sh)
    then show ?thesis using view.below [of ?t q pn' sh y] assms(6) res by simp
  next
    case zero
    then show ?thesis using view.zero [of ?t q pn'] res by simp
  qed
qed

lemma view_write_chain:
  assumes ch: "obj_chain s ob n b" and lv: "objs_live s" "c \<notin> live s"
    and inv: "cache_inv H t" and r: "resident t c pn pf" "pf_addr (pframes t pf) = Some a"
    and same: "\<And>q. q \<in> live s \<Longrightarrow> mmo_shadowed (mmobjs t q) = mmo_shadowed (mmobjs s q)"
  shows "view t pn' ob y \<Longrightarrow> view (t\<lparr>phys := (phys t)(a := d)\<rparr>) pn' ob y"
  using ch
proof induction
  case (bottom b)
  then have "b \<in> live s" using lv by (simp add: objs_live_def)
  then show ?case using bottom lv same by (intro view_write_step [OF inv r _ bottom.prems]) auto
next
  case (shadow ob sh b n)
  then have "ob \<in> live s" using lv by (simp add: objs_live_def)
  show ?case
  proof (rule view_write_step [OF inv r _ shadow.prems])
    show "ob \<noteq> c" using \<open>ob \<in> live s\<close> lv(2) by auto
    fix sh' assume s: "mmo_shadowed (mmobjs t ob) = Some sh'" and v: "view t pn' sh' y"
    then have "sh' = sh" using same [OF \<open>ob \<in> live s\<close>] shadow.hyps(2) by simp
    then show "view (t\<lparr>phys := (phys t)(a := d)\<rparr>) pn' sh' y" using shadow.IH v by (simp add: fun_upd_def)
  qed
qed

lemma cache_inv_extends:
  assumes inv: "cache_inv H s" and ext: "extends F s s'" and lv: "objs_live s" "F \<inter> live s = {}"
    and l: "alloc_list s' = alloc_list s" "pinned_list s' = pinned_list s" "nallocated s' = nallocated s" "npinned s' = npinned s"
      "pframe_hash s' = pframe_hash s"
    and new: "\<And>q. q \<in> F \<Longrightarrow> mmo_respages (mmobjs s' q) = [] \<and> mmo_nrespages (mmobjs s' q) = 0"
    and old: "\<And>q. q \<notin> F \<Longrightarrow> mmo_respages (mmobjs s' q) = mmo_respages (mmobjs s q) \<and> mmo_nrespages (mmobjs s' q) = mmo_nrespages (mmobjs s q)"
  shows "cache_inv H s'"
proof -
  have p: "pframes s' = pframes s" "in_use s' = in_use s" using ext by (simp_all add: extends_def)
  have "respages_inv s'" unfolding respages_inv_def
  proof (intro allI)
    fix q
    show "distinct (mmo_respages (mmobjs s' q)) \<and> set (mmo_respages (mmobjs s' q)) = {pf \<in> in_use s'. pf_obj (pframes s' pf) = Some q} \<and>
       mmo_nrespages (mmobjs s' q) = int (length (mmo_respages (mmobjs s' q)))"
    proof (cases "q \<in> F")
      case True
      then have "{pf \<in> in_use s. pf_obj (pframes s pf) = Some q} = {}" using lv by (auto simp: objs_live_def)
      then show ?thesis using new [OF True] by (simp add: p)
    next
      case False
      then show ?thesis using inv old [OF False] by (simp add: p cache_inv_def respages_inv_def)
    qed
  qed
  then show ?thesis using inv by (simp add: cache_inv_def lists_inv_def ident_inv_def hash_inv_def p l)
qed

text \<open>
  C3: \<open>fork\<close> isolates parent and child. In the situation of a private area, with two more structures and
  two pages free, let the child after the call look up any page of its area for writing and store
  whatever bytes \<open>d\<close> in the page it gets. The lookup succeeds, the page held what the parent's area showed
  before, the child's area then shows \<open>d\<close>, and the parent's area still shows at every page number what
  it showed before the call.
\<close>

theorem fork_isolates_writes:
  assumes "mm_api_ok X" and "cache_inv H s" and "private_area H s ob n b par chi" and "fresh_pair s p c"
    and "\<forall>x\<in>in_use s. \<not> pf_busy (pframes s x)" and "two_free (s\<lparr>slab := drop 2 (slab s)\<rparr>) pf1 a1 pf2 a2" and "n + 4 \<le> k"
  shows "\<exists>s1 pf a s2. handle_memory_object H X chi (Some par) s = Some s1 \<and>
     vma_obj (vmareas s1 chi) = Some c \<and> vma_obj (vmareas s1 par) = Some p \<and>
     pframe_lookup k H X (Some c) pn True s1 = Some ((0, Some pf), s2) \<and> pf_addr (pframes s2 pf) = Some a \<and>
     view s pn ob (phys s2 a) \<and>
     (\<forall>d. view (s2\<lparr>phys := (phys s2)(a := d)\<rparr>) pn c d \<and>
        (\<forall>pn' y. view s pn' ob y \<longrightarrow> view (s2\<lparr>phys := (phys s2)(a := d)\<rparr>) pn' p y))"
proof -
  obtain M as s1 where run: "handle_memory_object H X chi (Some par) s = Some s1" and sl: "slab s = Some p # Some c # as" and
    s1: "s1 = s\<lparr>slab := as, live := insert c (insert p (live s)), mmobjs := M,
      vmareas := (vmareas s)(chi := (vmareas s chi)\<lparr>vma_obj := Some c\<rparr>, par := (vmareas s par)\<lparr>vma_obj := Some p\<rparr>)\<rparr>"
    and M: "M p = new_shadow ob b" "M c = new_shadow ob b" and ext: "extends {p, c} s s1"
    and rp: "\<And>q. q \<notin> {p, c} \<Longrightarrow> mmo_respages (M q) = mmo_respages (mmobjs s q) \<and> mmo_nrespages (M q) = mmo_nrespages (mmobjs s q)"
    by (rule handle_private_effect [OF assms(1,3,4)]) blast
  have ch: "obj_chain s ob n b" "objs_live s" "par \<noteq> chi" using assms(3) by (auto simp: private_area_def)
  have fr: "{p, c} \<inter> live s = {}" "p \<noteq> c" "c \<notin> live s" using assms(4) by (simp_all add: fresh_pair_def)
  have m: "mmobjs s1 q = new_shadow ob b" if "q \<in> {p, c}" for q using M that by (auto simp: s1)
  note new = shadow_pair [OF ext ch(2) fr(1) ch(1) _ m]
  have inv: "cache_inv H s1"
    by (rule cache_inv_extends [OF assms(2) ext ch(2) fr(1)]) (use M rp in \<open>auto simp: s1 new_shadow_def\<close>)
  have nb: "\<forall>x\<in>in_use s1. \<not> pf_busy (pframes s1 x)" using assms(5) ext by (simp add: extends_def)
  have tf: "two_free s1 pf1 a1 pf2 a2" using assms(6) sl by (simp add: two_free_def s1 in_use_def)
  have k: "Suc n + 3 \<le> k" using assms(7) by simp
  obtain pf s2 where lk: "pframe_lookup k H X (Some c) pn True s1 = Some ((0, Some pf), s2)" and l: "looked_up H s1 c pn True pf s2"
    using pframe_lookup_looked_up [OF inv assms(1) new(1) nb tf k, of c pn True] by blast
  then obtain a where a: "resident s2 c pn pf" "pf_addr (pframes s2 pf) = Some a" "view s1 pn c (phys s2 a)"
    and g: "grows s1 s2" and inv2: "cache_inv H s2"
    unfolding looked_up_def by blast
  have links: "mmo_shadowed (mmobjs s2 q) = mmo_shadowed (mmobjs s1 q)" for q by (rule keepsD(6) [OF grows_keeps [OF g]])
  obtain x where x: "view s pn ob x" using view_exists [OF assms(2) ch(1)] by blast
  have "x = phys s2 a" using view_unique [OF inv new(2) [OF _ _ x] a(3)] by simp
  then have page: "view s pn ob (phys s2 a)" using x by simp
  have own: "view (s2\<lparr>phys := (phys s2)(a := d)\<rparr>) pn c d" for d
    using view.here [of "s2\<lparr>phys := (phys s2)(a := d)\<rparr>" c pn pf a] a(1,2) by (simp add: resident_def in_use_def)
  have other: "view (s2\<lparr>phys := (phys s2)(a := d)\<rparr>) pn' p y" if v: "view s pn' ob y" for d pn' y
  proof (rule view_write_step [OF inv2 a(1,2) fr(2)])
    show "view s2 pn' p y" by (rule view_grow [OF g new(2) [OF _ _ v]]) simp_all
    fix sh assume "mmo_shadowed (mmobjs s2 p) = Some sh" and sh: "view s2 pn' sh y"
    then have "sh = ob" using links M(1) by (simp add: s1 new_shadow_def)
    moreover have "mmo_shadowed (mmobjs s2 q) = mmo_shadowed (mmobjs s q)" if "q \<in> live s" for q
      using links [of q] ext fr(1) that by (auto simp: extends_def)
    ultimately show "view (s2\<lparr>phys := (phys s2)(a := d)\<rparr>) pn' sh y"
      using view_write_chain [OF ch(1,2) fr(3) inv2 a(1,2) _ sh [unfolded \<open>sh = ob\<close>]] by blast
  qed
  have v: "vma_obj (vmareas s1 chi) = Some c" "vma_obj (vmareas s1 par) = Some p" using ch(3) by (simp_all add: s1)
  show ?thesis
    using run v lk a(2) page own other
    by (intro exI [of _ s1] exI [of _ pf] exI [of _ a] exI [of _ s2]) blast
qed

text \<open>Areas 33 of the parent and 34 of the child, over the shadow object 50 on the anonymous object 60.\<close>

definition forking :: kernel where
  "forking = shadowed_page\<lparr>vmareas := (\<lambda>_. blank_vmarea)(33 := blank_vmarea\<lparr>vma_obj := Some 50, vma_flags := 2\<rparr>,
     34 := blank_vmarea\<lparr>vma_flags := 2\<rparr>), slab := [Some 91, Some 92, Some 71, Some 72], live := {50, 60}\<rparr>"

lemma forking_fields:
  "in_use forking = {70}" "pframes forking = pframes shadowed_page" "mmobjs forking = mmobjs shadowed_page" "phys forking = phys shadowed_page"
  "slab forking = [Some 91, Some 92, Some 71, Some 72]" "live forking = {50, 60}" "pages forking = [Some 81, Some 82]"
  "vmareas forking 33 = blank_vmarea\<lparr>vma_obj := Some 50, vma_flags := 2\<rparr>" "vma_flags (vmareas forking 34) = 2"
  by (simp_all add: forking_def in_use_def shadowed_page_def boot_def)

lemma forking_inv: "cache_inv std_hdr forking"
  using shadowed_page_inv by (simp add: cache_inv_defs in_use_def forking_def)

lemma forking_ok: "private_area std_hdr forking 50 1 60 33 34" "fresh_pair forking 91 92"
  "two_free (forking\<lparr>slab := drop 2 (slab forking)\<rparr>) 71 81 72 82" "view forking 5 50 (\<lambda>_. 7)"
proof -
  have b: "obj_chain forking 60 0 60"
    by (rule obj_chain.bottom) (simp_all add: forking_fields shadowed_page_fields blank_mmobj_def)
  have "obj_chain forking 50 (Suc 0) 60"
    by (rule obj_chain.shadow [OF _ _ _ _ b]) (simp_all add: forking_fields shadowed_page_fields blank_mmobj_def)
  then show "private_area std_hdr forking 50 1 60 33 34"
    by (auto simp: private_area_def objs_live_def forking_fields shadowed_page_fields blank_mmobj_def blank_vmarea_def std_hdr_def)
  show "fresh_pair forking 91 92" by (simp add: fresh_pair_def forking_fields)
  show "two_free (forking\<lparr>slab := drop 2 (slab forking)\<rparr>) 71 81 72 82"
    using forking_fields(1) by (simp add: two_free_def forking_fields shadowed_page_fields in_use_def)
  have r: "resident forking 60 5 70" by (simp add: resident_def forking_fields shadowed_page_fields)
  have "phys forking 80 = (\<lambda>_. 7)" by (simp add: forking_fields) (simp add: shadowed_page_def)
  then have v60: "view forking 5 60 (\<lambda>_. 7)"
    using view.here [OF r, of 80] by (simp add: forking_fields shadowed_page_fields)
  have "\<forall>pf. \<not> resident forking 50 5 pf" "mmo_shadowed (mmobjs forking 50) = Some 60"
    by (auto simp: resident_def forking_fields shadowed_page_fields)
  from view.below [OF this v60] show "view forking 5 50 (\<lambda>_. 7)" .
qed

theorem fork_shares_private_area_witness:
  "\<exists>s'. handle_memory_object std_hdr std_ext 34 (Some 33) forking = Some s' \<and> view s' 5 91 (\<lambda>_. 7) \<and> view s' 5 92 (\<lambda>_. 7)"
  using fork_shares_private_area [OF std_ext_mm_api_ok forking_ok(1,2)] forking_ok(4) by blast

theorem fork_isolates_writes_witness:
  "\<exists>s1 pf a s2. handle_memory_object std_hdr std_ext 34 (Some 33) forking = Some s1 \<and>
     pframe_lookup 5 std_hdr std_ext (Some 92) 5 True s1 = Some ((0, Some pf), s2) \<and>
     view (s2\<lparr>phys := (phys s2)(a := (\<lambda>_. 9))\<rparr>) 5 92 (\<lambda>_. 9) \<and> view (s2\<lparr>phys := (phys s2)(a := (\<lambda>_. 9))\<rparr>) 5 91 (\<lambda>_. 7)"
proof -
  have nb: "\<forall>x\<in>in_use forking. \<not> pf_busy (pframes forking x)" by (simp add: forking_fields shadowed_page_fields)
  have k: "1 + 4 \<le> (5 :: nat)" by simp
  show ?thesis
    using fork_isolates_writes [OF std_ext_mm_api_ok forking_inv forking_ok(1,2) nb forking_ok(3) k, of 5] forking_ok(4) by blast
qed

end
