(* ===== verification/Syscall.thy ===== *)
theory Syscall
  imports Access Fork Vfs_Syscall
begin

text \<open>
  The system-call layer \<open>kernel/api/syscall.c\<close>: one definition per \<open>sys_*\<close> function, the dispatch and
  the interrupt handler. The argument structures, the buffers that the file systems fill, \<open>do_pipe\<close>,
  \<open>do_execve\<close> and the kernel shell are not in the sources; they are fields of \<open>sys_abi\<close>.
\<close>

subsection \<open>Argument structures\<close>

record rw_args = rw_fd :: int   rw_buf :: u32   rw_nbytes :: u32
record getdents_args = gd_fd :: int   gd_dirp :: u32   gd_count :: u32
record dup2_args = d2_ofd :: int   d2_nfd :: int
record mkdir_args = mk_path :: argstr
record link_args = ln_to :: argstr   ln_from :: argstr
record rename_args = rn_oldname :: argstr   rn_newname :: argstr
record lseek_args = ls_fd :: int   ls_offset :: int   ls_whence :: int
record open_args = op_filename :: argstr   op_flags :: u32
record munmap_args = mu_addr :: u32   mu_len :: u32
record mmap_args = mma_addr :: u32   mma_len :: u32   mma_prot :: u32   mma_flags :: u32   mma_fd :: int   mma_off :: u32
record waitpid_args = wpa_pid :: int   wpa_status :: u32
record stat_args = st_path :: argstr   st_buf :: u32
record execve_args = ex_filename :: argstr   ex_argv :: argvec   ex_envp :: argvec

record syscall_regs = regs +
  r_edx :: u32

text \<open>
  \<open>arg_buf\<close> and \<open>arg_nbytes\<close> are the loads \<open>arg->buf\<close> and \<open>arg->nbytes\<close> through the user pointer.
  \<open>dirent_of\<close> and \<open>stat_of\<close> are the bytes that a successful \<open>do_getdent\<close> and \<open>do_stat\<close> have left in their
  buffer. \<open>uts_fields\<close> are the offsets of the five members of \<open>struct utsname\<close> and \<open>uts_version\<close> the bytes of
  the version string, which has the time of the compilation.
\<close>

record sys_abi = abi +
  read_args_t :: "rw_args layout"
  write_args_t :: "rw_args layout"
  getdents_args_t :: "getdents_args layout"
  dup2_args_t :: "dup2_args layout"
  mkdir_args_t :: "mkdir_args layout"
  link_args_t :: "link_args layout"
  rename_args_t :: "rename_args layout"
  lseek_args_t :: "lseek_args layout"
  open_args_t :: "open_args layout"
  munmap_args_t :: "munmap_args layout"
  mmap_args_t :: "mmap_args layout"
  waitpid_args_t :: "waitpid_args layout"
  stat_args_t :: "stat_args layout"
  execve_args_t :: "execve_args layout"
  arg_buf :: "u32 \<Rightarrow> u32 call"
  arg_nbytes :: "u32 \<Rightarrow> u32 call"
  dirent_of :: "int \<Rightarrow> kernel \<Rightarrow> bytes"
  stat_of :: "string \<Rightarrow> kernel \<Rightarrow> bytes"
  sizeof_stat :: u32
  bytes_of_int :: "int \<Rightarrow> bytes"
  uts_fields :: "u32 \<times> u32 \<times> u32 \<times> u32 \<times> u32"
  uts_version :: bytes
  do_pipe :: "(int \<times> int \<times> int) call"
  do_execve :: "string \<Rightarrow> bytes list option \<Rightarrow> bytes list option \<Rightarrow> syscall_regs \<Rightarrow> (int \<times> syscall_regs) call"
  kshell_create :: "int \<Rightarrow> nat option call"
  kshell_execute_next :: "nat \<Rightarrow> int call"
  kshell_destroy :: "nat \<Rightarrow> proc_call"
  MAP_FAILED :: u32
  sizeof_regs :: nat
  userland_entry :: u32

subsection \<open>What the calls share\<close>

text \<open>The pattern \<open>curthr->kt_errno = e; return -1\<close>, and its use on a negative result.\<close>

definition fail_with :: "int \<Rightarrow> int call" where
  "fail_with e s = do { s \<leftarrow> set_errno e s; Some (- 1, s) }"

definition errno_of :: "int \<times> kernel \<Rightarrow> (int \<times> kernel) option" where
  "errno_of r = (case r of (err, s) \<Rightarrow> if err < 0 then fail_with (- err) s else Some (err, s))"

definition page_free_ptr :: "'z abi_scheme \<Rightarrow> nat option \<Rightarrow> proc_call" where
  "page_free_ptr A b s = (case b of Some a \<Rightarrow> Some (page_free a s) | None \<Rightarrow> page_free_null A s)"

definition handle_error :: "'z abi_scheme \<Rightarrow> int \<Rightarrow> nat option \<Rightarrow> int call" where
  "handle_error A err buf s = do {
     s \<leftarrow> page_free_ptr A buf s;
     fail_with (- err) s }"

text \<open>A structure copied from user memory.\<close>

definition copy_args :: "nat \<Rightarrow> hdr \<Rightarrow> ext \<Rightarrow> 'a layout \<Rightarrow> u32 \<Rightarrow> (int \<times> 'a) call" where
  "copy_args n H X l arg s = do {
     ((err, bs), s) \<leftarrow> copy_from_user n H X arg (fst l) s;
     Some ((err, snd l bs), s) }"

text \<open>
  The temporary page of \<open>sys_read\<close> and \<open>sys_write\<close>. Bytes stored past its end or through NULL, and
  bytes read from there, have no result.
\<close>

definition buf_write :: "hdr \<Rightarrow> nat option \<Rightarrow> bytes \<Rightarrow> proc_call" where
  "buf_write H b bs s = (
     if bs = [] then Some s
     else do {
       a \<leftarrow> b;
       KASSERT (length bs \<le> unat (PAGE_SIZE H));
       Some (s\<lparr>phys := (phys s)(a := page_write (phys s a) 0 bs)\<rparr>) })"

definition buf_read :: "hdr \<Rightarrow> nat option \<Rightarrow> nat \<Rightarrow> kernel \<Rightarrow> bytes option" where
  "buf_read H b k s = (
     if k = 0 then Some []
     else do { a \<leftarrow> b; KASSERT (k \<le> unat (PAGE_SIZE H)); Some (page_bytes (phys s a) 0 k) })"

text \<open>
  The calls that take one path: \<open>user_strdup\<close>, with \<open>EINVAL\<close> for its failure, the operation, \<open>kfree\<close>. A
  buffer with no NUL byte is not a string, and the operations would read past its end.
\<close>

definition with_path :: "nat \<Rightarrow> hdr \<Rightarrow> ext \<Rightarrow> argstr \<Rightarrow> (string \<Rightarrow> int call) \<Rightarrow> int call" where
  "with_path n H X ustr opn s = do {
     (path, s) \<leftarrow> user_strdup n H X ustr s;
     (case path of
        None \<Rightarrow> fail_with (Err H EINVAL) s
      | Some (k, bs) \<Rightarrow> do {
          str \<leftarrow> c_string bs;
          (err, s) \<leftarrow> opn str s;
          errno_of (err, slab_obj_free k s) }) }"

subsection \<open>Reading and writing files\<close>

definition sys_read :: "nat \<Rightarrow> hdr \<Rightarrow> ext \<Rightarrow> sys_abi \<Rightarrow> u32 \<Rightarrow> int call" where
  "sys_read n H X A arg s = do {
     ((_, kern_args), s) \<leftarrow> copy_args n H X (read_args_t A) arg s;
     (temp_buf, s) \<leftarrow> page_alloc s;
     ((num_bytes_read, bs), s) \<leftarrow> do_read H X (rw_fd kern_args) (unat (rw_nbytes kern_args)) s;
     s \<leftarrow> buf_write H temp_buf bs s;
     if num_bytes_read < 0 then handle_error A num_bytes_read temp_buf s
     else do {
       (ubuf, s) \<leftarrow> arg_buf A arg s;
       out \<leftarrow> buf_read H temp_buf (nat num_bytes_read) s;
       (_, s) \<leftarrow> copy_to_user n H X ubuf out (word_of_int num_bytes_read) s;
       s \<leftarrow> page_free_ptr A temp_buf s;
       Some (num_bytes_read, s) } }"

definition sys_write :: "nat \<Rightarrow> hdr \<Rightarrow> ext \<Rightarrow> sys_abi \<Rightarrow> u32 \<Rightarrow> int call" where
  "sys_write n H X A arg s = do {
     ((_, kern_args), s) \<leftarrow> copy_args n H X (write_args_t A) arg s;
     (temp_buf, s) \<leftarrow> page_alloc s;
     (ubuf, s) \<leftarrow> arg_buf A arg s;
     (unbytes, s) \<leftarrow> arg_nbytes A arg s;
     ((_, bs), s) \<leftarrow> copy_from_user n H X ubuf unbytes s;
     s \<leftarrow> buf_write H temp_buf bs s;
     out \<leftarrow> buf_read H temp_buf (unat (rw_nbytes kern_args)) s;
     (num_bytes_write, s) \<leftarrow> do_write H X (rw_fd kern_args) out s;
     if num_bytes_write < 0 then handle_error A num_bytes_write temp_buf s
     else do {
       s \<leftarrow> page_free_ptr A temp_buf s;
       Some (num_bytes_write, s) } }"

text \<open>
  The loop of \<open>sys_getdents\<close>. Each round that goes on stores one entry, so that one round more than there
  are bytes is enough for every count that leaves room for one more entry below the largest number.
\<close>

fun sys_getdents_loop :: "nat \<Rightarrow> nat \<Rightarrow> hdr \<Rightarrow> ext \<Rightarrow> sys_abi \<Rightarrow> getdents_args \<Rightarrow> nat option \<Rightarrow> u32 \<Rightarrow> int call" where
  "sys_getdents_loop k n H X A kern_args dir_buf num_bytes_read s =
     (if num_bytes_read < gd_count kern_args
      then (case k of
        0 \<Rightarrow> None
      | Suc k \<Rightarrow> do {
          let entry = dirent_of A (gd_fd kern_args) s;
          (temp_bytes_read, s) \<leftarrow> do_getdent H X (gd_fd kern_args) s;
          if temp_bytes_read = 0 then do { s \<leftarrow> kfree A dir_buf s; Some (sint num_bytes_read, s) }
          else if temp_bytes_read < 0
          then do { s \<leftarrow> kfree A dir_buf s; handle_error A temp_bytes_read None s }
          else do {
            KASSERT (dir_buf \<noteq> None);
            (_, s) \<leftarrow> copy_to_user n H X (gd_dirp kern_args + num_bytes_read) entry (word_of_int (sizeof_dirent H)) s;
            sys_getdents_loop k n H X A kern_args dir_buf (num_bytes_read + word_of_int (sizeof_dirent H)) s } })
      else do { s \<leftarrow> kfree A dir_buf s; Some (sint num_bytes_read, s) })"

definition sys_getdents :: "nat \<Rightarrow> hdr \<Rightarrow> ext \<Rightarrow> sys_abi \<Rightarrow> u32 \<Rightarrow> int call" where
  "sys_getdents n H X A arg s = do {
     ((_, kern_args), s) \<leftarrow> copy_args n H X (getdents_args_t A) arg s;
     (dir_buf, s) \<leftarrow> slab_obj_alloc s;
     sys_getdents_loop (Suc (unat (gd_count kern_args))) n H X A kern_args dir_buf 0 s }"

subsection \<open>Calls on descriptors and paths\<close>

definition sys_close :: "hdr \<Rightarrow> ext \<Rightarrow> int \<Rightarrow> int call" where
  "sys_close H X fd s = do { r \<leftarrow> do_close H X fd s; errno_of r }"

definition sys_dup :: "hdr \<Rightarrow> ext \<Rightarrow> int \<Rightarrow> int call" where
  "sys_dup H X fd s = do { r \<leftarrow> do_dup H X fd s; errno_of r }"

definition sys_dup2 :: "nat \<Rightarrow> hdr \<Rightarrow> ext \<Rightarrow> sys_abi \<Rightarrow> u32 \<Rightarrow> int call" where
  "sys_dup2 n H X A arg s = do {
     ((err, kern_args), s) \<leftarrow> copy_args n H X (dup2_args_t A) arg s;
     if err < 0 then fail_with (- err) s
     else do { r \<leftarrow> do_dup2 H X (d2_ofd kern_args) (d2_nfd kern_args) s; errno_of r } }"

definition sys_mkdir :: "nat \<Rightarrow> hdr \<Rightarrow> ext \<Rightarrow> sys_abi \<Rightarrow> u32 \<Rightarrow> int call" where
  "sys_mkdir n H X A arg s = do {
     ((err, kern_args), s) \<leftarrow> copy_args n H X (mkdir_args_t A) arg s;
     if err < 0 then fail_with (- err) s
     else with_path n H X (mk_path kern_args) (do_mkdir H X) s }"

definition sys_rmdir :: "nat \<Rightarrow> hdr \<Rightarrow> ext \<Rightarrow> sys_abi \<Rightarrow> u32 \<Rightarrow> int call" where
  "sys_rmdir n H X A arg s = do {
     ((err, kern_args), s) \<leftarrow> copy_args n H X (argstr_t A) arg s;
     if err < 0 then fail_with (- err) s
     else with_path n H X kern_args (do_rmdir H X) s }"

definition sys_unlink :: "nat \<Rightarrow> hdr \<Rightarrow> ext \<Rightarrow> sys_abi \<Rightarrow> u32 \<Rightarrow> int call" where
  "sys_unlink n H X A arg s = do {
     ((err, kern_args), s) \<leftarrow> copy_args n H X (argstr_t A) arg s;
     if err < 0 then fail_with (- err) s
     else with_path n H X kern_args (do_unlink H X) s }"

definition sys_chdir :: "nat \<Rightarrow> hdr \<Rightarrow> ext \<Rightarrow> sys_abi \<Rightarrow> u32 \<Rightarrow> int call" where
  "sys_chdir n H X A arg s = do {
     ((err, kern_args), s) \<leftarrow> copy_args n H X (argstr_t A) arg s;
     if err < 0 then fail_with (- err) s
     else with_path n H X kern_args (do_chdir H X) s }"

definition sys_open :: "nat \<Rightarrow> hdr \<Rightarrow> ext \<Rightarrow> sys_abi \<Rightarrow> u32 \<Rightarrow> int call" where
  "sys_open n H X A arg s = do {
     ((err, kern_args), s) \<leftarrow> copy_args n H X (open_args_t A) arg s;
     if err < 0 then fail_with (- err) s
     else with_path n H X (op_filename kern_args) (\<lambda>path. do_open H X path (op_flags kern_args)) s }"

text \<open>The calls that take two paths: the first one is freed when the second cannot be copied.\<close>

definition with_paths :: "nat \<Rightarrow> hdr \<Rightarrow> ext \<Rightarrow> argstr \<Rightarrow> argstr \<Rightarrow> (string \<Rightarrow> string \<Rightarrow> int call) \<Rightarrow> int call" where
  "with_paths n H X ustr1 ustr2 opn s = do {
     (path1, s) \<leftarrow> user_strdup n H X ustr1 s;
     (case path1 of
        None \<Rightarrow> fail_with (Err H EINVAL) s
      | Some (k1, bs1) \<Rightarrow> do {
          (path2, s) \<leftarrow> user_strdup n H X ustr2 s;
          (case path2 of
             None \<Rightarrow> do { s \<leftarrow> set_errno (Err H EINVAL) s; Some (- 1, slab_obj_free k1 s) }
           | Some (k2, bs2) \<Rightarrow> do {
               str1 \<leftarrow> c_string bs1;
               str2 \<leftarrow> c_string bs2;
               (err, s) \<leftarrow> opn str1 str2 s;
               errno_of (err, slab_obj_free k2 (slab_obj_free k1 s)) }) }) }"

definition sys_link :: "nat \<Rightarrow> hdr \<Rightarrow> ext \<Rightarrow> sys_abi \<Rightarrow> u32 \<Rightarrow> int call" where
  "sys_link n H X A arg s = do {
     ((err, kern_args), s) \<leftarrow> copy_args n H X (link_args_t A) arg s;
     if err < 0 then fail_with (- err) s
     else with_paths n H X (ln_to kern_args) (ln_from kern_args) (\<lambda>to from. do_link H X from to) s }"

definition sys_rename :: "nat \<Rightarrow> hdr \<Rightarrow> ext \<Rightarrow> sys_abi \<Rightarrow> u32 \<Rightarrow> int call" where
  "sys_rename n H X A arg s = do {
     ((err, kern_args), s) \<leftarrow> copy_args n H X (rename_args_t A) arg s;
     if err < 0 then fail_with (- err) s
     else with_paths n H X (rn_oldname kern_args) (rn_newname kern_args)
       (\<lambda>oldname newname. do_rename H X oldname newname) s }"

definition sys_lseek :: "nat \<Rightarrow> hdr \<Rightarrow> ext \<Rightarrow> sys_abi \<Rightarrow> u32 \<Rightarrow> int call" where
  "sys_lseek n H X A args s = do {
     ((err, kargs), s) \<leftarrow> copy_args n H X (lseek_args_t A) args s;
     if err < 0 then fail_with (- err) s
     else do { r \<leftarrow> do_lseek H X (ls_fd kargs) (ls_offset kargs) (ls_whence kargs) s; errno_of r } }"

definition sys_stat :: "nat \<Rightarrow> hdr \<Rightarrow> ext \<Rightarrow> sys_abi \<Rightarrow> u32 \<Rightarrow> int call" where
  "sys_stat n H X A arg s = do {
     ((err, kern_args), s) \<leftarrow> copy_args n H X (stat_args_t A) arg s;
     if err < 0 then fail_with (Err H EFAULT) s
     else do {
       (path, s) \<leftarrow> user_strdup n H X (st_path kern_args) s;
       (case path of
          None \<Rightarrow> fail_with (Err H EINVAL) s
        | Some (k, bs) \<Rightarrow> do {
            str \<leftarrow> c_string bs;
            let buf = stat_of A str s;
            (ret, s) \<leftarrow> do_stat H X str s;
            (ret, s) \<leftarrow> (if ret = 0 then copy_to_user n H X (st_buf kern_args) buf (sizeof_stat A) s else Some (ret, s));
            if ret \<noteq> 0
            then do { s \<leftarrow> set_errno (- ret) (slab_obj_free k s); Some (- 1, s) }
            else Some (0, slab_obj_free k s) }) } }"

definition sys_pipe :: "nat \<Rightarrow> hdr \<Rightarrow> ext \<Rightarrow> sys_abi \<Rightarrow> u32 \<Rightarrow> int call" where
  "sys_pipe n H X A arg s = do {
     ((ret, fd0, fd1), s) \<leftarrow> do_pipe A s;
     (ret, s) \<leftarrow> (if ret = 0 then copy_to_user n H X arg (bytes_of_int A fd0 @ bytes_of_int A fd1) 8 s else Some (ret, s));
     if ret \<noteq> 0 then fail_with (- ret) s else Some (0, s) }"

text \<open>A string literal with its final NUL.\<close>

definition lit :: "string \<Rightarrow> bytes" where
  "lit str = map (\<lambda>c. word_of_nat (of_char c)) str @ [0]"

fun uname_copies :: "nat \<Rightarrow> hdr \<Rightarrow> ext \<Rightarrow> (u32 \<times> bytes) list \<Rightarrow> int call" where
  "uname_copies n H X [] s = Some (0, s)"
| "uname_copies n H X ((uaddr, bs) # rest) s = do {
     (ret, s) \<leftarrow> copy_to_user n H X uaddr bs (word_of_nat (length bs)) s;
     if ret \<noteq> 0 then fail_with (- ret) s else uname_copies n H X rest s }"

definition sys_uname :: "nat \<Rightarrow> hdr \<Rightarrow> ext \<Rightarrow> sys_abi \<Rightarrow> u32 \<Rightarrow> int call" where
  "sys_uname n H X A arg s = (case uts_fields A of (sysname, release, version, nodename, machine) \<Rightarrow>
     uname_copies n H X [(arg + sysname, lit ''Weenix''), (arg + release, lit ''1.2''), (arg + version, uts_version A),
       (arg + nodename, lit []), (arg + machine, lit [])] s)"

subsection \<open>Calls on memory and processes\<close>

definition sys_munmap :: "nat \<Rightarrow> hdr \<Rightarrow> ext \<Rightarrow> sys_abi \<Rightarrow> u32 \<Rightarrow> int call" where
  "sys_munmap n H X A args s = do {
     ((err, kargs), s) \<leftarrow> copy_args n H X (munmap_args_t A) args s;
     if err \<noteq> 0 then fail_with (Err H EFAULT) s
     else do {
       (err, s) \<leftarrow> do_munmap n H X (mu_addr kargs) (mu_len kargs) s;
       if err < 0 then fail_with (- err) s else Some (0, s) } }"

definition sys_mmap :: "nat \<Rightarrow> hdr \<Rightarrow> ext \<Rightarrow> sys_abi \<Rightarrow> u32 \<Rightarrow> u32 call" where
  "sys_mmap n H X A arg s = do {
     ((err, kargs), s) \<leftarrow> copy_args n H X (mmap_args_t A) arg s;
     if err < 0 then do { s \<leftarrow> set_errno (Err H EFAULT) s; Some (MAP_FAILED A, s) }
     else do {
       ((err, ret), s) \<leftarrow> do_mmap n H X (mma_addr kargs) (mma_len kargs) (mma_prot kargs) (mma_flags kargs)
          (mma_fd kargs) (mma_off kargs) s;
       if err < 0 then do { s \<leftarrow> set_errno (- err) s; Some (MAP_FAILED A, s) }
       else do { ret \<leftarrow> ret; Some (ret, s) } } }"

definition sys_waitpid :: "nat \<Rightarrow> nat \<Rightarrow> hdr \<Rightarrow> ext \<Rightarrow> sys_abi \<Rightarrow> u32 \<Rightarrow> int call" where
  "sys_waitpid n k H X A args s = do {
     ((err, kargs), s) \<leftarrow> copy_args n H X (waitpid_args_t A) args s;
     if 0 > err then fail_with (Err H EFAULT) s
     else do {
       ((p, status), s) \<leftarrow> do_waitpid k H X (wpa_pid kargs) s;
       if 0 > p then fail_with (- p) s
       else if wpa_status kargs = 0 then Some (p, s)
       else do {
         status \<leftarrow> status;
         (err, s) \<leftarrow> copy_to_user n H X (wpa_status kargs) (bytes_of_int A status) 4 s;
         if 0 > err then fail_with (Err H EFAULT) s else Some (p, s) } } }"

definition sys_brk :: "nat \<Rightarrow> hdr \<Rightarrow> ext \<Rightarrow> u32 \<Rightarrow> u32 call" where
  "sys_brk n H X addr s = do {
     ((err, ret), s) \<leftarrow> do_brk n H X addr s;
     if err = 0 then do { ret \<leftarrow> ret; Some (ret, s) }
     else do { s \<leftarrow> set_errno (- err) s; Some (- 1, s) } }"

definition sys_sync :: "nat \<Rightarrow> hdr \<Rightarrow> ext \<Rightarrow> proc_call" where
  "sys_sync k H X s = pframe_clean_all k H X (mmobj_cleanpage X) s"

definition sys_halt :: "nat \<Rightarrow> hdr \<Rightarrow> ext \<Rightarrow> kernel \<Rightarrow> unit outcome option" where
  "sys_halt n H X s = proc_kill_all n H X s"

definition sys_fork :: "hdr \<Rightarrow> ext \<Rightarrow> sys_abi \<Rightarrow> syscall_regs \<Rightarrow> (int \<times> syscall_regs) call" where
  "sys_fork H X A regs s = do {
     ((ret, _, _, regs), s) \<leftarrow> do_fork H X (sizeof_regs A) (userland_entry A) regs s;
     (ret, s) \<leftarrow> errno_of (ret, s);
     Some ((ret, regs), s) }"

definition free_vector :: "nat \<times> kstr list \<Rightarrow> kernel \<Rightarrow> kernel" where
  "free_vector vect s = slab_obj_free (fst vect) (free_strs (snd vect) s)"

text \<open>The code of \<open>sys_execve\<close> after the label \<open>cleanup\<close>.\<close>

definition execve_cleanup :: "kstr option \<Rightarrow> (nat \<times> kstr list) option \<Rightarrow> (nat \<times> kstr list) option \<Rightarrow> syscall_regs \<Rightarrow>
    (int \<times> syscall_regs) call" where
  "execve_cleanup kern_filename kern_argv kern_envp regs s = do {
     let s = (case kern_filename of Some (k, _) \<Rightarrow> slab_obj_free k s | None \<Rightarrow> s);
     let s = (case kern_argv of Some v \<Rightarrow> free_vector v s | None \<Rightarrow> s);
     let s = (case kern_envp of Some v \<Rightarrow> free_vector v s | None \<Rightarrow> s);
     e \<leftarrow> get_errno s;
     Some ((if e \<noteq> 0 then - 1 else 0, regs), s) }"

text \<open>A vector of strings that may be NULL: \<open>None\<close> when copying it fails.\<close>

definition copy_vec :: "nat \<Rightarrow> hdr \<Rightarrow> ext \<Rightarrow> sys_abi \<Rightarrow> argvec \<Rightarrow> (nat \<times> kstr list) option option call" where
  "copy_vec n H X A uvec s = (
     if av_vec uvec = 0 then Some (Some None, s)
     else do {
       (v, s) \<leftarrow> user_vecdup n H X A uvec s;
       Some (map_option Some v, s) })"

definition sys_execve :: "nat \<Rightarrow> hdr \<Rightarrow> ext \<Rightarrow> sys_abi \<Rightarrow> u32 \<Rightarrow> syscall_regs \<Rightarrow> (int \<times> syscall_regs) call" where
  "sys_execve n H X A args regs s = do {
     ((err, kern_args), s) \<leftarrow> copy_args n H X (execve_args_t A) args s;
     if err < 0 then do { s \<leftarrow> set_errno (- err) s; execve_cleanup None None None regs s }
     else do {
       (fname, s) \<leftarrow> user_strdup n H X (ex_filename kern_args) s;
       (case fname of
          None \<Rightarrow> execve_cleanup None None None regs s
        | Some (k, bs) \<Rightarrow> do {
            (argv, s) \<leftarrow> copy_vec n H X A (ex_argv kern_args) s;
            (case argv of
               None \<Rightarrow> execve_cleanup fname None None regs s
             | Some argv \<Rightarrow> do {
                 (envp, s) \<leftarrow> copy_vec n H X A (ex_envp kern_args) s;
                 (case envp of
                    None \<Rightarrow> execve_cleanup fname argv None regs s
                  | Some envp \<Rightarrow> do {
                      str \<leftarrow> c_string bs;
                      ((err, regs), s) \<leftarrow> do_execve A str (map_option (map snd \<circ> snd) argv)
                         (map_option (map snd \<circ> snd) envp) regs s;
                      s \<leftarrow> set_errno (- err) s;
                      execve_cleanup fname argv envp regs s }) }) }) } }"

definition sys_debug :: "nat \<Rightarrow> hdr \<Rightarrow> ext \<Rightarrow> sys_abi \<Rightarrow> u32 \<Rightarrow> int call" where
  "sys_debug n H X A arg s = do {
     ((err, kern_args), s) \<leftarrow> copy_args n H X (argstr_t A) arg s;
     if err < 0 then fail_with (- err) s
     else do {
       (message, s) \<leftarrow> user_strdup n H X kern_args s;
       s \<leftarrow> kfree A (map_option fst message) s;
       Some (0, s) } }"

partial_function (option) kshell_loop :: "sys_abi \<Rightarrow> nat \<Rightarrow> kernel \<Rightarrow> (int \<times> kernel) option" where
  "kshell_loop A ksh s = do {
     (err, s) \<leftarrow> kshell_execute_next A ksh s;
     if err > 0 then kshell_loop A ksh s else Some (err, s) }"

definition sys_kshell :: "hdr \<Rightarrow> sys_abi \<Rightarrow> int \<Rightarrow> int call" where
  "sys_kshell H A ttyid s = do {
     (ksh, s) \<leftarrow> kshell_create A ttyid s;
     (case ksh of
        None \<Rightarrow> fail_with (Err H ENODEV) s
      | Some ksh \<Rightarrow> do {
          (err, s) \<leftarrow> kshell_loop A ksh s;
          s \<leftarrow> kshell_destroy A ksh s;
          if err < 0 then fail_with (- err) s else Some (0, s) }) }"

subsection \<open>Dispatch\<close>

text \<open>
  The numbers of the calls are in a header: \<open>label\<close> gives the case of the switch that a number has. The
  result is the value that goes to \<open>eax\<close>, with the registers as the call leaves them.
\<close>

datatype sys_label = SYS_waitpid | SYS_exit | SYS_thr_exit | SYS_thr_yield | SYS_fork | SYS_getpid | SYS_sync
  | SYS_mmap | SYS_munmap | SYS_open | SYS_close | SYS_read | SYS_write | SYS_dup | SYS_dup2 | SYS_mkdir
  | SYS_rmdir | SYS_unlink | SYS_link | SYS_rename | SYS_chdir | SYS_getdents | SYS_brk | SYS_lseek | SYS_halt
  | SYS_set_errno | SYS_errno | SYS_execve | SYS_stat | SYS_pipe | SYS_uname | SYS_debug | SYS_kshell | SYS_unknown

definition returned :: "'r \<Rightarrow> (int \<times> kernel) option \<Rightarrow> (int \<times> 'r) outcome option" where
  "returned regs c = do { (ret, s) \<leftarrow> c; Some (Returned (ret, regs) s) }"

definition returned_ptr :: "'r \<Rightarrow> (u32 \<times> kernel) option \<Rightarrow> (int \<times> 'r) outcome option" where
  "returned_ptr regs c = do { (ret, s) \<leftarrow> c; Some (Returned (sint ret, regs) s) }"

definition returned_regs :: "((int \<times> 'r) \<times> kernel) option \<Rightarrow> (int \<times> 'r) outcome option" where
  "returned_regs c = do { (ret, s) \<leftarrow> c; Some (Returned ret s) }"

definition yield_call :: "ext \<Rightarrow> int call" where
  "yield_call X s = do {
     s \<leftarrow> sys_thr_yield (w_irqs X s) s;
     s \<leftarrow> w_resume X s;
     Some (0, s) }"

definition syscall_dispatch :: "nat \<Rightarrow> nat \<Rightarrow> hdr \<Rightarrow> ext \<Rightarrow> sys_abi \<Rightarrow> sys_label \<Rightarrow> u32 \<Rightarrow> syscall_regs \<Rightarrow> kernel \<Rightarrow>
    (int \<times> syscall_regs) outcome option" where
  "syscall_dispatch n k H X A sysnum args regs s = (case sysnum of
     SYS_waitpid \<Rightarrow> returned regs (sys_waitpid n k H X A args s)
   | SYS_exit \<Rightarrow> exit_then n H X (sint args) (\<lambda>_. None) s
   | SYS_thr_exit \<Rightarrow> do { s \<leftarrow> kthread_exit n H X (sint args) s; Some (Exited s) }
   | SYS_thr_yield \<Rightarrow> returned regs (yield_call X s)
   | SYS_fork \<Rightarrow> returned_regs (sys_fork H X A regs s)
   | SYS_getpid \<Rightarrow> do { p \<leftarrow> curproc s; Some (Returned (p_pid (procs s p), regs) s) }
   | SYS_sync \<Rightarrow> do { s \<leftarrow> sys_sync k H X s; Some (Returned (0, regs) s) }
   | SYS_mmap \<Rightarrow> returned_ptr regs (sys_mmap n H X A args s)
   | SYS_munmap \<Rightarrow> returned regs (sys_munmap n H X A args s)
   | SYS_open \<Rightarrow> returned regs (sys_open n H X A args s)
   | SYS_close \<Rightarrow> returned regs (sys_close H X (sint args) s)
   | SYS_read \<Rightarrow> returned regs (sys_read n H X A args s)
   | SYS_write \<Rightarrow> returned regs (sys_write n H X A args s)
   | SYS_dup \<Rightarrow> returned regs (sys_dup H X (sint args) s)
   | SYS_dup2 \<Rightarrow> returned regs (sys_dup2 n H X A args s)
   | SYS_mkdir \<Rightarrow> returned regs (sys_mkdir n H X A args s)
   | SYS_rmdir \<Rightarrow> returned regs (sys_rmdir n H X A args s)
   | SYS_unlink \<Rightarrow> returned regs (sys_unlink n H X A args s)
   | SYS_link \<Rightarrow> returned regs (sys_link n H X A args s)
   | SYS_rename \<Rightarrow> returned regs (sys_rename n H X A args s)
   | SYS_chdir \<Rightarrow> returned regs (sys_chdir n H X A args s)
   | SYS_getdents \<Rightarrow> returned regs (sys_getdents n H X A args s)
   | SYS_brk \<Rightarrow> returned_ptr regs (sys_brk n H X args s)
   | SYS_lseek \<Rightarrow> returned regs (sys_lseek n H X A args s)
   | SYS_halt \<Rightarrow> do {
       r \<leftarrow> sys_halt n H X s;
       (case r of Exited s \<Rightarrow> Some (Exited s) | Returned _ s \<Rightarrow> Some (Returned (- 1, regs) s)) }
   | SYS_set_errno \<Rightarrow> do { s \<leftarrow> set_errno (sint args) s; Some (Returned (0, regs) s) }
   | SYS_errno \<Rightarrow> do { e \<leftarrow> get_errno s; Some (Returned (e, regs) s) }
   | SYS_execve \<Rightarrow> returned_regs (sys_execve n H X A args regs s)
   | SYS_stat \<Rightarrow> returned regs (sys_stat n H X A args s)
   | SYS_pipe \<Rightarrow> returned regs (sys_pipe n H X A args s)
   | SYS_uname \<Rightarrow> returned regs (sys_uname n H X A args s)
   | SYS_debug \<Rightarrow> returned regs (sys_debug n H X A args s)
   | SYS_kshell \<Rightarrow> returned regs (sys_kshell H A (sint args) s)
   | SYS_unknown \<Rightarrow> returned regs (fail_with (Err H ENOSYS) s))"

text \<open>The test for cancellation that the handler makes before and after the call.\<close>

definition unless_cancelled :: "nat \<Rightarrow> hdr \<Rightarrow> ext \<Rightarrow> (kernel \<Rightarrow> 'a outcome option) \<Rightarrow> kernel \<Rightarrow> 'a outcome option" where
  "unless_cancelled n H X c s = do {
     thr \<leftarrow> curthr s;
     th \<leftarrow> threads s thr;
     if kt_cancelled th then do { s \<leftarrow> kthread_exit n H X (kt_retval th) s; Some (Exited s) }
     else c s }"

definition syscall_handler :: "nat \<Rightarrow> nat \<Rightarrow> hdr \<Rightarrow> ext \<Rightarrow> sys_abi \<Rightarrow> (u32 \<Rightarrow> sys_label) \<Rightarrow> syscall_regs \<Rightarrow> kernel \<Rightarrow>
    syscall_regs outcome option" where
  "syscall_handler n k H X A label regs s =
     unless_cancelled n H X (\<lambda>s. do {
       r \<leftarrow> syscall_dispatch n k H X A (label (word_of_int (r_eax regs))) (r_edx regs) regs s;
       (case r of
          Exited s \<Rightarrow> Some (Exited s)
        | Returned (ret, regs) s \<Rightarrow>
            unless_cancelled n H X (Some \<circ> Returned (regs\<lparr>r_eax := ret\<rparr>)) s) }) s"

end
