(* ===== verification/Syscall_Errno.thy ===== *)
theory Syscall_Errno
  imports Syscall
begin

text \<open>
  What a process sees of a system call: the value in \<open>eax\<close>, and \<open>kt_errno\<close> when that value is -1.
\<close>

definition reports :: "int \<Rightarrow> kernel \<Rightarrow> bool" where
  "reports r s \<longleftrightarrow> 0 \<le> r \<or> r = - 1 \<and> (\<exists>e>0. get_errno s = Some e)"

definition cancelled :: "kernel \<Rightarrow> bool" where
  "cancelled s \<longleftrightarrow> (\<exists>t th. curthr s = Some t \<and> threads s t = Some th \<and> kt_cancelled th)"

definition errno_calls :: "sys_label list" where
  "errno_calls = [SYS_waitpid, SYS_fork, SYS_sync, SYS_munmap, SYS_open, SYS_close, SYS_read, SYS_write, SYS_dup, SYS_dup2,
     SYS_mkdir, SYS_rmdir, SYS_unlink, SYS_link, SYS_rename, SYS_chdir, SYS_lseek, SYS_set_errno, SYS_debug, SYS_uname, SYS_kshell, SYS_unknown]"

subsection \<open>Calls that report\<close>

definition reporting :: "(int \<times> kernel) option \<Rightarrow> bool" where
  "reporting c \<longleftrightarrow> (\<forall>r s. c = Some (r, s) \<longrightarrow> reports r s)"

named_theorems report

lemma reporting_bind [report]: "(\<And>x. c = Some x \<Longrightarrow> reporting (f x)) \<Longrightarrow> reporting (Option.bind c f)"
  by (auto simp: reporting_def bind_Some_iff)

lemma reporting_prod [report]: "(\<And>a b. x = (a, b) \<Longrightarrow> reporting (f a b)) \<Longrightarrow> reporting (case x of (a, b) \<Rightarrow> f a b)"
  by (cases x) simp

lemma reporting_prod_app [report]: "(\<And>a b. x = (a, b) \<Longrightarrow> reporting (f a b y)) \<Longrightarrow> reporting ((case x of (a, b) \<Rightarrow> f a b) y)"
  by (cases x) simp

lemma reporting_option [report]:
  "(x = None \<Longrightarrow> reporting c) \<Longrightarrow> (\<And>y. x = Some y \<Longrightarrow> reporting (f y)) \<Longrightarrow> reporting (case x of None \<Rightarrow> c | Some y \<Rightarrow> f y)"
  by (cases x) simp_all

lemma reporting_if [report]: "(b \<Longrightarrow> reporting c) \<Longrightarrow> (\<not> b \<Longrightarrow> reporting d) \<Longrightarrow> reporting (if b then c else d)"
  by simp

lemma reporting_nonneg [report]: "0 \<le> r \<Longrightarrow> reporting (Some (r, s))"
  by (simp add: reporting_def reports_def)

lemma get_errno_set: "set_errno e s = Some s' \<Longrightarrow> get_errno s' = Some e"
  by (auto simp: set_errno_def get_errno_def upd_thr_def bind_Some_iff)

lemma get_errno_free [simp]: "get_errno (slab_obj_free a s) = get_errno s"
  by (simp add: get_errno_def slab_obj_free_def)

lemma reporting_set: "set_errno e s = Some s' \<Longrightarrow> 0 < e \<Longrightarrow> reporting (Some (- 1, slab_obj_free k s'))"
  by (auto simp: reporting_def reports_def dest: get_errno_set)

lemma reporting_fail_with [report]: "0 < e \<Longrightarrow> reporting (fail_with e s)"
  by (auto simp: fail_with_def bind_Some_iff reporting_def reports_def dest: get_errno_set)

lemma reporting_errno_of [report]: "reporting (errno_of x)"
  unfolding errno_of_def by (intro report) auto

lemma reporting_handle_error [report]: "err < 0 \<Longrightarrow> reporting (handle_error A err b s)"
  unfolding handle_error_def by (intro report) auto

lemma reporting_with_path [report]: "errnos_ok (Err H) \<Longrightarrow> reporting (with_path n H X u f s)"
  unfolding with_path_def by (intro report) auto

lemma reporting_with_paths [report]: "errnos_ok (Err H) \<Longrightarrow> reporting (with_paths n H X u v f s)"
  unfolding with_paths_def by (intro reporting_bind reporting_prod reporting_option reporting_errno_of reporting_fail_with) (auto intro: reporting_set)

lemma copy_to_user_result:
  assumes "copy_to_user n H X u bs k s = Some (r, s')"
  shows "r = 0 \<or> r = - Err H EFAULT"
  using assms by (auto simp: copy_to_user_def bind_Some_iff dest: vmmap_write_result split: if_splits)

lemma reporting_uname_copies [report]:
  assumes "errnos_ok (Err H)"
  shows "reporting (uname_copies n H X l s)"
proof (induction l arbitrary: s)
  case (Cons a l)
  then show ?case using errnos_okD [OF assms, of EFAULT]
    by (cases a) (auto intro!: report dest!: copy_to_user_result)
qed (simp add: reporting_def reports_def)

lemma reporting_calls:
  assumes "errnos_ok (Err H)"
  shows "reporting (sys_waitpid n k H X A args s)" "reporting (sys_munmap n H X A args s)" "reporting (sys_open n H X A args s)"
    "reporting (sys_close H X fd s)" "reporting (sys_read n H X A args s)" "reporting (sys_write n H X A args s)"
    "reporting (sys_dup H X fd s)" "reporting (sys_dup2 n H X A args s)" "reporting (sys_mkdir n H X A args s)"
    "reporting (sys_rmdir n H X A args s)" "reporting (sys_unlink n H X A args s)" "reporting (sys_link n H X A args s)"
    "reporting (sys_rename n H X A args s)" "reporting (sys_chdir n H X A args s)" "reporting (sys_lseek n H X A args s)"
    "reporting (sys_debug n H X A args s)" "reporting (sys_uname n H X A args s)" "reporting (sys_kshell H A fd s)"
  unfolding sys_waitpid_def sys_munmap_def sys_open_def sys_close_def sys_read_def sys_write_def sys_dup_def sys_dup2_def
    sys_mkdir_def sys_rmdir_def sys_unlink_def sys_link_def sys_rename_def sys_chdir_def sys_lseek_def sys_debug_def sys_uname_def
    sys_kshell_def
  by (intro report; (rule assms | use errnos_okD [OF assms] in simp))+

lemma returned_reports: "returned regs c = Some (Returned (r, regs') s') \<Longrightarrow> reporting c \<Longrightarrow> reports r s'"
  by (auto simp: returned_def bind_Some_iff reporting_def)

lemma sys_fork_reports: "sys_fork H X A regs s = Some ((r, regs'), s') \<Longrightarrow> reports r s'"
  using reporting_errno_of by (auto simp: sys_fork_def bind_Some_iff reporting_def)

lemma dispatch_reports:
  assumes H: "errnos_ok (Err H)" and "sysnum \<in> set errno_calls" and "syscall_dispatch n k H X A sysnum args regs s = Some (Returned (r, regs') s')"
  shows "reports r s'"
proof -
  note ret = reporting_calls [OF H, THEN returned_reports [rotated]] reporting_fail_with [OF errnos_okD [OF H], THEN returned_reports [rotated]]
  have "0 \<le> r \<Longrightarrow> reports r s'" by (simp add: reports_def)
  then show ?thesis using assms(2,3)
    by (auto simp: errno_calls_def syscall_dispatch_def returned_regs_def bind_Some_iff dest: ret sys_fork_reports)
qed



end
