(* ===== verification/Spec2Isabelle.thy ===== *)
theory Spec2Isabelle
  imports Proc_Tree Boot Fd_Table Page_Fault Vm_Space Syscall_Errno
begin

text \<open>
  The Weenix kernel: a verification of the twenty C files under \<open>kernel/\<close>.

  \<^bold>\<open>The program.\<close> A small Unix kernel. The scheduler and the kernel mutex (\<open>proc/sched.c\<close>,
  \<open>proc/sched_helper.c\<close>, \<open>proc/kmutex.c\<close>) run one thread at a time; threads and processes
  (\<open>proc/kthread.c\<close>, \<open>proc/proc.c\<close>, \<open>proc/fork.c\<close>) are created, wait for each other and exit. The page cache
  (\<open>mm/pframe.c\<close>) holds the pages of memory objects: anonymous and shadow objects (\<open>vm/anon.c\<close>,
  \<open>vm/shadow.c\<close>) and files. An address space (\<open>vm/vmmap.c\<close>) is a list of areas over such objects; \<open>vm/brk.c\<close>,
  \<open>vm/mmap.c\<close> change it and \<open>vm/pagefault.c\<close> enters its pages in the page table. Path names, open files and
  the file system calls (\<open>fs/namev.c\<close>, \<open>fs/open.c\<close>, \<open>fs/vfs_syscall.c\<close>, \<open>fs/vn_special.c\<close>) stand on the
  operations of the file systems. The system calls (\<open>api/syscall.c\<close>) reach all of this from user mode and
  copy their arguments with \<open>api/access.c\<close>; \<open>main/kmain.c\<close> starts the first processes.

  \<^bold>\<open>The model.\<close> A call is a function of the kernel's state, the record \<open>kernel\<close> of \<open>Kernel_State\<close>, to an
  option: \<open>None\<close> is a call that does not come back, because an assertion fails, a NULL pointer or a
  place outside an array is used, or it never ends. A call that ends its thread has the result \<open>Exited\<close>.
  A result of C is an \<open>int\<close>, negative for an error; an address or a page number is a 32-bit word, and the
  arithmetic wraps around as in C. Every kind of structure has its own memory. A call that sleeps
  continues in the state that \<open>w_resume\<close> gives: an arbitrary one, unless a hypothesis restricts it.

  The repository holds no header and not the whole kernel. The constants and macros of the headers are
  the record \<open>hdr\<close>; the functions of other files are the record \<open>ext\<close>, and for the system calls and the
  start \<open>abi\<close>, \<open>sys_abi\<close> and \<open>boot_ext\<close>. What the code relies on of them is said by named hypotheses:
  \<open>page_ok\<close>, \<open>user_ok\<close>, \<open>errnos_ok\<close> for constants, \<open>mm_api_ok\<close>, \<open>areas_api_ok\<close>, \<open>self_api_ok\<close> for objects of
  vnodes, \<open>vfs_api_ok\<close>, \<open>file_api_ok\<close>, \<open>new_files_ok\<close> for files and vnodes, \<open>proc_api_ok\<close> for what processes
  call. The examples of \<open>Kernel_Examples\<close> and of the theories satisfy them.

  \<^bold>\<open>Theories.\<close>

  \<^item> \<open>Weenix_Prelude\<close>: words, addresses, error numbers, the crash monad, generic lemmas.
  \<^item> \<open>Fifo_Queue\<close>: the contract of a queue, a locale.
  \<^item> \<open>Sched\<close> (\<open>sched.c\<close>, \<open>sched_helper.c\<close>): queues, sleeping, waking, cancelling, switching. The thread queues
    interpret the queue locale; the run queue is served in order, all sleepers are woken, and
    \<open>sched_switch\<close> with an empty run queue and no interrupt does not return.
  \<^item> \<open>Kmutex\<close> (\<open>kmutex.c\<close>): the mutex, with a step relation for all interleavings of its users: mutual
    exclusion, no waiter is lost, the oldest waiter is next, and the cancelled thread that holds the
    mutex.
  \<^item> \<open>Kernel_State\<close>, \<open>Kernel_Examples\<close>: the state, the parameters, and instances of them.
  \<^item> \<open>Vmmap\<close>, \<open>Vmmap_Ops\<close>, \<open>Unmap\<close> (\<open>vmmap.c\<close>): insertion refines the update of the page map, a free range is
    the highest one, cloning gives the same pages, removal refines the removal of a range of pages.
  \<^item> \<open>Pframe\<close>, \<open>Shadow\<close>, \<open>Page_Cache\<close>, \<open>Cow\<close>, \<open>Mm_Lookup\<close> (\<open>pframe.c\<close>, \<open>anon.c\<close>, \<open>shadow.c\<close>): the invariant of
    the page cache and that its operations keep it; what an object shows at a page, and that looking a
    page up returns it and copies it on write; the last reference frees the pages.
  \<^item> \<open>Vn_Special\<close>, \<open>Namev\<close> (\<open>vn_special.c\<close>, \<open>namev.c\<close>): path resolution equals the walk along the components
    of the path, and every reference is accounted for.
  \<^item> \<open>Vfs_Syscall\<close>, \<open>Fd_Table\<close> (\<open>open.c\<close>, \<open>vfs_syscall.c\<close>): results and references of the calls on files; the
    descriptor table stays well formed under any sequence of calls; three calls that do something else
    than their comments say.
  \<^item> \<open>Proc\<close>, \<open>Proc_Tree\<close> (\<open>proc.c\<close>, \<open>kthread.c\<close>): identifiers are found when there are any; the process tree
    is an invariant of creation, exit and waiting; waiting returns and frees an exited child.
  \<^item> \<open>Fork\<close> (\<open>fork.c\<close>): a private area is shared through two new shadow objects, and writes of the child
    do not reach the parent.
  \<^item> \<open>Vm_Calls\<close>, \<open>Vm_Space\<close>, \<open>Page_Fault\<close> (\<open>brk.c\<close>, \<open>mmap.c\<close>, \<open>pagefault.c\<close>): \<open>do_brk\<close> and \<open>do_munmap\<close> against the
    page map; the page-fault handler enters what the protection allows, with the contents of the object.
  \<^item> \<open>Access\<close> (\<open>access.c\<close>): copies to and from user memory happen only where the process may access it, but
    for ranges that wrap around, which pass the test and copy nothing.
  \<^item> \<open>Syscall\<close>, \<open>Syscall_Errno\<close> (\<open>syscall.c\<close>): every call, the dispatch and the handler; the convention of
    -1 and \<open>errno\<close>.
  \<^item> \<open>Boot\<close> (\<open>kmain.c\<close>, and the pageout daemon and shutdown of \<open>pframe.c\<close>): the first processes and the end.

  \<^bold>\<open>Locales.\<close> \<open>fifo_queue\<close> is interpreted on the thread queues. \<open>mm_objs\<close>, \<open>mm_frame\<close> and \<open>mm_lookup\<close> carry a
  relation between states through the operations of objects, address spaces and page lookups; they are
  interpreted for the areas (\<open>Unmap\<close>), the processes (\<open>Proc\<close>) and the current process (\<open>Page_Fault\<close>).
  \<open>proc_env\<close> does the same for what processes call.

  \<^bold>\<open>Bounds.\<close> The operations of memory objects call each other; their first argument bounds the depth of
  these calls and the length of the shadow chains. The theorems that a lookup returns say how much is
  enough: the length of the chain and a small constant. The rounds of \<open>vmmap_read\<close> and \<open>vmmap_write\<close> are bounded
  by the number of bytes, which is proved to be enough (\<open>vmmap_read_loop_rounds\<close>); those of \<open>sys_getdents\<close> by
  the number of bytes of the buffer. Loops that wait for another thread, and the search for an
  identifier, are partial functions or take the number of wakeups as an argument; that the search ends
  is a theorem.

  \<^bold>\<open>Not modelled.\<close> Code that prints for the debugger (\<open>vmmap_mapping_info\<close>, \<open>proc_info\<close>, \<open>proc_list_info\<close>); code
  under \<open>__MTP__\<close>, \<open>__MOUNTING__\<close>, \<open>__GETCWD__\<close> and \<open>__SHADOWD__\<close>, which is not compiled or not implemented;
  the creation of slab allocators in the \<open>init\<close> functions and the registration of the handler, which only
  call code outside the repository; \<open>kmain\<close> and \<open>initproc_run\<close>, which set up the machine and the kernel
  shell; the machine context of a thread beyond the fields that \<open>fork\<close> writes; the contents of the buffers
  of \<open>stat\<close> and \<open>readdir\<close> below the system calls, which are an argument of the calls that copy them out.
\<close>

end
